(* ===== verification/Prelude.thy ===== *)
theory Prelude
  imports Main "HOL-Library.Word" "HOL-Library.AList" "HOL-Library.Monad_Syntax"
    "HOL-Library.Code_Target_Nat"
begin

text \<open>
  Shared vocabulary of the development: the machine integer types of the Rust sources, Rust's
  \<^verbatim>\<open>Result\<close> and \<^verbatim>\<open>HashMap\<close>, panics as the \<^const>\<open>None\<close> of an option, positional number systems
  (big-endian byte strings, IPv4 octets and IPv6 segments are all instances), and the two
  generic interfaces every component is a client of: a text codec (print and parse back) and a
  hash map.
\<close>

section \<open>Types\<close>

type_synonym u8 = "8 word"
type_synonym u16 = "16 word"
type_synonym u32 = "32 word"
type_synonym u64 = "64 word"
type_synonym usize = "64 word"

text \<open>
  A Rust \<^verbatim>\<open>String\<close> or \<^verbatim>\<open>&str\<close> is its UTF-8 encoding: one HOL character per byte, so that lengths and
  indices count bytes exactly as in Rust.
\<close>

type_synonym str = string

text \<open>\<^verbatim>\<open>Result<T, String>\<close>: \<^const>\<open>Inl\<close> is \<^verbatim>\<open>Err\<close>, \<^const>\<open>Inr\<close> is \<^verbatim>\<open>Ok\<close>.\<close>

type_synonym 'a rresult = "str + 'a"

fun is_ok :: "'e + 'a \<Rightarrow> bool" where
  "is_ok (Inl _) = False"
| "is_ok (Inr _) = True"

fun is_err :: "'e + 'a \<Rightarrow> bool" where
  "is_err (Inl _) = True"
| "is_err (Inr _) = False"

lemma is_ok_iff: "is_ok r \<longleftrightarrow> (\<exists>x. r = Inr x)"
  by (cases r) auto

lemma is_err_iff: "is_err r \<longleftrightarrow> (\<exists>e. r = Inl e)"
  by (cases r) auto

lemma is_err_not_ok: "is_err r \<longleftrightarrow> \<not> is_ok r"
  by (cases r) auto

text \<open>The facts that evaluate the string and number functions of Rust's standard library.\<close>

named_theorems std_simps

text \<open>The facts a codec component offers: encoding lengths and round trips.\<close>

named_theorems codec_simps

section \<open>Slices\<close>

text \<open>
  \<^verbatim>\<open>xs[lo..hi]\<close> and \<^verbatim>\<open>xs[i]\<close> panic out of range. Functions that slice return an option in which
  \<^const>\<open>None\<close> is the panic.
\<close>

definition slice :: "'a list \<Rightarrow> nat \<Rightarrow> nat \<Rightarrow> 'a list option" where
  "slice xs lo hi = (if lo \<le> hi \<and> hi \<le> length xs then Some (take (hi - lo) (drop lo xs)) else None)"

definition slice_from :: "'a list \<Rightarrow> nat \<Rightarrow> 'a list option" where
  "slice_from xs lo = slice xs lo (length xs)"

definition index :: "'a list \<Rightarrow> nat \<Rightarrow> 'a option" where
  "index xs i = (if i < length xs then Some (xs ! i) else None)"

lemma slice_Some [simp]:
  "lo \<le> hi \<Longrightarrow> hi \<le> length xs \<Longrightarrow> slice xs lo hi = Some (take (hi - lo) (drop lo xs))"
  by (simp add: slice_def)

lemma slice_from_Some [simp]: "lo \<le> length xs \<Longrightarrow> slice_from xs lo = Some (drop lo xs)"
  by (simp add: slice_from_def slice_def)

lemma index_Some [simp]: "i < length xs \<Longrightarrow> index xs i = Some (xs ! i)"
  by (simp add: index_def)

section \<open>First match in a list\<close>

text \<open>A loop that returns at the first match is \<^const>\<open>List.find\<close>; a client mostly asks whether there is one.\<close>

lemma case_find:
  "(case List.find P xs of Some x \<Rightarrow> f x | None \<Rightarrow> d) =
     (if \<exists>x \<in> set xs. P x then f (hd (filter P xs)) else d)"
  by (induction xs) auto

lemma find_is_some: "(\<exists>x. List.find P xs = Some x) \<longleftrightarrow> (\<exists>x \<in> set xs. P x)"
  by (induction xs) auto

section \<open>Positional number systems\<close>

text \<open>The \<open>n\<close> least significant digits of \<open>k\<close> in base \<open>b\<close>, most significant first.\<close>

fun to_digits :: "nat \<Rightarrow> nat \<Rightarrow> nat \<Rightarrow> nat list" where
  "to_digits b 0 k = []"
| "to_digits b (Suc n) k = to_digits b n (k div b) @ [k mod b]"

definition of_digits :: "nat \<Rightarrow> nat list \<Rightarrow> nat" where
  "of_digits b ds = foldl (\<lambda>a d. a * b + d) 0 ds"

lemma of_digits_Nil [simp]: "of_digits b [] = 0"
  by (simp add: of_digits_def)

lemma of_digits_snoc [simp]: "of_digits b (ds @ [d]) = of_digits b ds * b + d"
  by (simp add: of_digits_def)

lemma length_to_digits [simp]: "length (to_digits b n k) = n"
  by (induction n arbitrary: k) auto

lemma of_digits_to_digits: "of_digits b (to_digits b n k) = k mod b ^ n"
proof (induction n arbitrary: k)
  case 0
  then show ?case by simp
next
  case (Suc n)
  have "k mod (b * b ^ n) = b * (k div b mod b ^ n) + k mod b"
    by (rule mod_mult2_eq)
  with Suc.IH [of "k div b"] show ?case by (simp add: mult.commute)
qed

lemma to_digits_bound: "0 < b \<Longrightarrow> d \<in> set (to_digits b n k) \<Longrightarrow> d < b"
  by (induction n arbitrary: k) auto

lemma to_digits_of_digits:
  assumes "\<forall>d \<in> set ds. d < b"
  shows "to_digits b (length ds) (of_digits b ds) = ds"
  using assms by (induction ds rule: rev_induct) (auto simp: div_mult_self3)

lemma of_digits_bound:
  assumes "\<forall>d \<in> set ds. d < b"
  shows "of_digits b ds < b ^ length ds"
proof (cases "ds = []")
  case False
  with assms have "0 < b" by (cases ds) auto
  then have "of_digits b (to_digits b (length ds) (of_digits b ds)) < b ^ length ds"
    by (simp add: of_digits_to_digits)
  then show ?thesis using assms by (simp add: to_digits_of_digits)
qed simp

section \<open>Text codecs\<close>

text \<open>
  The contract between a \<^verbatim>\<open>Display\<close> and a \<^verbatim>\<open>FromStr\<close> implementation: parsing undoes printing.
  What a client relies on is that the printed form identifies the value.
\<close>

locale text_codec =
  fixes print :: "'a \<Rightarrow> str" and parse :: "str \<Rightarrow> 'a option"
  assumes parse_print: "parse (print x) = Some x"
begin

lemma print_inject: "print x = print y \<longleftrightarrow> x = y"
  by (metis option.inject parse_print)

lemma print_in_range: "\<exists>y. parse (print x) = Some y \<and> print y = print x"
  by (simp add: parse_print)

end

section \<open>Hash maps\<close>

text \<open>
  \<^verbatim>\<open>HashMap<K, V>\<close> as an association list with distinct keys. The iteration order of a
  \<^verbatim>\<open>HashMap\<close> is unspecified; no operation below depends on the order of the list beyond the order in
  which its elements are visited.
\<close>

type_synonym ('k, 'v) hmap = "('k \<times> 'v) list"

definition hm_ok :: "('k, 'v) hmap \<Rightarrow> bool" where
  "hm_ok m \<longleftrightarrow> distinct (map fst m)"

definition hm_get :: "('k, 'v) hmap \<Rightarrow> 'k \<Rightarrow> 'v option" where
  "hm_get m k = map_of m k"

definition hm_insert :: "'k \<Rightarrow> 'v \<Rightarrow> ('k, 'v) hmap \<Rightarrow> ('k, 'v) hmap" where
  "hm_insert k v m = AList.update k v m"

definition hm_remove :: "'k \<Rightarrow> ('k, 'v) hmap \<Rightarrow> ('k, 'v) hmap" where
  "hm_remove k m = AList.delete k m"

text \<open>What a client of a map relies on.\<close>

locale hash_map =
  fixes empty :: 'm
    and get :: "'m \<Rightarrow> 'k \<Rightarrow> 'v option"
    and insert :: "'k \<Rightarrow> 'v \<Rightarrow> 'm \<Rightarrow> 'm"
    and remove :: "'k \<Rightarrow> 'm \<Rightarrow> 'm"
    and ok :: "'m \<Rightarrow> bool"
  assumes ok_empty: "ok empty"
    and ok_insert: "ok m \<Longrightarrow> ok (insert k v m)"
    and ok_remove: "ok m \<Longrightarrow> ok (remove k m)"
    and get_empty: "get empty k = None"
    and get_insert: "get (insert k v m) k' = (if k' = k then Some v else get m k')"
    and get_remove: "get (remove k m) k' = (if k' = k then None else get m k')"
begin

lemma insert_overwrites: "get (insert k v (insert k w m)) k' = get (insert k v m) k'"
  by (simp add: get_insert)

lemma insert_remove: "get (insert k v (remove k m)) k' = get (insert k v m) k'"
  by (simp add: get_insert get_remove)

lemma remove_insert: "get (remove k (insert k v m)) k' = get (remove k m) k'"
  by (simp add: get_insert get_remove)

lemma insert_commute:
  "k \<noteq> l \<Longrightarrow> get (insert k v (insert l w m)) k' = get (insert l w (insert k v m)) k'"
  by (auto simp: get_insert)

end

interpretation hm: hash_map "[]" hm_get hm_insert hm_remove hm_ok
  by unfold_locales
    (auto simp: hm_ok_def hm_get_def hm_insert_def hm_remove_def distinct_update
      update_conv' delete_conv' distinct_delete)

lemmas hm_simps [simp] = hm.get_empty hm.get_insert hm.get_remove
lemmas hm_intros [intro] = hm.ok_empty hm.ok_insert hm.ok_remove

lemma hm_get_in_set: "hm_ok m \<Longrightarrow> hm_get m k = Some v \<longleftrightarrow> (k, v) \<in> set m"
  by (simp add: hm_ok_def hm_get_def)

lemma hm_get_SomeD: "hm_get m k = Some v \<Longrightarrow> (k, v) \<in> set m"
  by (simp add: hm_get_def map_of_SomeD)

section \<open>Transition systems\<close>

inductive reachable :: "('s \<Rightarrow> bool) \<Rightarrow> ('s \<Rightarrow> 's \<Rightarrow> bool) \<Rightarrow> 's \<Rightarrow> bool" for init step where
  start: "init s \<Longrightarrow> reachable init step s"
| move: "reachable init step s \<Longrightarrow> step s s' \<Longrightarrow> reachable init step s'"

text \<open>An inductive invariant of a transition system holds in every state it reaches.\<close>

locale inductive_invariant =
  fixes init :: "'s \<Rightarrow> bool" and step :: "'s \<Rightarrow> 's \<Rightarrow> bool" and inv :: "'s \<Rightarrow> bool"
  assumes inv_init: "init s \<Longrightarrow> inv s"
    and inv_step: "inv s \<Longrightarrow> step s s' \<Longrightarrow> inv s'"
begin

lemma inv_reachable: "reachable init step s \<Longrightarrow> inv s"
  by (induction rule: reachable.induct) (auto intro: inv_init inv_step)

lemma inv_from:
  assumes "reachable (\<lambda>s0. s0 = s) step s'" and "inv s"
  shows "inv s'"
  using assms by (induction rule: reachable.induct) (auto intro: inv_step)

end

end
