(* ===== verification/Rust_Str.thy ===== *)
theory Rust_Str
  imports Prelude
begin

text \<open>
  What the program uses of Rust's \<^verbatim>\<open>str\<close>, integer parsing and printing, and UTF-8 validation. A
  string is the list of its UTF-8 bytes (see \<open>Prelude\<close>), so indices are byte offsets. Slicing a
  \<^verbatim>\<open>str\<close> next to an ASCII delimiter always falls on a character boundary, so those slices are
  plain \<^const>\<open>take\<close> and \<^const>\<open>drop\<close>.
\<close>

section \<open>Searching and splitting\<close>

definition strip_prefix :: "str \<Rightarrow> str \<Rightarrow> str option" where
  "strip_prefix p s = (if take (length p) s = p then Some (drop (length p) s) else None)"

definition strip_suffix :: "str \<Rightarrow> str \<Rightarrow> str option" where
  "strip_suffix p s = map_option rev (strip_prefix (rev p) (rev s))"

definition ends_with :: "str \<Rightarrow> str \<Rightarrow> bool" where
  "ends_with s p \<longleftrightarrow> strip_suffix p s \<noteq> None"

fun str_find :: "char \<Rightarrow> str \<Rightarrow> nat option" where
  "str_find c [] = None"
| "str_find c (x # xs) = (if x = c then Some 0 else map_option Suc (str_find c xs))"

definition str_rfind :: "char \<Rightarrow> str \<Rightarrow> nat option" where
  "str_rfind c s = map_option (\<lambda>i. length s - 1 - i) (str_find c (rev s))"

definition str_contains :: "char \<Rightarrow> str \<Rightarrow> bool" where
  "str_contains c s \<longleftrightarrow> c \<in> set s"

fun str_split :: "char \<Rightarrow> str \<Rightarrow> str list" where
  "str_split c [] = [[]]"
| "str_split c (x # xs) =
     (if x = c then [] # str_split c xs
      else (case str_split c xs of [] \<Rightarrow> [[x]] | p # ps \<Rightarrow> (x # p) # ps))"

lemma strip_prefix_Some: "strip_prefix p s = Some r \<longleftrightarrow> s = p @ r"
  by (auto simp: strip_prefix_def) (metis append_take_drop_id)

lemma strip_prefix_append [simp]: "strip_prefix p (p @ r) = Some r"
  by (simp add: strip_prefix_Some)

lemma strip_suffix_Some: "strip_suffix p s = Some r \<longleftrightarrow> s = r @ p"
proof -
  have "strip_suffix p s = Some r \<longleftrightarrow> rev s = rev p @ rev r"
    by (auto simp: strip_suffix_def strip_prefix_Some)
  also have "\<dots> \<longleftrightarrow> s = r @ p"
    by (metis rev_append rev_rev_ident)
  finally show ?thesis .
qed

lemma strip_suffix_append [simp]: "strip_suffix p (r @ p) = Some r"
  by (simp add: strip_suffix_Some)

lemma ends_with_iff: "ends_with s p \<longleftrightarrow> (\<exists>r. s = r @ p)"
  by (auto simp: ends_with_def strip_suffix_Some)

lemma str_find_Some: "str_find c s = Some i \<Longrightarrow> i < length s \<and> s ! i = c \<and> c \<notin> set (take i s)"
  by (induction s arbitrary: i) (auto split: if_splits)

lemma str_find_None: "str_find c s = None \<longleftrightarrow> c \<notin> set s"
  by (induction s) auto

lemma str_find_append: "c \<notin> set p \<Longrightarrow> str_find c (p @ c # r) = Some (length p)"
  by (induction p) auto

lemma str_rfind_None: "str_rfind c s = None \<longleftrightarrow> c \<notin> set s"
  by (simp add: str_rfind_def str_find_None)

lemma str_rfind_append: "c \<notin> set r \<Longrightarrow> str_rfind c (p @ c # r) = Some (length p)"
  by (simp add: str_rfind_def str_find_append)

lemma str_split_nonempty [simp]: "str_split c s \<noteq> []"
  by (induction s) (auto split: list.splits)

lemma str_split_no_sep: "c \<notin> set s \<Longrightarrow> str_split c s = [s]"
  by (induction s) auto

lemma str_split_append: "c \<notin> set p \<Longrightarrow> str_split c (p @ c # r) = p # str_split c r"
  by (induction p) auto

section \<open>White space and case\<close>

text \<open>The UTF-8 encodings of the code points with the Unicode property White\_Space.\<close>

definition white_space :: "str list" where
  "white_space = map (map char_of)
     [[0x09::nat], [0x0A], [0x0B], [0x0C], [0x0D], [0x20], [0xC2, 0x85], [0xC2, 0xA0],
      [0xE1, 0x9A, 0x80], [0xE2, 0x80, 0x80], [0xE2, 0x80, 0x81], [0xE2, 0x80, 0x82],
      [0xE2, 0x80, 0x83], [0xE2, 0x80, 0x84], [0xE2, 0x80, 0x85], [0xE2, 0x80, 0x86],
      [0xE2, 0x80, 0x87], [0xE2, 0x80, 0x88], [0xE2, 0x80, 0x89], [0xE2, 0x80, 0x8A],
      [0xE2, 0x80, 0xA8], [0xE2, 0x80, 0xA9], [0xE2, 0x80, 0xAF], [0xE2, 0x81, 0x9F],
      [0xE3, 0x80, 0x80]]"

text \<open>The length of the white space that is a prefix of the string (0 when there is none).\<close>

fun ws_prefix :: "str list \<Rightarrow> str \<Rightarrow> nat" where
  "ws_prefix [] s = 0"
| "ws_prefix (w # ws) s = (if take (length w) s = w then length w else ws_prefix ws s)"

function trim_with :: "str list \<Rightarrow> str \<Rightarrow> str" where
  "trim_with ws s =
     (let n = ws_prefix ws s in if n = 0 \<or> s = [] then s else trim_with ws (drop n s))"
  by pat_completeness auto
termination
  by (relation "measure (\<lambda>(ws, s). length s)") auto

declare trim_with.simps [simp del]

definition trim_start :: "str \<Rightarrow> str" where
  "trim_start s = trim_with white_space s"

definition trim_end :: "str \<Rightarrow> str" where
  "trim_end s = rev (trim_with (map rev white_space) (rev s))"

definition trim :: "str \<Rightarrow> str" where
  "trim s = trim_end (trim_start s)"

definition is_ascii :: "char \<Rightarrow> bool" where
  "is_ascii c \<longleftrightarrow> (of_char c :: nat) < 128"

definition ascii_lower :: "char \<Rightarrow> char" where
  "ascii_lower c = (let n = (of_char c :: nat) in if 65 \<le> n \<and> n \<le> 90 then char_of (n + 32) else c)"

text \<open>
  \<^verbatim>\<open>str::to_lowercase\<close>. On ASCII text it lowers \<^verbatim>\<open>A\<close> to \<^verbatim>\<open>Z\<close>. On other text the mapping is the
  Unicode character database's, which is the argument \<open>uni\<close>.
\<close>

definition to_lowercase :: "(str \<Rightarrow> str) \<Rightarrow> str \<Rightarrow> str" where
  "to_lowercase uni s = (if list_all is_ascii s then map ascii_lower s else uni s)"

lemma ascii_lower_idem [simp]: "ascii_lower (ascii_lower c) = ascii_lower c"
  by (auto simp: ascii_lower_def Let_def)

lemma is_ascii_lower [simp]: "is_ascii c \<Longrightarrow> is_ascii (ascii_lower c)"
  by (auto simp: ascii_lower_def is_ascii_def Let_def)

lemma to_lowercase_ascii: "list_all is_ascii s \<Longrightarrow> to_lowercase uni s = map ascii_lower s"
  by (simp add: to_lowercase_def)

lemma to_lowercase_idem_ascii:
  "list_all is_ascii s \<Longrightarrow> to_lowercase uni (to_lowercase uni s) = to_lowercase uni s"
  by (simp add: to_lowercase_def list_all_iff)

lemma ascii_lower_dot: "ascii_lower c = CHR ''.'' \<longleftrightarrow> c = CHR ''.''"
proof
  assume *: "ascii_lower c = CHR ''.''"
  show "c = CHR ''.''"
  proof (cases "65 \<le> (of_char c :: nat) \<and> (of_char c :: nat) \<le> 90")
    case True
    with * have "char_of ((of_char c :: nat) + 32) = CHR ''.''"
      by (simp add: ascii_lower_def)
    then have "(of_char (char_of ((of_char c :: nat) + 32) :: char) :: nat) = 46" by simp
    with True show ?thesis by (simp add: of_char_mod_256)
  next
    case False
    with * show ?thesis by (auto simp: ascii_lower_def Let_def)
  qed
qed (simp add: ascii_lower_def)


text \<open>Text that starts and ends with a visible ASCII character is not trimmed.\<close>

definition is_graphic :: "char \<Rightarrow> bool" where
  "is_graphic c \<longleftrightarrow> 33 \<le> (of_char c :: nat) \<and> (of_char c :: nat) \<le> 126"

lemma white_space_not_graphic:
  "list_all (\<lambda>w. w \<noteq> [] \<and> \<not> is_graphic (hd w)) white_space"
  "list_all (\<lambda>w. w \<noteq> [] \<and> \<not> is_graphic (hd w)) (map rev white_space)"
  by code_simp+

lemma ws_prefix_graphic:
  assumes "list_all (\<lambda>w. w \<noteq> [] \<and> \<not> is_graphic (hd w)) ws" and "s \<noteq> [] \<Longrightarrow> is_graphic (hd s)"
  shows "trim_with ws s = s"
proof (cases s)
  case (Cons c r)
  have "ws_prefix ws s = 0"
    using assms by (induction ws) (auto simp: Cons neq_Nil_conv)
  then show ?thesis by (simp add: trim_with.simps)
qed (simp add: trim_with.simps)

lemma trim_graphic:
  assumes "s = [] \<or> is_graphic (hd s) \<and> is_graphic (last s)"
  shows "trim s = s"
proof -
  have "trim_start s = s"
    using assms white_space_not_graphic(1) unfolding trim_start_def by (intro ws_prefix_graphic) auto
  moreover have "trim_end s = s"
    using assms white_space_not_graphic(2) unfolding trim_end_def
    by (subst ws_prefix_graphic) (auto simp: hd_rev)
  ultimately show ?thesis by (simp add: trim_def)
qed

end
