(* ===== verification/Rust_Num.thy ===== *)
theory Rust_Num
  imports Rust_Str
begin

text \<open>
  Integers as text and as bytes: \<^verbatim>\<open>char::to_digit\<close>, \<^verbatim>\<open>FromStr\<close> of the unsigned integer types, decimal
  and hexadecimal \<^verbatim>\<open>Display\<close>, \<^verbatim>\<open>to_be_bytes\<close> and \<^verbatim>\<open>from_be_bytes\<close>. Each pair is an instance of a
  codec interface.
\<close>

section \<open>Digits\<close>

definition digit_val :: "nat \<Rightarrow> char \<Rightarrow> nat option" where
  "digit_val radix c =
     (let n = (of_char c :: nat);
          d = (if 48 \<le> n \<and> n \<le> 57 then n - 48
               else if 97 \<le> n \<and> n \<le> 122 then n - 87
               else if 65 \<le> n \<and> n \<le> 90 then n - 55
               else radix)
      in if d < radix then Some d else None)"

definition is_digit :: "nat \<Rightarrow> char \<Rightarrow> bool" where
  "is_digit radix c \<longleftrightarrow> digit_val radix c \<noteq> None"

definition digit_char :: "nat \<Rightarrow> char" where
  "digit_char d = char_of (if d < 10 then 48 + d else 87 + d)"

definition digits_value :: "nat \<Rightarrow> str \<Rightarrow> nat" where
  "digits_value radix ds = of_digits radix (map (\<lambda>c. the (digit_val radix c)) ds)"

lemma unat_lt_2p: "unat (w :: 'a::len word) < 2 ^ LENGTH('a)"
  by (rule unsigned_less)

lemma of_char_char_of_nat: "n < 256 \<Longrightarrow> (of_char (char_of (n :: nat)) :: nat) = n"
  by (simp add: of_char_mod_256)

lemma digit_val_digit_char [simp]:
  assumes "d < b" and "b \<le> 16"
  shows "digit_val b (digit_char d) = Some d"
proof -
  have "(of_char (digit_char d) :: nat) = (if d < 10 then 48 + d else 87 + d)"
    using assms unfolding digit_char_def by (subst of_char_char_of_nat) auto
  with assms show ?thesis by (simp add: digit_val_def)
qed

lemma is_digit_digit_char [simp]: "d < b \<Longrightarrow> b \<le> 16 \<Longrightarrow> is_digit b (digit_char d)"
  by (simp add: is_digit_def)

lemma digit_char_0: "d < 16 \<Longrightarrow> digit_char d = CHR ''0'' \<longleftrightarrow> d = 0"
proof
  assume "d < 16" and *: "digit_char d = CHR ''0''"
  have "digit_val 16 (CHR ''0'') = Some 0" by code_simp
  with \<open>d < 16\<close> show "d = 0" using digit_val_digit_char [of d 16] by (simp add: *)
next
  show "d = 0 \<Longrightarrow> digit_char d = CHR ''0''" by (simp add: digit_char_def) code_simp
qed

lemma is_digit_punct [simp]:
  "\<not> is_digit 10 (CHR ''.'')" "\<not> is_digit 16 (CHR ''.'')"
  "\<not> is_digit 10 (CHR '':'')" "\<not> is_digit 16 (CHR '':'')"
  "\<not> is_digit 10 (CHR '']'')" "\<not> is_digit 16 (CHR '']'')"
  "\<not> is_digit 10 (CHR ''['')" "\<not> is_digit 16 (CHR ''['')"
  "\<not> is_digit 10 (CHR ''%'')" "\<not> is_digit 16 (CHR ''%'')"
  "\<not> is_digit 10 (CHR ''+'')" "\<not> is_digit 10 (CHR ''-'')"
  by (simp_all add: is_digit_def digit_val_def)

lemma is_digit_10_16: "is_digit 10 c \<Longrightarrow> is_digit 16 c"
  by (auto simp: is_digit_def digit_val_def Let_def split: if_splits)

lemma is_digit_graphic: "is_digit 10 c \<Longrightarrow> is_graphic c"
  by (auto simp: is_digit_def digit_val_def is_graphic_def Let_def split: if_splits)

section \<open>Printing\<close>

text \<open>\<^verbatim>\<open>{}\<close> (base 10) and \<^verbatim>\<open>{:x}\<close> (base 16) of an unsigned integer.\<close>

fun print_base :: "nat \<Rightarrow> nat \<Rightarrow> str" where
  "print_base b n =
     (if n < b \<or> b < 2 then [digit_char n] else print_base b (n div b) @ [digit_char (n mod b)])"

declare print_base.simps [simp del]

abbreviation print_nat :: "nat \<Rightarrow> str" where
  "print_nat \<equiv> print_base 10"

lemma print_base_digits:
  assumes "2 \<le> b" and "b \<le> 16"
  shows "list_all (is_digit b) (print_base b n)"
proof (induction n rule: less_induct)
  case (less n)
  show ?case
  proof (cases "n < b")
    case True
    with assms show ?thesis by (subst print_base.simps) simp
  next
    case False
    with assms have "n div b < n" by simp
    with less.IH have "list_all (is_digit b) (print_base b (n div b))" by blast
    with False assms show ?thesis by (subst print_base.simps) simp
  qed
qed

lemma digits_value_print_base:
  assumes "2 \<le> b" and "b \<le> 16"
  shows "digits_value b (print_base b n) = n"
proof (induction n rule: less_induct)
  case (less n)
  show ?case
  proof (cases "n < b")
    case True
    with assms show ?thesis
      by (subst print_base.simps) (simp add: digits_value_def of_digits_def)
  next
    case False
    with assms have "n div b < n" by simp
    with less.IH have "digits_value b (print_base b (n div b)) = n div b" by blast
    with False assms show ?thesis
      by (subst print_base.simps) (simp add: digits_value_def)
  qed
qed

lemma print_base_nonempty [simp]: "print_base b n \<noteq> []"
  by (subst print_base.simps) simp

lemma print_base_length:
  "2 \<le> b \<Longrightarrow> n < b ^ Suc k \<Longrightarrow> length (print_base b n) \<le> Suc k"
proof (induction k arbitrary: n)
  case 0
  then show ?case by (subst print_base.simps) simp
next
  case (Suc k)
  then have "n div b < b ^ Suc k" by (simp add: less_mult_imp_div_less mult.commute)
  then have "length (print_base b (n div b)) \<le> Suc k" using Suc.IH Suc.prems(1) by blast
  then show ?case by (subst print_base.simps) simp
qed

lemma print_base_hd:
  assumes "2 \<le> b" and "b \<le> 16" and "hd (print_base b n) = CHR ''0''"
  shows "length (print_base b n) = 1"
  using assms(3)
proof (induction n rule: less_induct)
  case (less n)
  show ?case
  proof (cases "n < b")
    case True
    then show ?thesis by (subst print_base.simps) simp
  next
    case False
    with assms(1) have smaller: "n div b < n" and pos: "0 < n div b"
      by (auto simp: div_greater_zero_iff)
    from False assms(1) have eq: "print_base b n = print_base b (n div b) @ [digit_char (n mod b)]"
      by (subst print_base.simps) simp
    with less.prems have hd0: "hd (print_base b (n div b)) = CHR ''0''" by simp
    with less.IH smaller have "length (print_base b (n div b)) = 1" by blast
    with hd0 have "print_base b (n div b) = [CHR ''0'']"
      by (cases "print_base b (n div b)") auto
    then have "digits_value b (print_base b (n div b)) = digits_value b [CHR ''0'']" by simp
    moreover have "digit_val b (CHR ''0'') = Some 0"
      using assms(1) by (simp add: digit_val_def)
    ultimately have "n div b = 0"
      using assms(1,2) by (simp only: digits_value_print_base) (simp add: digits_value_def of_digits_def)
    with pos show ?thesis by simp
  qed
qed

section \<open>Parsing\<close>

text \<open>
  \<^verbatim>\<open>FromStr\<close> of an unsigned type with maximum \<open>bound - 1\<close>: an optional \<^verbatim>\<open>+\<close>, then at least one decimal
  digit, and no overflow.
\<close>

definition parse_uint :: "nat \<Rightarrow> str \<Rightarrow> nat option" where
  "parse_uint bound s =
     (let ds = (case s of [] \<Rightarrow> [] | c # r \<Rightarrow> if c = CHR ''+'' then r else s) in
      if ds \<noteq> [] \<and> list_all (is_digit 10) ds \<and> digits_value 10 ds < bound
      then Some (digits_value 10 ds) else None)"

definition parse_u16 :: "str \<Rightarrow> u16 option" where
  "parse_u16 s = map_option of_nat (parse_uint (2 ^ 16) s)"

definition print_u16 :: "u16 \<Rightarrow> str" where
  "print_u16 p = print_nat (unat p)"

lemma parse_uint_print_nat:
  assumes "n < bound"
  shows "parse_uint bound (print_nat n) = Some n"
proof -
  obtain c r where eq: "print_nat n = c # r" by (cases "print_nat n") auto
  moreover have digits: "list_all (is_digit 10) (print_nat n)" by (rule print_base_digits) auto
  ultimately have "c \<noteq> CHR ''+''" by auto
  with eq have "(case print_nat n of [] \<Rightarrow> [] | c # r \<Rightarrow> if c = CHR ''+'' then r else print_nat n) = print_nat n"
    by simp
  with digits assms show ?thesis
    by (simp add: parse_uint_def digits_value_print_base)
qed

lemma parse_uint_bound: "parse_uint bound s = Some n \<Longrightarrow> n < bound"
  by (auto simp: parse_uint_def Let_def split: if_splits)

interpretation u16_text: text_codec print_u16 parse_u16
proof
  fix p :: u16
  have "unat p < 2 ^ 16" using unat_lt_2p [of p] by simp
  then show "parse_u16 (print_u16 p) = Some p"
    by (simp add: parse_u16_def print_u16_def parse_uint_print_nat)
qed

lemma print_u16_digits: "list_all (is_digit 10) (print_u16 p)"
  unfolding print_u16_def by (rule print_base_digits) auto

lemma print_u16_nonempty [simp]: "print_u16 p \<noteq> []"
  by (simp add: print_u16_def)

lemma print_u16_no_punct [simp]:
  "CHR '':'' \<notin> set (print_u16 p)" "CHR ''-'' \<notin> set (print_u16 p)" "CHR '','' \<notin> set (print_u16 p)"
proof -
  have "\<not> is_digit 10 (CHR '','')" by (simp add: is_digit_def digit_val_def)
  then show "CHR '':'' \<notin> set (print_u16 p)" "CHR ''-'' \<notin> set (print_u16 p)" "CHR '','' \<notin> set (print_u16 p)"
    using print_u16_digits [of p] by (auto simp: list_all_iff)
qed

lemma trim_print_u16 [simp]: "trim (print_u16 p) = print_u16 p"
  using print_u16_digits [of p]
  by (intro trim_graphic) (auto simp: list_all_iff intro!: is_digit_graphic)

section \<open>Big-endian bytes\<close>

definition nat_to_be :: "nat \<Rightarrow> nat \<Rightarrow> u8 list" where
  "nat_to_be n k = map of_nat (to_digits 256 n k)"

definition nat_of_be :: "u8 list \<Rightarrow> nat" where
  "nat_of_be bs = of_digits 256 (map unat bs)"

definition to_be_bytes_u16 :: "u16 \<Rightarrow> u8 list" where
  "to_be_bytes_u16 w = nat_to_be 2 (unat w)"

definition from_be_bytes_u16 :: "u8 list \<Rightarrow> u16" where
  "from_be_bytes_u16 bs = of_nat (nat_of_be bs)"

definition to_be_bytes_u32 :: "u32 \<Rightarrow> u8 list" where
  "to_be_bytes_u32 w = nat_to_be 4 (unat w)"

definition from_be_bytes_u32 :: "u8 list \<Rightarrow> u32" where
  "from_be_bytes_u32 bs = of_nat (nat_of_be bs)"

definition to_be_bytes_u64 :: "u64 \<Rightarrow> u8 list" where
  "to_be_bytes_u64 w = nat_to_be 8 (unat w)"

definition from_be_bytes_u64 :: "u8 list \<Rightarrow> u64" where
  "from_be_bytes_u64 bs = of_nat (nat_of_be bs)"

lemma length_nat_to_be [simp]: "length (nat_to_be n k) = n"
  by (simp add: nat_to_be_def)

lemma nat_of_be_nat_to_be: "nat_of_be (nat_to_be n k) = k mod 256 ^ n"
proof -
  have "map unat (nat_to_be n k) = to_digits 256 n k"
    by (auto simp: nat_to_be_def unat_of_nat dest!: to_digits_bound [rotated] intro!: map_idI)
  then show ?thesis by (simp add: nat_of_be_def of_digits_to_digits)
qed

lemma nat_to_be_nat_of_be: "nat_to_be (length bs) (nat_of_be bs) = bs"
proof -
  have "\<forall>d \<in> set (map unat bs). d < 256"
    using unat_lt_2p [where 'a = 8] by auto
  then have "to_digits 256 (length bs) (of_digits 256 (map unat bs)) = map unat bs"
    using to_digits_of_digits [of "map unat bs" 256] by simp
  then show ?thesis by (simp add: nat_to_be_def nat_of_be_def comp_def)
qed

lemma nat_of_be_bound: "nat_of_be bs < 256 ^ length bs"
  using of_digits_bound [of "map unat bs" 256] unat_lt_2p [where 'a = 8]
  by (auto simp: nat_of_be_def)

text \<open>
  A fixed-width field: \<open>n\<close> bytes that encode and decode without loss in both directions. Clients
  put fields one after another and read them back by position.
\<close>

locale be_field =
  fixes n :: nat and enc :: "'a \<Rightarrow> u8 list" and dec :: "u8 list \<Rightarrow> 'a"
  assumes enc_length: "length (enc x) = n"
    and dec_enc: "dec (enc x) = x"
    and enc_dec: "length bs = n \<Longrightarrow> enc (dec bs) = bs"
begin

lemma take_field: "take n (enc x @ rest) = enc x"
  by (simp add: enc_length)

lemma drop_field: "drop n (enc x @ rest) = rest"
  by (simp add: enc_length)

lemma read_field: "dec (take n (enc x @ rest)) = x"
  by (simp only: take_field dec_enc)

lemma field_split: "n \<le> length bs \<Longrightarrow> bs = enc (dec (take n bs)) @ drop n bs"
  by (simp add: enc_dec)

lemma enc_inject: "enc x = enc y \<longleftrightarrow> x = y"
  by (metis dec_enc)

end

interpretation be16: be_field 2 to_be_bytes_u16 from_be_bytes_u16
proof
  show "length (to_be_bytes_u16 x) = 2" for x by (simp add: to_be_bytes_u16_def)
  show "from_be_bytes_u16 (to_be_bytes_u16 x) = x" for x
    using unat_lt_2p [of x] by (simp add: from_be_bytes_u16_def to_be_bytes_u16_def nat_of_be_nat_to_be)
  show "to_be_bytes_u16 (from_be_bytes_u16 bs) = bs" if "length bs = 2" for bs
    using nat_of_be_bound [of bs] nat_to_be_nat_of_be [of bs] that
    by (simp add: from_be_bytes_u16_def to_be_bytes_u16_def unat_of_nat)
qed

interpretation be32: be_field 4 to_be_bytes_u32 from_be_bytes_u32
proof
  show "length (to_be_bytes_u32 x) = 4" for x by (simp add: to_be_bytes_u32_def)
  show "from_be_bytes_u32 (to_be_bytes_u32 x) = x" for x
    using unat_lt_2p [of x] by (simp add: from_be_bytes_u32_def to_be_bytes_u32_def nat_of_be_nat_to_be)
  show "to_be_bytes_u32 (from_be_bytes_u32 bs) = bs" if "length bs = 4" for bs
    using nat_of_be_bound [of bs] nat_to_be_nat_of_be [of bs] that
    by (simp add: from_be_bytes_u32_def to_be_bytes_u32_def unat_of_nat)
qed

interpretation be64: be_field 8 to_be_bytes_u64 from_be_bytes_u64
proof
  show "length (to_be_bytes_u64 x) = 8" for x by (simp add: to_be_bytes_u64_def)
  show "from_be_bytes_u64 (to_be_bytes_u64 x) = x" for x
    using unat_lt_2p [of x] by (simp add: from_be_bytes_u64_def to_be_bytes_u64_def nat_of_be_nat_to_be)
  show "to_be_bytes_u64 (from_be_bytes_u64 bs) = bs" if "length bs = 8" for bs
    using nat_of_be_bound [of bs] nat_to_be_nat_of_be [of bs] that
    by (simp add: from_be_bytes_u64_def to_be_bytes_u64_def unat_of_nat)
qed

lemmas be_lengths [codec_simps] = be16.enc_length be32.enc_length be64.enc_length
lemmas be_decodes [codec_simps] = be16.dec_enc be32.dec_enc be64.dec_enc

section \<open>Bit lengths\<close>

fun bit_length :: "nat \<Rightarrow> nat" where
  "bit_length n = (if n = 0 then 0 else Suc (bit_length (n div 2)))"

declare bit_length.simps [simp del]

lemma bit_length_bound: "n < 2 ^ k \<Longrightarrow> bit_length n \<le> k"
proof (induction k arbitrary: n)
  case 0
  then show ?case by (simp add: bit_length.simps)
next
  case (Suc k)
  then have "bit_length (n div 2) \<le> k" by (simp add: less_mult_imp_div_less mult.commute)
  then show ?case by (subst bit_length.simps) simp
qed

lemma bit_length_less: "n < 2 ^ bit_length n"
proof (induction n rule: bit_length.induct)
  case (1 n)
  show ?case
  proof (cases "n = 0")
    case False
    with 1 have "n div 2 < 2 ^ bit_length (n div 2)" by simp
    with False show ?thesis by (subst bit_length.simps) simp
  qed simp
qed

lemma bit_length_le: "0 < n \<Longrightarrow> 2 ^ (bit_length n - 1) \<le> n"
proof (induction n rule: bit_length.induct)
  case (1 n)
  show ?case
  proof (cases "n div 2 = 0")
    case True
    with \<open>0 < n\<close> have "n = 1" by simp
    then show ?thesis by (simp add: bit_length.simps)
  next
    case False
    with 1 have "2 ^ (bit_length (n div 2) - 1) \<le> n div 2" by simp
    moreover have "bit_length (n div 2) = Suc (bit_length (n div 2) - 1)"
      using False by (subst (1 2) bit_length.simps) simp
    ultimately have "2 ^ bit_length (n div 2) \<le> n"
      by (metis (no_types, lifting) div_le_mono less_eq_div_iff_mult_less_eq mult.commute power_Suc zero_less_numeral)
    with 1 show ?thesis by (subst bit_length.simps) simp
  qed
qed

end
