(* ===== verification/Rust_Net.thy ===== *)
theory Rust_Net
  imports Rust_Num
begin

text \<open>
  \<^verbatim>\<open>std::net\<close>: addresses, their textual form and the standard library's address parser. The parser
  is a recursive-descent one over the remaining input; a failed reader leaves the input where it
  was, which here is the \<^const>\<open>None\<close> of an option. The main result is that each \<^verbatim>\<open>FromStr\<close> undoes its
  \<^verbatim>\<open>Display\<close>, so the text of an address identifies it.
\<close>

section \<open>Addresses\<close>

datatype ip_addr = V4 "32 word" | V6 "128 word"

text \<open>The flow label of an IPv6 socket address is neither printed nor read by the program.\<close>

datatype socket_addr = SockV4 "32 word" u16 | SockV6 "128 word" u16 (scope_id: u32)

fun socket_addr_new :: "ip_addr \<Rightarrow> u16 \<Rightarrow> socket_addr" where
  "socket_addr_new (V4 a) p = SockV4 a p"
| "socket_addr_new (V6 a) p = SockV6 a p 0"

fun sa_ip :: "socket_addr \<Rightarrow> ip_addr" where
  "sa_ip (SockV4 a _) = V4 a"
| "sa_ip (SockV6 a _ _) = V6 a"

fun sa_port :: "socket_addr \<Rightarrow> u16" where
  "sa_port (SockV4 _ p) = p"
| "sa_port (SockV6 _ p _) = p"

lemma sa_ip_new [simp]: "sa_ip (socket_addr_new ip p) = ip"
  by (cases ip) auto

lemma sa_port_new [simp]: "sa_port (socket_addr_new ip p) = p"
  by (cases ip) auto

lemma socket_addr_new_inject [simp]:
  "socket_addr_new ip p = socket_addr_new ip' p' \<longleftrightarrow> ip = ip' \<and> p = p'"
  by (cases ip; cases ip') auto

definition octets :: "32 word \<Rightarrow> nat list" where
  "octets a = to_digits 256 4 (unat a)"

definition of_octets :: "nat list \<Rightarrow> 32 word" where
  "of_octets os = of_nat (of_digits 256 os)"

definition segments :: "128 word \<Rightarrow> nat list" where
  "segments a = to_digits 65536 8 (unat a)"

definition of_segments :: "nat list \<Rightarrow> 128 word" where
  "of_segments gs = of_nat (of_digits 65536 gs)"

lemma length_octets [simp]: "length (octets a) = 4"
  by (simp add: octets_def)

lemma length_segments [simp]: "length (segments a) = 8"
  by (simp add: segments_def)

lemma octets_bound: "d \<in> set (octets a) \<Longrightarrow> d < 256"
  by (auto simp: octets_def dest: to_digits_bound [rotated])

lemma segments_bound: "d \<in> set (segments a) \<Longrightarrow> d < 65536"
  by (auto simp: segments_def dest: to_digits_bound [rotated])

lemma of_octets_octets [simp]: "of_octets (octets a) = a"
  using unat_lt_2p [of a] by (simp add: of_octets_def octets_def of_digits_to_digits)

lemma of_segments_segments [simp]: "of_segments (segments a) = a"
  using unat_lt_2p [of a] by (simp add: of_segments_def segments_def of_digits_to_digits)

section \<open>Display\<close>

text \<open>The items separated by a character.\<close>

fun join :: "char \<Rightarrow> str list \<Rightarrow> str" where
  "join c [] = []"
| "join c (x # xs) = x @ concat (map (\<lambda>y. c # y) xs)"

definition print_v4 :: "32 word \<Rightarrow> str" where
  "print_v4 a = join CHR ''.'' (map print_nat (octets a))"

text \<open>\<^verbatim>\<open>Ipv6Addr::to_ipv4_mapped\<close>: the low half of \<^verbatim>\<open>::ffff:0:0/96\<close>.\<close>

definition to_ipv4_mapped :: "128 word \<Rightarrow> (32 word) option" where
  "to_ipv4_mapped a =
     (if take 6 (segments a) = [0, 0, 0, 0, 0, 0xffff]
      then Some (of_nat (of_digits 65536 (drop 6 (segments a)))) else None)"

text \<open>The longest run of zero segments, the first of equals: (start, length).\<close>

fun zero_span :: "nat \<Rightarrow> nat \<times> nat \<Rightarrow> nat \<times> nat \<Rightarrow> nat list \<Rightarrow> nat \<times> nat" where
  "zero_span i longest current [] = longest"
| "zero_span i longest current (g # gs) =
     (if g = 0 then
        (let start = (if snd current = 0 then i else fst current); current' = (start, snd current + 1) in
         zero_span (i + 1) (if snd current' > snd longest then current' else longest) current' gs)
      else zero_span (i + 1) longest (0, 0) gs)"

definition fmt_subslice :: "nat list \<Rightarrow> str" where
  "fmt_subslice gs = join CHR '':'' (map (print_base 16) gs)"

definition print_v6 :: "128 word \<Rightarrow> str" where
  "print_v6 a =
     (case to_ipv4_mapped a of
        Some v4 \<Rightarrow> ''::ffff:'' @ print_v4 v4
      | None \<Rightarrow>
          (let gs = segments a; (start, len) = zero_span 0 (0, 0) (0, 0) gs in
           if len > 1
           then fmt_subslice (take start gs) @ ''::'' @ fmt_subslice (drop (start + len) gs)
           else fmt_subslice gs))"

fun print_ip :: "ip_addr \<Rightarrow> str" where
  "print_ip (V4 a) = print_v4 a"
| "print_ip (V6 a) = print_v6 a"

fun print_sa :: "socket_addr \<Rightarrow> str" where
  "print_sa (SockV4 a p) = print_v4 a @ '':'' @ print_u16 p"
| "print_sa (SockV6 a p scope) =
     ''['' @ print_v6 a @ (if scope = 0 then [] else ''%'' @ print_nat (unat scope)) @ '']:'' @ print_u16 p"

section \<open>The address parser\<close>

type_synonym 'a reader = "str \<Rightarrow> ('a \<times> str) option"

definition read_char :: "char \<Rightarrow> unit reader" where
  "read_char c s = (case s of [] \<Rightarrow> None | x # r \<Rightarrow> if x = c then Some ((), r) else None)"

text \<open>
  \<^verbatim>\<open>read_number\<close>: the longest run of digits, refused when empty, longer than \<open>max_digits\<close>, out of
  range, or (where leading zeros are refused) longer than one digit with a leading zero.
\<close>

definition read_number :: "nat \<Rightarrow> nat option \<Rightarrow> bool \<Rightarrow> nat \<Rightarrow> nat reader" where
  "read_number radix max_digits allow_zero_prefix bound s =
     (let ds = takeWhile (is_digit radix) s in
      if ds = [] \<or> (\<exists>m \<in> set_option max_digits. m < length ds)
         \<or> (\<not> allow_zero_prefix \<and> hd ds = CHR ''0'' \<and> 1 < length ds)
         \<or> bound \<le> digits_value radix ds
      then None else Some (digits_value radix ds, dropWhile (is_digit radix) s))"

definition read_separator :: "char \<Rightarrow> bool \<Rightarrow> 'a reader \<Rightarrow> 'a reader" where
  "read_separator c first inner s =
     (if first then inner s else Option.bind (read_char c s) (\<lambda>(_, r). inner r))"

abbreviation read_octet :: "nat reader" where
  "read_octet \<equiv> read_number 10 (Some 3) False 256"

abbreviation read_group :: "nat reader" where
  "read_group \<equiv> read_number 16 (Some 4) True 65536"

fun read_octets :: "nat \<Rightarrow> bool \<Rightarrow> nat list reader" where
  "read_octets 0 first s = Some ([], s)"
| "read_octets (Suc k) first s =
     Option.bind (read_separator CHR ''.'' first read_octet s) (\<lambda>(d, r).
     Option.bind (read_octets k False r) (\<lambda>(ds, r'). Some (d # ds, r')))"

definition read_ipv4_addr :: "(32 word) reader" where
  "read_ipv4_addr s = map_option (\<lambda>(ds, r). (of_octets ds, r)) (read_octets 4 True s)"

text \<open>
  \<^verbatim>\<open>read_groups\<close> with \<open>k\<close> slots left: an embedded IPv4 address may fill the last two slots or any
  two before them, and ends the run.
\<close>

fun read_groups :: "nat \<Rightarrow> bool \<Rightarrow> str \<Rightarrow> nat list \<times> bool \<times> str" where
  "read_groups 0 first s = ([], False, s)"
| "read_groups (Suc k) first s =
     (case (if 0 < k then read_separator CHR '':'' first read_ipv4_addr s else None) of
        Some (v4, r) \<Rightarrow> ([unat v4 div 65536, unat v4 mod 65536], True, r)
      | None \<Rightarrow>
          (case read_separator CHR '':'' first read_group s of
             None \<Rightarrow> ([], False, s)
           | Some (g, r) \<Rightarrow> (let (gs, v4, r') = read_groups k False r in (g # gs, v4, r'))))"

definition read_ipv6_addr :: "(128 word) reader" where
  "read_ipv6_addr s =
     (let (head, head_ipv4, r) = read_groups 8 True s in
      if length head = 8 then Some (of_segments head, r)
      else if head_ipv4 then None
      else
        Option.bind (read_char CHR '':'' r) (\<lambda>(_, r1).
        Option.bind (read_char CHR '':'' r1) (\<lambda>(_, r2).
        (let (tail, _, r3) = read_groups (8 - (length head + 1)) True r2 in
         Some (of_segments (head @ replicate (8 - length head - length tail) 0 @ tail), r3)))))"

definition read_port :: "u16 reader" where
  "read_port s =
     Option.bind (read_char CHR '':'' s) (\<lambda>(_, r).
     map_option (\<lambda>(n, r'). (of_nat n, r')) (read_number 10 None True 65536 r))"

definition read_scope_id :: "u32 reader" where
  "read_scope_id s =
     Option.bind (read_char CHR ''%'' s) (\<lambda>(_, r).
     map_option (\<lambda>(n, r'). (of_nat n, r')) (read_number 10 None True (2 ^ 32) r))"

definition read_socket_addr_v4 :: "socket_addr reader" where
  "read_socket_addr_v4 s =
     Option.bind (read_ipv4_addr s) (\<lambda>(a, r).
     Option.bind (read_port r) (\<lambda>(p, r'). Some (SockV4 a p, r')))"

definition read_socket_addr_v6 :: "socket_addr reader" where
  "read_socket_addr_v6 s =
     Option.bind (read_char CHR ''['' s) (\<lambda>(_, r).
     Option.bind (read_ipv6_addr r) (\<lambda>(a, r1).
     (let (scope, r2) = (case read_scope_id r1 of Some x \<Rightarrow> x | None \<Rightarrow> (0, r1)) in
      Option.bind (read_char CHR '']'' r2) (\<lambda>(_, r3).
      Option.bind (read_port r3) (\<lambda>(p, r4). Some (SockV6 a p scope, r4))))))"

text \<open>\<^verbatim>\<open>parse_with\<close>: the reader has to use up the whole input.\<close>

definition parse_with :: "'a reader \<Rightarrow> str \<Rightarrow> 'a option" where
  "parse_with rd s = (case rd s of Some (x, []) \<Rightarrow> Some x | _ \<Rightarrow> None)"

definition read_ip_addr :: "ip_addr reader" where
  "read_ip_addr s =
     (case read_ipv4_addr s of
        Some (a, r) \<Rightarrow> Some (V4 a, r)
      | None \<Rightarrow> map_option (\<lambda>(a, r). (V6 a, r)) (read_ipv6_addr s))"

definition read_socket_addr :: "socket_addr reader" where
  "read_socket_addr s =
     (case read_socket_addr_v4 s of Some x \<Rightarrow> Some x | None \<Rightarrow> read_socket_addr_v6 s)"

definition parse_ip :: "str \<Rightarrow> ip_addr option" where
  "parse_ip s = parse_with read_ip_addr s"

definition parse_sa :: "str \<Rightarrow> socket_addr option" where
  "parse_sa s = parse_with read_socket_addr s"


section \<open>Reading back what was printed\<close>

text \<open>Input that does not continue a number.\<close>

definition stops :: "nat \<Rightarrow> str \<Rightarrow> bool" where
  "stops b s \<longleftrightarrow> (case s of [] \<Rightarrow> True | c # _ \<Rightarrow> \<not> is_digit b c)"

lemma stops_simps [simp]: "stops b []" "stops b (c # s) \<longleftrightarrow> \<not> is_digit b c"
  by (simp_all add: stops_def)

lemma takeWhile_number:
  "list_all (is_digit b) ds \<Longrightarrow> stops b r \<Longrightarrow> takeWhile (is_digit b) (ds @ r) = ds"
  by (induction ds) (auto simp: stops_def split: list.splits)

lemma dropWhile_number:
  "list_all (is_digit b) ds \<Longrightarrow> stops b r \<Longrightarrow> dropWhile (is_digit b) (ds @ r) = r"
  by (induction ds) (auto simp: stops_def split: list.splits)

lemma read_number_print:
  assumes b: "2 \<le> b" "b \<le> 16" and n: "n < bound" and stop: "stops b r"
    and len: "\<forall>m \<in> set_option max_digits. length (print_base b n) \<le> m"
  shows "read_number b max_digits azp bound (print_base b n @ r) = Some (n, r)"
proof -
  have ds: "takeWhile (is_digit b) (print_base b n @ r) = print_base b n"
    using b stop by (intro takeWhile_number print_base_digits)
  have rest: "dropWhile (is_digit b) (print_base b n @ r) = r"
    using b stop by (intro dropWhile_number print_base_digits)
  have "hd (print_base b n) = CHR ''0'' \<Longrightarrow> \<not> 1 < length (print_base b n)"
    using print_base_hd [OF b, of n] by simp
  then show ?thesis
    using len n b unfolding read_number_def ds rest Let_def
    by (auto simp: digits_value_print_base not_less)
qed

lemma read_octet_print [simp]:
  assumes "d < 256" and "stops 10 r"
  shows "read_octet (print_nat d @ r) = Some (d, r)"
proof -
  have "length (print_nat d) \<le> Suc 2" using assms(1) by (intro print_base_length) auto
  with assms show ?thesis by (intro read_number_print) auto
qed

lemma read_group_print [simp]:
  assumes "g < 65536" and "stops 16 r"
  shows "read_group (print_base 16 g @ r) = Some (g, r)"
proof -
  have "length (print_base 16 g) \<le> Suc 3" using assms(1) by (intro print_base_length) auto
  with assms show ?thesis by (intro read_number_print) auto
qed

lemma read_octets_print:
  assumes "\<forall>d \<in> set ds. d < 256" and "stops 10 r"
  shows "read_octets (length ds) False (concat (map (\<lambda>d. CHR ''.'' # print_nat d) ds) @ r) = Some (ds, r)"
  using assms(1)
proof (induction ds)
  case (Cons d ds)
  have "stops 10 (concat (map (\<lambda>d. CHR ''.'' # print_nat d) ds) @ r)"
    using assms(2) by (cases ds) auto
  with Cons show ?case by (simp add: read_separator_def read_char_def)
qed simp

lemma read_octets_4:
  "read_octets 4 first s =
     Option.bind (read_separator CHR ''.'' first read_octet s) (\<lambda>(d, r).
     Option.bind (read_octets 3 False r) (\<lambda>(ds, r'). Some (d # ds, r')))"
  using read_octets.simps(2) [of 3 first s] by simp

lemma read_octets_3_dot: "r = [] \<or> hd r \<noteq> CHR ''.'' \<Longrightarrow> read_octets 3 False r = None"
  using read_octets.simps(2) [of 2 False r]
  by (cases r) (auto simp: read_separator_def read_char_def)

lemma read_ipv4_print:
  assumes "stops 10 r"
  shows "read_ipv4_addr (print_v4 a @ r) = Some (a, r)"
proof -
  obtain d ds where oct: "octets a = d # ds" "length ds = 3"
    using length_octets [of a] by (cases "octets a") auto
  have bound: "\<forall>d \<in> set (d # ds). d < 256"
    using octets_bound [of _ a] by (auto simp: oct)
  have "print_v4 a @ r = print_nat d @ concat (map (\<lambda>d. CHR ''.'' # print_nat d) ds) @ r"
    by (simp add: print_v4_def oct comp_def)
  moreover have "stops 10 (concat (map (\<lambda>d. CHR ''.'' # print_nat d) ds) @ r)"
    using assms by (cases ds) auto
  moreover have "read_octets 3 False (concat (map (\<lambda>d. CHR ''.'' # print_nat d) ds) @ r) = Some (ds, r)"
    using read_octets_print [of ds r] bound assms oct by simp
  ultimately have "read_octets 4 True (print_v4 a @ r) = Some (octets a, r)"
    using bound oct by (simp add: read_octets_4 read_separator_def)
  then show ?thesis by (simp add: read_ipv4_addr_def)
qed

text \<open>An IPv4 address needs a dot after its first number.\<close>

definition dotless :: "str \<Rightarrow> bool" where
  "dotless s \<longleftrightarrow> (case dropWhile (is_digit 10) s of [] \<Rightarrow> True | c # _ \<Rightarrow> c \<noteq> CHR ''.'')"

lemma read_ipv4_dotless: "dotless s \<Longrightarrow> read_ipv4_addr s = None"
  by (auto simp: dotless_def read_ipv4_addr_def read_separator_def read_number_def
      Let_def read_octets_4 read_octets_3_dot split: list.splits)

lemma dotless_digits:
  assumes "list_all (is_digit 16) ds" and "stops 16 r" and "r = [] \<or> hd r \<noteq> CHR ''.''"
  shows "dotless (ds @ r)"
  using assms(1)
proof (induction ds)
  case Nil
  show ?case
  proof (cases r)
    case (Cons c r')
    with assms(2,3) show ?thesis
      using is_digit_10_16 [of c] by (auto simp: dotless_def)
  qed (simp add: dotless_def)
next
  case (Cons c ds)
  show ?case
  proof (cases "is_digit 10 c")
    case True
    with Cons show ?thesis by (simp add: dotless_def)
  next
    case False
    moreover have "c \<noteq> CHR ''.''" using Cons.prems by auto
    ultimately show ?thesis by (simp add: dotless_def)
  qed
qed

lemma dotless_group:
  "stops 16 r \<Longrightarrow> r = [] \<or> hd r \<noteq> CHR ''.'' \<Longrightarrow> dotless (print_base 16 g @ r)"
  by (rule dotless_digits) (auto intro: print_base_digits)

text \<open>The groups after the first, and the input where a run of groups ends.\<close>

abbreviation colon_groups :: "nat list \<Rightarrow> str" where
  "colon_groups gs \<equiv> concat (map (\<lambda>g. CHR '':'' # print_base 16 g) gs)"

definition addr_end :: "str \<Rightarrow> bool" where
  "addr_end r \<longleftrightarrow> r = [] \<or> hd r = CHR '']'' \<or> hd r = CHR ''%''"

definition group_end :: "str \<Rightarrow> bool" where
  "group_end r \<longleftrightarrow> addr_end r \<or> (\<exists>r'. r = CHR '':'' # CHR '':'' # r')"

lemma group_end_stops: "group_end r \<Longrightarrow> stops 16 r \<and> (r = [] \<or> hd r \<noteq> CHR ''.'')"
  by (cases r) (auto simp: group_end_def addr_end_def)

lemma colon_groups_stops:
  "group_end r \<Longrightarrow> stops 16 (colon_groups gs @ r) \<and>
    (colon_groups gs @ r = [] \<or> hd (colon_groups gs @ r) \<noteq> CHR ''.'')"
  by (cases gs) (auto dest: group_end_stops)

lemma read_groups_end:
  assumes "group_end r"
  shows "read_groups k False r = ([], False, r)"
proof (cases k)
  case (Suc j)
  from assms have "read_separator CHR '':'' False read_ipv4_addr r = None"
    by (auto simp: group_end_def addr_end_def read_separator_def read_char_def dotless_def read_ipv4_dotless
        split: list.splits)
  moreover from assms have "read_separator CHR '':'' False read_group r = None"
    by (auto simp: group_end_def addr_end_def read_separator_def read_char_def read_number_def split: list.splits)
  ultimately show ?thesis using Suc by simp
qed simp

lemma read_groups_print:
  assumes "\<forall>g \<in> set gs. g < 65536" and "length gs \<le> k" and "group_end r"
  shows "read_groups k False (colon_groups gs @ r) = (gs, False, r)"
  using assms(1,2)
proof (induction gs arbitrary: k)
  case Nil
  then show ?case using read_groups_end [OF assms(3)] by simp
next
  case (Cons g gs)
  then obtain j where k: "k = Suc j" by (cases k) auto
  let ?r = "colon_groups gs @ r"
  from colon_groups_stops [OF assms(3), of gs] have stop: "stops 16 ?r" "?r = [] \<or> hd ?r \<noteq> CHR ''.''"
    by blast+
  then have "read_ipv4_addr (print_base 16 g @ ?r) = None"
    by (intro read_ipv4_dotless dotless_group)
  with Cons stop show ?case
    by (auto simp add: k read_separator_def read_char_def)
qed

lemma read_groups_first:
  assumes "\<forall>g \<in> set gs. g < 65536" and "length gs \<le> k" and "group_end r"
  shows "read_groups k True (fmt_subslice gs @ r) = (gs, False, r)"
proof (cases gs)
  case Nil
  show ?thesis
  proof (cases k)
    case (Suc j)
    from assms(3) have "read_ipv4_addr r = None"
      by (intro read_ipv4_dotless, cases r) (auto simp: group_end_def addr_end_def dotless_def)
    moreover from assms(3) have "read_group r = None"
      by (auto simp: group_end_def addr_end_def read_number_def takeWhile_eq_Nil_iff neq_Nil_conv)
    ultimately show ?thesis using Nil Suc by (simp add: fmt_subslice_def read_separator_def)
  qed (simp add: Nil fmt_subslice_def)
next
  case (Cons g gs')
  with assms(2) obtain j where k: "k = Suc j" by (cases k) auto
  let ?r = "colon_groups gs' @ r"
  have printed: "fmt_subslice gs @ r = print_base 16 g @ ?r"
    by (simp add: Cons fmt_subslice_def comp_def)
  from colon_groups_stops [OF assms(3), of gs'] have stop: "stops 16 ?r" "?r = [] \<or> hd ?r \<noteq> CHR ''.''"
    by blast+
  then have "read_ipv4_addr (print_base 16 g @ ?r) = None"
    by (intro read_ipv4_dotless dotless_group)
  moreover have "read_groups j False ?r = (gs', False, r)"
    using assms Cons k by (intro read_groups_print) auto
  ultimately show ?thesis
    using assms(1) stop unfolding printed k by (auto simp add: Cons read_separator_def)
qed

text \<open>The two shapes of a printed IPv6 address.\<close>

lemma read_ipv6_full:
  assumes "\<forall>g \<in> set gs. g < 65536" and "length gs = 8" and "group_end r"
  shows "read_ipv6_addr (fmt_subslice gs @ r) = Some (of_segments gs, r)"
  using read_groups_first [of gs 8 r] assms by (simp add: read_ipv6_addr_def)

lemma read_ipv6_compressed:
  assumes "\<forall>g \<in> set (hs @ ts). g < 65536" and "length hs + length ts \<le> 7"
    and "group_end r" "addr_end r"
  shows "read_ipv6_addr (fmt_subslice hs @ ''::'' @ fmt_subslice ts @ r) =
    Some (of_segments (hs @ replicate (8 - length hs - length ts) 0 @ ts), r)"
proof -
  have "group_end (''::'' @ fmt_subslice ts @ r)" by (simp add: group_end_def addr_end_def)
  then have "read_groups 8 True (fmt_subslice hs @ ''::'' @ fmt_subslice ts @ r) =
      (hs, False, ''::'' @ fmt_subslice ts @ r)"
    using assms(1,2) by (intro read_groups_first) auto
  moreover have "read_groups (8 - (length hs + 1)) True (fmt_subslice ts @ r) = (ts, False, r)"
    using assms by (intro read_groups_first) auto
  ultimately show ?thesis
    using assms(2) by (simp add: read_ipv6_addr_def read_char_def)
qed


text \<open>The zero span lies inside the segments and holds zeros only.\<close>

lemma zero_span_inv:
  assumes "gs = pre @ post" and "i = length pre"
    and "fst longest + snd longest \<le> i" and "take (snd longest) (drop (fst longest) gs) = replicate (snd longest) 0"
    and "snd current = 0 \<or> fst current + snd current = i"
    and "take (snd current) (drop (fst current) gs) = replicate (snd current) 0"
    and "(s, n) = zero_span i longest current post"
  shows "s + n \<le> length gs \<and> take n (drop s gs) = replicate n 0"
  using assms
proof (induction i longest current post arbitrary: pre rule: zero_span.induct)
  case (1 i longest current)
  then show ?case by (cases longest) auto
next
  case (2 i longest current g post)
  show ?case
  proof (cases "g = 0")
    case False
    with 2 show ?thesis by (intro "2.IH"(2) [of "pre @ [g]"]) auto
  next
    case True
    define start where "start = (if snd current = 0 then i else fst current)"
    define cur where "cur = (start, snd current + 1)"
    have end_cur: "fst cur + snd cur = i + 1"
      using "2.prems" by (auto simp: cur_def start_def)
    have "take (snd current) (drop start gs) = replicate (snd current) 0"
      using "2.prems" by (auto simp: start_def)
    moreover have "start + snd current = i" using "2.prems" by (auto simp: start_def)
    moreover have "gs ! i = 0" "i < length gs" using "2.prems" True by (auto simp: nth_append)
    ultimately have zeros: "take (snd cur) (drop (fst cur) gs) = replicate (snd cur) 0"
      by (simp add: cur_def take_Suc_conv_app_nth replicate_append_same)
    let ?longest = "if snd cur > snd longest then cur else longest"
    have "zero_span i longest current (g # post) = zero_span (i + 1) ?longest cur post"
      using True by (simp add: cur_def start_def Let_def)
    with "2.prems" end_cur zeros True show ?thesis
      by (intro "2.IH"(1) [of start cur "pre @ [g]"]) (auto simp: cur_def start_def)
  qed
qed

lemma zero_span_zeros:
  assumes "zero_span 0 (0, 0) (0, 0) gs = (s, n)"
  shows "s + n \<le> length gs" and "gs = take s gs @ replicate n 0 @ drop (s + n) gs"
proof -
  have *: "s + n \<le> length gs \<and> take n (drop s gs) = replicate n 0"
    by (rule zero_span_inv [of gs "[]" gs 0 "(0, 0)" "(0, 0)"]) (auto simp: assms)
  then show "s + n \<le> length gs" by simp
  have "gs = take s gs @ take n (drop s gs) @ drop n (drop s gs)"
    by (simp only: append_take_drop_id)
  with * show "gs = take s gs @ replicate n 0 @ drop (s + n) gs" by (simp add: add.commute)
qed

text \<open>A mapped address is printed as \<^verbatim>\<open>::ffff:\<close> and an IPv4 address, which fills the last two segments.\<close>

lemma length_2_exhaust:
  assumes "length xs = 2"
  obtains x y where "xs = [x, y]"
  using assms by (auto simp: length_Suc_conv numeral_2_eq_2)

lemma to_ipv4_mapped_Some:
  assumes "to_ipv4_mapped a = Some v4"
  shows "segments a = [0, 0, 0, 0, 0, 0xffff, unat v4 div 65536, unat v4 mod 65536]"
proof -
  have low: "take 6 (segments a) = [0, 0, 0, 0, 0, 0xffff]"
    and v4: "v4 = of_nat (of_digits 65536 (drop 6 (segments a)))"
    using assms by (auto simp: to_ipv4_mapped_def split: if_splits)
  obtain h l where hl: "drop 6 (segments a) = [h, l]"
    by (rule length_2_exhaust [of "drop 6 (segments a)"]) simp_all
  then have "{h, l} \<subseteq> set (segments a)" using set_drop_subset [of 6 "segments a"] by simp
  then have "h < 65536" "l < 65536" by (auto intro: segments_bound)
  moreover from this have "unat v4 = h * 65536 + l"
    unfolding v4 hl by (subst unat_of_nat) (simp add: of_digits_def)
  moreover have "segments a = [0, 0, 0, 0, 0, 0xffff, h, l]"
    using append_take_drop_id [of 6 "segments a"] low hl by simp
  ultimately show ?thesis by simp
qed

lemma read_groups_Suc_group:
  assumes "g < 65536" and "stops 16 r" and "r = [] \<or> hd r \<noteq> CHR ''.''" and "k = Suc j"
  shows "read_groups k True (print_base 16 g @ r) =
    (let (gs, v4, r') = read_groups j False r in (g # gs, v4, r'))"
  using read_ipv4_dotless [OF dotless_group [OF assms(2,3), of g]] assms
  by (auto simp: read_separator_def)

lemma read_groups_ipv4:
  assumes "stops 10 r" and "k = Suc (Suc j)"
  shows "read_groups k False (CHR '':'' # print_v4 v4 @ r) =
    ([unat v4 div 65536, unat v4 mod 65536], True, r)"
  using assms by (simp add: read_separator_def read_char_def read_ipv4_print)

lemma read_ipv6_mapped:
  assumes "to_ipv4_mapped a = Some v4" and "addr_end r"
  shows "read_ipv6_addr (print_v6 a @ r) = Some (a, r)"
proof -
  have ffff: "''ffff'' = print_base 16 0xffff" by code_simp
  have five: "replicate 5 (0 :: nat) = [0, 0, 0, 0, 0]" by code_simp
  let ?r = "CHR '':'' # print_v4 v4 @ r"
  have printed: "print_v6 a @ r = fmt_subslice [] @ ''::'' @ print_base 16 0xffff @ ?r"
    using assms(1) by (simp add: print_v6_def fmt_subslice_def flip: ffff)
  have "stops 10 r" using assms(2) by (cases r) (auto simp: addr_end_def)
  then have "read_groups 6 False ?r = ([unat v4 div 65536, unat v4 mod 65536], True, r)"
    by (rule read_groups_ipv4 [where j = 4]) simp
  then have tail: "read_groups 7 True (print_base 16 0xffff @ ?r) =
      ([0xffff, unat v4 div 65536, unat v4 mod 65536], True, r)"
    by (subst read_groups_Suc_group [where j = 6]) auto
  have "read_groups 8 True (fmt_subslice [] @ ''::'' @ print_base 16 0xffff @ ?r) =
      ([], False, ''::'' @ print_base 16 0xffff @ ?r)"
    by (rule read_groups_first) (auto simp: group_end_def addr_end_def)
  with tail have "read_ipv6_addr (print_v6 a @ r) =
      Some (of_segments [0, 0, 0, 0, 0, 0xffff, unat v4 div 65536, unat v4 mod 65536], r)"
    unfolding printed by (simp add: read_ipv6_addr_def read_char_def five)
  then show ?thesis
    using to_ipv4_mapped_Some [OF assms(1)] of_segments_segments [of a] by simp
qed

lemma read_ipv6_print:
  assumes "addr_end r"
  shows "read_ipv6_addr (print_v6 a @ r) = Some (a, r)"
proof (cases "to_ipv4_mapped a")
  case None
  obtain s n where span: "zero_span 0 (0, 0) (0, 0) (segments a) = (s, n)" by fastforce
  have r: "group_end r" using assms by (simp add: group_end_def)
  show ?thesis
  proof (cases "1 < n")
    case True
    let ?hs = "take s (segments a)" and ?ts = "drop (s + n) (segments a)"
    have len: "s + n \<le> 8" using zero_span_zeros(1) [OF span] by simp
    have bound: "\<forall>g \<in> set (?hs @ ?ts). g < 65536"
      by (auto intro: segments_bound dest: in_set_takeD in_set_dropD)
    have "8 - length ?hs - length ?ts = n" using len by simp
    moreover have "length ?hs + length ?ts \<le> 7" using len True by simp
    ultimately have "read_ipv6_addr (fmt_subslice ?hs @ ''::'' @ fmt_subslice ?ts @ r) =
        Some (of_segments (?hs @ replicate n 0 @ ?ts), r)"
      using read_ipv6_compressed [OF bound _ r assms] by simp
    moreover have "print_v6 a @ r = fmt_subslice ?hs @ ''::'' @ fmt_subslice ?ts @ r"
      using None span True by (simp add: print_v6_def Let_def)
    ultimately show ?thesis
      using zero_span_zeros(2) [OF span] of_segments_segments [of a] by simp
  next
    case False
    with None span have "print_v6 a = fmt_subslice (segments a)" by (simp add: print_v6_def)
    then show ?thesis
      using read_ipv6_full [of "segments a" r] r by (simp add: segments_bound)
  qed
next
  case (Some v4)
  then show ?thesis using assms by (rule read_ipv6_mapped)
qed


section \<open>Every printed address parses back\<close>

text \<open>An IPv6 text never starts with an IPv4 address.\<close>

lemma dotless_print_v6: "dotless (print_v6 a @ r)"
proof (cases "to_ipv4_mapped a")
  case (Some v4)
  then show ?thesis by (simp add: print_v6_def dotless_def)
next
  case None
  have group: "dotless (fmt_subslice gs @ r')" if "r' = CHR '':'' # r'' \<or> length gs = 8" for gs r' r''
  proof (cases gs)
    case Nil
    with that show ?thesis by (auto simp: fmt_subslice_def dotless_def)
  next
    case (Cons g gs')
    then have "fmt_subslice gs @ r' = print_base 16 g @ colon_groups gs' @ r'"
      by (simp add: fmt_subslice_def comp_def)
    moreover have "\<exists>u. colon_groups gs' @ r' = CHR '':'' # u" using that Cons by (cases gs') auto
    ultimately show ?thesis by (auto intro!: dotless_group)
  qed
  obtain s n where span: "zero_span 0 (0, 0) (0, 0) (segments a) = (s, n)" by fastforce
  show ?thesis
    using None span group [of "CHR '':'' # CHR '':'' # _" "CHR '':'' # _" "take s (segments a)"]
      group [of r r "segments a"]
    by (auto simp: print_v6_def Let_def)
qed

interpretation ip_text: text_codec print_ip parse_ip
proof
  fix ip
  show "parse_ip (print_ip ip) = Some ip"
  proof (cases ip)
    case (V4 a)
    then show ?thesis
      using read_ipv4_print [of "[]" a] by (simp add: parse_ip_def parse_with_def read_ip_addr_def)
  next
    case (V6 a)
    then show ?thesis
      using read_ipv6_print [of "[]" a, unfolded addr_end_def] read_ipv4_dotless [OF dotless_print_v6 [of a "[]"]]
      by (simp add: parse_ip_def parse_with_def read_ip_addr_def)
  qed
qed

lemma read_port_print: "stops 10 r \<Longrightarrow> read_port (CHR '':'' # print_u16 p @ r) = Some (p, r)"
  using unat_lt_2p [of p]
  by (simp add: read_port_def read_char_def print_u16_def read_number_print)

lemma read_scope_print:
  "stops 10 r \<Longrightarrow> read_scope_id (CHR ''%'' # print_nat (unat n) @ r) = Some (n, r)"
  using unat_lt_2p [of n]
  by (simp add: read_scope_id_def read_char_def read_number_print)


lemma print_sa_v6:
  "print_sa (SockV6 a p scope) =
    CHR ''['' # print_v6 a @
      (if scope = 0 then [] else CHR ''%'' # print_nat (unat scope)) @ CHR '']'' # CHR '':'' # print_u16 p"
  by simp

lemma read_socket_v6_print: "read_socket_addr_v6 (print_sa (SockV6 a p scope)) = Some (SockV6 a p scope, [])"
proof -
  let ?port = "CHR '']'' # CHR '':'' # print_u16 p"
  let ?scope = "if scope = 0 then [] else CHR ''%'' # print_nat (unat scope)"
  have "addr_end (?scope @ ?port)" by (simp add: addr_end_def)
  then have ip: "read_ipv6_addr (print_v6 a @ ?scope @ ?port) = Some (a, ?scope @ ?port)"
    by (rule read_ipv6_print)
  have scope: "(case read_scope_id (?scope @ ?port) of Some x \<Rightarrow> x | None \<Rightarrow> (0, ?scope @ ?port)) = (scope, ?port)"
  proof (cases "scope = 0")
    case True
    then show ?thesis by (simp add: read_scope_id_def read_char_def)
  next
    case False
    then show ?thesis using read_scope_print [of ?port scope] by simp
  qed
  have port: "read_port (CHR '':'' # print_u16 p) = Some (p, [])"
    using read_port_print [of "[]" p] by simp
  show ?thesis
    unfolding print_sa_v6 read_socket_addr_v6_def
    by (simp add: read_char_def ip scope port del: append.simps)
qed

lemma read_socket_v4_print: "read_socket_addr_v4 (print_sa (SockV4 a p)) = Some (SockV4 a p, [])"
  using read_ipv4_print [of "CHR '':'' # print_u16 p" a] read_port_print [of "[]" p]
  by (simp add: read_socket_addr_v4_def)

interpretation sa_text: text_codec print_sa parse_sa
proof
  fix sa
  have "read_socket_addr_v4 (CHR ''['' # s) = None" for s
    by (simp add: read_socket_addr_v4_def read_ipv4_dotless dotless_def)
  then have "read_socket_addr_v4 (print_sa (SockV6 a p scope)) = None" for a p scope
    unfolding print_sa_v6 .
  then show "parse_sa (print_sa sa) = Some sa"
    using read_socket_v4_print read_socket_v6_print
    by (cases sa) (simp_all del: print_sa.simps add: parse_sa_def parse_with_def read_socket_addr_def)
qed

end
