(* ===== verification/Policy.thy ===== *)
theory Policy
  imports Rust_Net "HOL-Library.Sublist"
begin

text \<open>
  The policy engine of \<^verbatim>\<open>src/policy.rs\<close>: the configuration, the parsing of its rules, and the checks a
  session makes. Networks are the crate \<^verbatim>\<open>ipnet\<close>'s, of a type the model leaves open; its operations
  and Unicode case folding are the fields of the record argument \<open>net_lib\<close>.
\<close>

section \<open>Configuration\<close>

record network_policy =
  np_deny :: "str list"
  np_allow :: "str list"
  np_bind_ports :: str
  np_max_connections :: usize
  np_max_bandwidth_mbps :: u32
  np_connection_timeout_secs :: u64

record policy_config =
  network :: network_policy

definition default_deny :: "str list" where
  "default_deny = [''10.0.0.0/8'', ''172.16.0.0/12'', ''192.168.0.0/16'', ''127.0.0.0/8'', ''169.254.0.0/16'']"

definition default_allow :: "str list" where
  "default_allow = [''*'']"

definition default_bind_ports :: str where
  "default_bind_ports = ''3000-9999''"

definition default_max_connections :: usize where
  "default_max_connections = 50"

definition default_max_bandwidth_mbps :: u32 where
  "default_max_bandwidth_mbps = 10"

definition default_connection_timeout_secs :: u64 where
  "default_connection_timeout_secs = 30"

definition network_policy_default :: network_policy where
  "network_policy_default =
     \<lparr>np_deny = default_deny, np_allow = default_allow, np_bind_ports = default_bind_ports,
      np_max_connections = default_max_connections, np_max_bandwidth_mbps = default_max_bandwidth_mbps,
      np_connection_timeout_secs = default_connection_timeout_secs\<rparr>"

section \<open>Rules\<close>

record 'net net_lib =
  net_from_str :: "str \<Rightarrow> 'net option"
  net_of_ip :: "ip_addr \<Rightarrow> 'net"
  net_contains :: "'net \<Rightarrow> ip_addr \<Rightarrow> bool"
  net_to_string :: "'net \<Rightarrow> str"
  uni_lower :: "str \<Rightarrow> str"

record 'net net_rule =
  nr_net :: 'net
  nr_port :: "u16 option"

record domain_pattern =
  dp_host :: str
  dp_port :: "u16 option"

record 'net policy =
  deny_nets :: "'net net_rule list"
  deny_all :: bool
  allow_nets :: "'net net_rule list"
  allow_all :: bool
  allow_domains :: "domain_pattern list"
  deny_domains :: "domain_pattern list"
  bind_port_ranges :: "(u16 \<times> u16) list"
  max_connections :: usize
  connection_timeout_secs :: u64

text \<open>\<^verbatim>\<open>port.is_none_or(|p| p == port)\<close>\<close>

definition port_covers :: "u16 option \<Rightarrow> u16 \<Rightarrow> bool" where
  "port_covers rule port = (case rule of None \<Rightarrow> True | Some p \<Rightarrow> p = port)"

definition split_last_colon :: "str \<Rightarrow> str \<times> u16 option" where
  "split_last_colon s =
     (case str_rfind CHR '':'' s of
        None \<Rightarrow> (s, None)
      | Some idx \<Rightarrow>
          if str_contains CHR '':'' (take idx s) then (s, None)
          else (case parse_u16 (drop (idx + 1) s) of
                  Some port \<Rightarrow> (take idx s, Some port)
                | None \<Rightarrow> (s, None)))"

definition split_host_port :: "str \<Rightarrow> str \<times> u16 option" where
  "split_host_port s =
     (case strip_prefix ''['' s of
        None \<Rightarrow> split_last_colon s
      | Some rest \<Rightarrow>
          (case str_find CHR '']'' rest of
             None \<Rightarrow> split_last_colon s
           | Some e \<Rightarrow> (take e rest, Option.bind (strip_prefix '':'' (drop (e + 1) rest)) parse_u16)))"

definition parse_net :: "'net net_lib \<Rightarrow> str \<Rightarrow> 'net option" where
  "parse_net lib s =
     (case net_from_str lib s of
        Some net \<Rightarrow> Some net
      | None \<Rightarrow> map_option (net_of_ip lib) (parse_ip s))"

definition NetRule_parse :: "'net net_lib \<Rightarrow> str \<Rightarrow> 'net net_rule option" where
  "NetRule_parse lib s =
     (case parse_net lib s of
        Some net \<Rightarrow> Some \<lparr>nr_net = net, nr_port = None\<rparr>
      | None \<Rightarrow>
          (let (host, port) = split_host_port s in
           case port of
             None \<Rightarrow> None
           | Some _ \<Rightarrow> map_option (\<lambda>net. \<lparr>nr_net = net, nr_port = port\<rparr>) (parse_net lib host)))"

definition NetRule_matches :: "'net net_lib \<Rightarrow> 'net net_rule \<Rightarrow> ip_addr \<Rightarrow> u16 \<Rightarrow> bool" where
  "NetRule_matches lib rule ip port \<longleftrightarrow>
     net_contains lib (nr_net rule) ip \<and> port_covers (nr_port rule) port"

definition normalize_domain :: "'net net_lib \<Rightarrow> str \<Rightarrow> str" where
  "normalize_domain lib s =
     to_lowercase (uni_lower lib) (case strip_suffix ''.'' s of Some r \<Rightarrow> r | None \<Rightarrow> s)"

definition DomainPattern_parse :: "'net net_lib \<Rightarrow> str \<Rightarrow> domain_pattern option" where
  "DomainPattern_parse lib s =
     (let (host, port) = split_host_port s;
          host = (case strip_prefix ''*.'' host of Some r \<Rightarrow> r | None \<Rightarrow> host);
          host = normalize_domain lib host
      in if host = [] \<or> host = ''*'' then None else Some \<lparr>dp_host = host, dp_port = port\<rparr>)"

definition DomainPattern_matches :: "'net net_lib \<Rightarrow> domain_pattern \<Rightarrow> str \<Rightarrow> u16 \<Rightarrow> bool" where
  "DomainPattern_matches lib dp domain port =
     (if \<not> port_covers (dp_port dp) port then False
      else let d = normalize_domain lib domain in
        d = dp_host dp \<or> ends_with d (''.'' @ dp_host dp))"

text \<open>One comma-separated part of \<^verbatim>\<open>bind_ports\<close>.\<close>

definition parse_port_range :: "str \<Rightarrow> (u16 \<times> u16) option" where
  "parse_port_range part =
     (let part = trim part in
      case str_find CHR ''-'' part of
        Some idx \<Rightarrow>
          Option.bind (parse_u16 (trim (take idx part))) (\<lambda>lo.
          Option.bind (parse_u16 (trim (drop (idx + 1) part))) (\<lambda>hi. Some (lo, hi)))
      | None \<Rightarrow> map_option (\<lambda>p. (p, p)) (parse_u16 part))"

definition parse_port_ranges :: "str \<Rightarrow> (u16 \<times> u16) list" where
  "parse_port_ranges s = List.map_filter parse_port_range (str_split CHR '','' s)"

text \<open>The loop of \<^verbatim>\<open>parse_rules\<close> with its three accumulators.\<close>

fun parse_rules_loop ::
  "'net net_lib \<Rightarrow> str list \<Rightarrow> 'net net_rule list \<Rightarrow> domain_pattern list \<Rightarrow> bool
    \<Rightarrow> 'net net_rule list \<times> domain_pattern list \<times> bool" where
  "parse_rules_loop lib [] nets domains all = (nets, domains, all)"
| "parse_rules_loop lib (entry # entries) nets domains all =
     (let entry = trim entry in
      if entry = ''*'' then parse_rules_loop lib entries nets domains True
      else (case NetRule_parse lib entry of
              Some rule \<Rightarrow> parse_rules_loop lib entries (nets @ [rule]) domains all
            | None \<Rightarrow>
                (case DomainPattern_parse lib entry of
                   Some dp \<Rightarrow> parse_rules_loop lib entries nets (domains @ [dp]) all
                 | None \<Rightarrow> parse_rules_loop lib entries nets domains all)))"

definition parse_rules :: "'net net_lib \<Rightarrow> str list \<Rightarrow> 'net net_rule list \<times> domain_pattern list \<times> bool" where
  "parse_rules lib entries = parse_rules_loop lib entries [] [] False"

section \<open>The policy\<close>

definition Policy_new :: "'net net_lib \<Rightarrow> network_policy \<Rightarrow> 'net policy" where
  "Policy_new lib config =
     (let (d_nets, d_domains, d_all) = parse_rules lib (np_deny config);
          (a_nets, a_domains, a_all) = parse_rules lib (np_allow config)
      in \<lparr>deny_nets = d_nets, deny_all = d_all, allow_nets = a_nets, allow_all = a_all,
          allow_domains = a_domains, deny_domains = d_domains,
          bind_port_ranges = parse_port_ranges (np_bind_ports config),
          max_connections = np_max_connections config,
          connection_timeout_secs = np_connection_timeout_secs config\<rparr>)"

definition Policy_allow_all :: "'net policy" where
  "Policy_allow_all =
     \<lparr>deny_nets = [], deny_all = False, allow_nets = [], allow_all = True, allow_domains = [],
      deny_domains = [], bind_port_ranges = [(1, 65535)], max_connections = - 1,
      connection_timeout_secs = 30\<rparr>"

definition reject :: "'net policy \<Rightarrow> str \<Rightarrow> u16 \<Rightarrow> str" where
  "reject pol addr port =
     (if deny_all pol
      then ''address blocked by policy (deny-all): '' @ addr @ '':'' @ print_u16 port
      else ''address not in allow list: '' @ addr @ '':'' @ print_u16 port)"

definition check_resolved :: "'net net_lib \<Rightarrow> 'net policy \<Rightarrow> ip_addr \<Rightarrow> u16 \<Rightarrow> unit rresult" where
  "check_resolved lib pol ip port =
     (case List.find (\<lambda>rule. NetRule_matches lib rule ip port) (deny_nets pol) of
        Some rule \<Rightarrow> Inl (''private IP range blocked: '' @ net_to_string lib (nr_net rule))
      | None \<Rightarrow> Inr ())"

definition check_ip :: "'net net_lib \<Rightarrow> 'net policy \<Rightarrow> ip_addr \<Rightarrow> u16 \<Rightarrow> unit rresult" where
  "check_ip lib pol ip port =
     (case List.find (\<lambda>rule. NetRule_matches lib rule ip port) (deny_nets pol) of
        Some rule \<Rightarrow> Inl (''private IP range blocked: '' @ net_to_string lib (nr_net rule))
      | None \<Rightarrow>
          if (deny_all pol \<or> \<not> allow_all pol)
             \<and> \<not> list_ex (\<lambda>rule. NetRule_matches lib rule ip port) (allow_nets pol)
          then Inl (reject pol (print_ip ip) port)
          else Inr ())"

definition check_domain :: "'net net_lib \<Rightarrow> 'net policy \<Rightarrow> str \<Rightarrow> u16 \<Rightarrow> unit rresult" where
  "check_domain lib pol addr port =
     (case List.find (\<lambda>dp. DomainPattern_matches lib dp addr port) (deny_domains pol) of
        Some dp \<Rightarrow> Inl (''domain blocked by policy: '' @ addr)
      | None \<Rightarrow>
          if (deny_all pol \<or> \<not> allow_all pol)
             \<and> \<not> list_ex (\<lambda>dp. DomainPattern_matches lib dp addr port) (allow_domains pol)
          then Inl (reject pol addr port)
          else Inr ())"

definition check_connect :: "'net net_lib \<Rightarrow> 'net policy \<Rightarrow> str \<Rightarrow> u16 \<Rightarrow> unit rresult" where
  "check_connect lib pol addr port =
     (case parse_ip addr of
        Some ip \<Rightarrow> check_ip lib pol ip port
      | None \<Rightarrow> check_domain lib pol addr port)"

definition check_bind :: "'net policy \<Rightarrow> u16 \<Rightarrow> unit rresult" where
  "check_bind pol port =
     (case List.find (\<lambda>(lo, hi). lo \<le> port \<and> port \<le> hi) (bind_port_ranges pol) of
        Some _ \<Rightarrow> Inr ()
      | None \<Rightarrow> Inl (''port '' @ print_u16 port @ '' not in allowed bind range''))"


section \<open>A concrete network library\<close>

text \<open>
  CIDR networks as an address and a prefix length, for the witnesses: what \<^verbatim>\<open>ipnet\<close> documents, on the
  model's own addresses.
\<close>

fun ip_width :: "ip_addr \<Rightarrow> nat" where
  "ip_width (V4 _) = 32"
| "ip_width (V6 _) = 128"

fun cidr_contains :: "ip_addr \<times> nat \<Rightarrow> ip_addr \<Rightarrow> bool" where
  "cidr_contains (V4 a, p) (V4 b) \<longleftrightarrow> unat a div 2 ^ (32 - p) = unat b div 2 ^ (32 - p)"
| "cidr_contains (V6 a, p) (V6 b) \<longleftrightarrow> unat a div 2 ^ (128 - p) = unat b div 2 ^ (128 - p)"
| "cidr_contains _ _ \<longleftrightarrow> False"

definition cidr_parse :: "str \<Rightarrow> (ip_addr \<times> nat) option" where
  "cidr_parse s =
     (case str_find CHR ''/'' s of
        None \<Rightarrow> None
      | Some i \<Rightarrow>
          Option.bind (parse_ip (take i s)) (\<lambda>ip.
          map_option (Pair ip) (parse_uint (ip_width ip + 1) (drop (i + 1) s))))"

definition demo_net :: "(ip_addr \<times> nat) net_lib" where
  "demo_net = \<lparr>net_from_str = cidr_parse, net_of_ip = (\<lambda>ip. (ip, ip_width ip)), net_contains = cidr_contains,
     net_to_string = (\<lambda>(ip, p). print_ip ip @ ''/'' @ print_nat p), uni_lower = id\<rparr>"

section \<open>What the checks decide\<close>

text \<open>
  The abstract decision: a target is admitted when no deny rule covers it and either everything is
  allowed (and not everything denied) or an allow rule covers it.
\<close>

definition admits :: "bool \<Rightarrow> bool \<Rightarrow> bool \<Rightarrow> bool \<Rightarrow> bool" where
  "admits denied everything_denied everything_allowed allowed \<longleftrightarrow>
     \<not> denied \<and> (everything_allowed \<and> \<not> everything_denied \<or> allowed)"

definition ip_denied :: "'net net_lib \<Rightarrow> 'net policy \<Rightarrow> ip_addr \<Rightarrow> u16 \<Rightarrow> bool" where
  "ip_denied lib pol ip port \<longleftrightarrow> (\<exists>rule \<in> set (deny_nets pol). NetRule_matches lib rule ip port)"

definition ip_allowed :: "'net net_lib \<Rightarrow> 'net policy \<Rightarrow> ip_addr \<Rightarrow> u16 \<Rightarrow> bool" where
  "ip_allowed lib pol ip port \<longleftrightarrow> (\<exists>rule \<in> set (allow_nets pol). NetRule_matches lib rule ip port)"

definition name_denied :: "'net net_lib \<Rightarrow> 'net policy \<Rightarrow> str \<Rightarrow> u16 \<Rightarrow> bool" where
  "name_denied lib pol name port \<longleftrightarrow> (\<exists>dp \<in> set (deny_domains pol). DomainPattern_matches lib dp name port)"

definition name_allowed :: "'net net_lib \<Rightarrow> 'net policy \<Rightarrow> str \<Rightarrow> u16 \<Rightarrow> bool" where
  "name_allowed lib pol name port \<longleftrightarrow> (\<exists>dp \<in> set (allow_domains pol). DomainPattern_matches lib dp name port)"

lemma check_resolved_ok: "is_ok (check_resolved lib pol ip port) \<longleftrightarrow> \<not> ip_denied lib pol ip port"
  by (simp add: check_resolved_def case_find ip_denied_def)

lemma check_ip_ok:
  "is_ok (check_ip lib pol ip port) \<longleftrightarrow>
    admits (ip_denied lib pol ip port) (deny_all pol) (allow_all pol) (ip_allowed lib pol ip port)"
  by (auto simp: check_ip_def case_find admits_def ip_denied_def ip_allowed_def list_ex_iff)

lemma check_domain_ok:
  "is_ok (check_domain lib pol name port) \<longleftrightarrow>
    admits (name_denied lib pol name port) (deny_all pol) (allow_all pol) (name_allowed lib pol name port)"
  by (auto simp: check_domain_def case_find admits_def name_denied_def name_allowed_def list_ex_iff)

lemma check_ip_ok_resolved: "is_ok (check_ip lib pol ip port) \<Longrightarrow> is_ok (check_resolved lib pol ip port)"
  by (simp add: check_ip_ok check_resolved_ok admits_def)

text \<open>C4. The decision on a target as the client spelled it: a literal address is decided by the network rules
  alone and any other text by the domain rules alone; in both cases a matching deny rule refuses whatever the allow
  list says, and otherwise the target passes when everything is allowed and not everything denied, or when an allow
  rule matches.\<close>

theorem check_connect_decision:
  "is_ok (check_connect lib pol addr port) \<longleftrightarrow>
    (case parse_ip addr of
       Some ip \<Rightarrow> admits (ip_denied lib pol ip port) (deny_all pol) (allow_all pol) (ip_allowed lib pol ip port)
     | None \<Rightarrow> admits (name_denied lib pol addr port) (deny_all pol) (allow_all pol) (name_allowed lib pol addr port))"
  by (simp add: check_connect_def check_ip_ok check_domain_ok split: option.splits)

section \<open>Domain rules\<close>

lemma str_split_join: "s = join c (str_split c s)"
proof (induction s)
  case (Cons x s)
  obtain p ps where "str_split c s = p # ps" by (cases "str_split c s") auto
  with Cons show ?case by simp
qed simp

lemma str_split_inject: "str_split c s = str_split c t \<longleftrightarrow> s = t"
  by (metis str_split_join)

lemma str_split_two: "str_split c (p @ c # r) = str_split c p @ str_split c r"
proof (induction p)
  case (Cons x p)
  then show ?case by (cases "str_split c p") auto
qed simp

lemma join_append: "xs \<noteq> [] \<Longrightarrow> ys \<noteq> [] \<Longrightarrow> join c (xs @ ys) = join c xs @ c # join c ys"
  by (cases xs; cases ys) auto

text \<open>A suffix of the labels is the whole text or what follows one of its separators.\<close>

lemma suffix_labels: "suffix (str_split c h) (str_split c d) \<longleftrightarrow> d = h \<or> (\<exists>p. d = p @ c # h)"
proof
  assume "suffix (str_split c h) (str_split c d)"
  then obtain xs where eq: "str_split c d = xs @ str_split c h" by (auto simp: suffix_def)
  show "d = h \<or> (\<exists>p. d = p @ c # h)"
  proof (cases "xs = []")
    case True
    with eq show ?thesis by (simp add: str_split_inject)
  next
    case False
    then have "d = join c xs @ c # h"
      using eq str_split_join [of d c] str_split_join [of h c] by (simp add: join_append)
    then show ?thesis by blast
  qed
qed (auto simp: str_split_two suffix_def)

text \<open>C32. A domain rule covers exactly the subtree of its name: the labels of the rule's host are the last labels
  of the normalized target. So the apex and every subdomain match, and a name that merely ends with the same letters
  does not. A rule's port, where it has one, has to be the target's.\<close>

theorem domain_rule_covers_subtree:
  "DomainPattern_matches lib dp name port \<longleftrightarrow>
    port_covers (dp_port dp) port \<and>
    suffix (str_split CHR ''.'' (dp_host dp)) (str_split CHR ''.'' (normalize_domain lib name))"
  by (auto simp: DomainPattern_matches_def suffix_labels ends_with_iff Let_def)

lemma normalize_dot:
  "ends_with s ''.'' = False \<Longrightarrow> normalize_domain lib (s @ ''.'') = normalize_domain lib s"
  by (simp add: normalize_domain_def ends_with_def)

lemma strip_suffix_map_lower:
  "map_option (map ascii_lower) (strip_suffix ''.'' s) = strip_suffix ''.'' (map ascii_lower s)"
proof (cases s rule: rev_cases)
  case Nil
  then show ?thesis by (simp add: strip_suffix_def strip_prefix_def)
next
  case (snoc ys y)
  then show ?thesis
    by (auto simp: strip_suffix_def strip_prefix_def ascii_lower_dot rev_map)
qed

lemma strip_suffix_ascii:
  "list_all is_ascii s \<Longrightarrow> strip_suffix ''.'' s = Some r \<Longrightarrow> list_all is_ascii r"
  by (auto simp: strip_suffix_Some)

lemma normalize_ascii:
  assumes "list_all is_ascii s"
  shows "normalize_domain lib s =
    (case strip_suffix ''.'' (map ascii_lower s) of Some r \<Rightarrow> r | None \<Rightarrow> map ascii_lower s)"
  using assms strip_suffix_ascii [OF assms]
  by (auto simp: normalize_domain_def to_lowercase_ascii simp flip: strip_suffix_map_lower
      split: option.splits)

text \<open>Spelling does not matter: for ASCII names, letter case makes no difference to a domain rule, and neither
  does one trailing dot, so the fully qualified form cannot slip past a rule.\<close>

lemma domain_rule_ignores_spelling:
  assumes "list_all is_ascii name" and "list_all is_ascii name'"
    and "map ascii_lower name = map ascii_lower name'"
  shows "DomainPattern_matches lib dp name' port = DomainPattern_matches lib dp name port \<and>
    (\<not> ends_with name ''.'' \<longrightarrow> DomainPattern_matches lib dp (name' @ ''.'') port = DomainPattern_matches lib dp name port)"
proof -
  have same: "normalize_domain lib name' = normalize_domain lib name"
    using assms(3) unfolding normalize_ascii [OF assms(1)] normalize_ascii [OF assms(2)] by (simp only:)
  have "normalize_domain lib (name' @ ''.'') = normalize_domain lib name" if "\<not> ends_with name ''.''"
  proof -
    have "ends_with (map ascii_lower s) ''.'' \<longleftrightarrow> ends_with s ''.''" for s
      by (simp add: ends_with_def flip: strip_suffix_map_lower)
    with assms(3) that have "\<not> ends_with name' ''.''" by metis
    with same show ?thesis by (simp add: normalize_dot)
  qed
  with same show ?thesis by (simp add: DomainPattern_matches_def)
qed


section \<open>The text of a rule\<close>

lemma split_last_colon_port:
  assumes "CHR '':'' \<notin> set host"
  shows "split_last_colon (host @ '':'' @ print_u16 p) = (host, Some p)"
proof -
  have "str_rfind CHR '':'' (host @ CHR '':'' # print_u16 p) = Some (length host)"
    by (rule str_rfind_append) simp
  with assms show ?thesis
    by (simp add: split_last_colon_def str_contains_def u16_text.parse_print)
qed

lemma split_last_colon_no_port: "CHR '':'' \<notin> set s \<Longrightarrow> split_last_colon s = (s, None)"
  by (simp add: split_last_colon_def str_rfind_None [THEN iffD2])

lemma split_host_port_unbracketed: "s = [] \<or> hd s \<noteq> CHR ''['' \<Longrightarrow> split_host_port s = split_last_colon s"
  by (cases s) (auto simp: split_host_port_def strip_prefix_def)

lemma split_host_port_bracketed:
  assumes "CHR '']'' \<notin> set host"
  shows "split_host_port (''['' @ host @ '']:'' @ print_u16 p) = (host, Some p)"
proof -
  have "str_find CHR '']'' (host @ CHR '']'' # CHR '':'' # print_u16 p) = Some (length host)"
    using assms by (rule str_find_append)
  then show ?thesis
    by (simp add: split_host_port_def strip_prefix_def u16_text.parse_print)
qed

text \<open>A name as an operator writes it in a rule: no colon, bracket or leading star.\<close>

definition plain_name :: "str \<Rightarrow> bool" where
  "plain_name s \<longleftrightarrow> s \<noteq> [] \<and> CHR '':'' \<notin> set s \<and> hd s \<noteq> CHR ''['' \<and> hd s \<noteq> CHR ''*''"

lemma plain_name_split:
  assumes "plain_name host"
  shows "split_host_port host = (host, None)" "split_host_port (''*.'' @ host) = (''*.'' @ host, None)"
    "split_host_port (host @ '':'' @ print_u16 p) = (host, Some p)"
    "split_host_port (''*.'' @ host @ '':'' @ print_u16 p) = (''*.'' @ host, Some p)"
  using assms split_last_colon_port [of host p] split_last_colon_port [of "''*.'' @ host" p]
  by (auto simp: plain_name_def split_host_port_unbracketed split_last_colon_no_port)

lemma plain_name_star: "plain_name host \<Longrightarrow> strip_prefix ''*.'' host = None"
  by (cases host) (auto simp: plain_name_def strip_prefix_def)

text \<open>The four ways to write a domain rule for a name: with and without the leading \<^verbatim>\<open>*.\<close>, with and without a
  port. The star makes no difference, the port (printed in decimal) is the one the rule is enforced on, and the host is
  the normalized name; a name that normalizes to nothing or to a bare star gives no rule.\<close>

lemma domain_rule_forms:
  assumes "plain_name host"
  shows "DomainPattern_parse lib (''*.'' @ host) = DomainPattern_parse lib host \<and>
    DomainPattern_parse lib (''*.'' @ host @ '':'' @ print_u16 p) = DomainPattern_parse lib (host @ '':'' @ print_u16 p) \<and>
    DomainPattern_parse lib host =
      (if normalize_domain lib host \<in> {[], ''*''} then None
       else Some \<lparr>dp_host = normalize_domain lib host, dp_port = None\<rparr>) \<and>
    DomainPattern_parse lib (host @ '':'' @ print_u16 p) =
      (if normalize_domain lib host \<in> {[], ''*''} then None
       else Some \<lparr>dp_host = normalize_domain lib host, dp_port = Some p\<rparr>)"
proof -
  have star: "strip_prefix ''*.'' (''*.'' @ host) = Some host" by (rule strip_prefix_append)
  show ?thesis
    unfolding DomainPattern_parse_def plain_name_split [OF assms] plain_name_star [OF assms] star Let_def prod.case
      option.case
    by simp
qed

section \<open>Bind ports\<close>

definition print_range :: "u16 \<times> u16 \<Rightarrow> str" where
  "print_range r = print_u16 (fst r) @ ''-'' @ print_u16 (snd r)"

interpretation range_text: text_codec print_range parse_port_range
proof
  fix r
  have "is_graphic (hd (print_range r)) \<and> is_graphic (last (print_range r))"
    using print_u16_digits [of "fst r"] print_u16_digits [of "snd r"]
    by (auto simp: print_range_def list_all_iff intro!: is_digit_graphic)
  then have "trim (print_range r) = print_range r" by (intro trim_graphic) auto
  moreover have "str_find CHR ''-'' (print_range r) = Some (length (print_u16 (fst r)))"
    unfolding print_range_def append.simps by (rule str_find_append) simp
  ultimately show "parse_port_range (print_range r) = Some r"
    by (simp add: parse_port_range_def print_range_def u16_text.parse_print)
qed

lemma print_range_no_comma: "CHR '','' \<notin> set (print_range r)"
  by (simp add: print_range_def)

lemma str_split_join_ranges:
  "rs \<noteq> [] \<Longrightarrow> str_split CHR '','' (join CHR '','' (map print_range rs)) = map print_range rs"
proof (induction rs rule: induct_list012)
  case (2 r)
  then show ?case by (simp add: str_split_no_sep print_range_no_comma)
next
  case (3 r r' rs)
  then show ?case by (simp add: str_split_append print_range_no_comma)
qed simp

lemma parse_port_ranges_print: "parse_port_ranges (join CHR '','' (map print_range rs)) = rs"
proof (cases "rs = []")
  case True
  have "parse_port_range [] = None" by code_simp
  then show ?thesis by (simp add: True parse_port_ranges_def)
next
  case False
  have "List.map_filter parse_port_range (map print_range rs') = rs'" for rs'
    by (induction rs') (simp_all add: range_text.parse_print)
  with False show ?thesis by (simp add: parse_port_ranges_def str_split_join_ranges)
qed

lemma check_bind_ok: "is_ok (check_bind pol port) \<longleftrightarrow> (\<exists>(lo, hi) \<in> set (bind_port_ranges pol). lo \<le> port \<and> port \<le> hi)"
  by (auto simp: check_bind_def case_find)

text \<open>Bind ports from the configuration text to the decision: when \<^verbatim>\<open>bind_ports\<close> lists ranges in the documented
  form, exactly the ports inside one of them may be bound.\<close>

lemma bind_ports_decision:
  assumes "np_bind_ports config = join CHR '','' (map print_range ranges)"
  shows "is_ok (check_bind (Policy_new lib config) port) \<longleftrightarrow>
    (\<exists>(lo, hi) \<in> set ranges. lo \<le> port \<and> port \<le> hi)"
proof -
  have "bind_port_ranges (Policy_new lib config) = ranges"
    by (simp add: Policy_new_def assms parse_port_ranges_print split: prod.splits)
  then show ?thesis by (simp add: check_bind_ok)
qed

section \<open>The default policy\<close>

text \<open>Documented of \<^verbatim>\<open>ipnet\<close>: the text \<^verbatim>\<open>a.b.c.d/p\<close> parses, and the network holds the IPv4 addresses with
  the same \<open>p\<close> leading bits and no IPv6 address.\<close>

definition in_cidr4 :: "32 word \<Rightarrow> nat \<Rightarrow> ip_addr \<Rightarrow> bool" where
  "in_cidr4 a p ip =
     (case ip of V4 b \<Rightarrow> unat a div 2 ^ (32 - p) = unat b div 2 ^ (32 - p) | V6 _ \<Rightarrow> False)"

definition ipnet_cidr4 :: "'net net_lib \<Rightarrow> bool" where
  "ipnet_cidr4 lib \<longleftrightarrow>
     (\<forall>a p. p \<le> 32 \<longrightarrow>
        (\<exists>net. net_from_str lib (print_v4 a @ ''/'' @ print_nat p) = Some net \<and>
               (\<forall>ip. net_contains lib net ip = in_cidr4 a p ip)))"

lemma print_v4_no_slash: "CHR ''/'' \<notin> set (print_v4 a)"
proof -
  have "CHR ''/'' \<notin> set (print_nat n)" for n
    using print_base_digits [of 10 n] by (auto simp: list_all_iff is_digit_def digit_val_def)
  then show ?thesis by (cases "octets a") (auto simp: print_v4_def)
qed

lemma demo_net_cidr4: "ipnet_cidr4 demo_net"
  unfolding ipnet_cidr4_def
proof (intro allI impI)
  fix a :: "32 word" and p :: nat
  assume "p \<le> 32"
  have "str_find CHR ''/'' (print_v4 a @ CHR ''/'' # print_nat p) = Some (length (print_v4 a))"
    using print_v4_no_slash by (rule str_find_append)
  then have "net_from_str demo_net (print_v4 a @ ''/'' @ print_nat p) = Some (V4 a, p)"
    using \<open>p \<le> 32\<close> ip_text.parse_print [of "V4 a"]
    by (simp add: demo_net_def cidr_parse_def parse_uint_print_nat)
  moreover have "net_contains demo_net (V4 a, p) ip = in_cidr4 a p ip" for ip
    by (cases ip) (auto simp: demo_net_def in_cidr4_def)
  ultimately show "\<exists>net. net_from_str demo_net (print_v4 a @ ''/'' @ print_nat p) = Some net \<and>
      (\<forall>ip. net_contains demo_net net ip = in_cidr4 a p ip)"
    by blast
qed

fun print_cidr4 :: "32 word \<times> nat \<Rightarrow> str" where
  "print_cidr4 (a, p) = print_v4 a @ ''/'' @ print_nat p"

text \<open>The five private ranges the default configuration lists.\<close>

definition private_v4 :: "(32 word \<times> nat) list" where
  "private_v4 = [(0x0A000000, 8), (0xAC100000, 12), (0xC0A80000, 16), (0x7F000000, 8), (0xA9FE0000, 16)]"

definition is_private_v4 :: "ip_addr \<Rightarrow> bool" where
  "is_private_v4 ip \<longleftrightarrow> list_ex (\<lambda>(a, p). in_cidr4 a p ip) private_v4"

lemma default_deny_text: "default_deny = map print_cidr4 private_v4"
  by code_simp

lemma cidr_text_trim: "trim (print_v4 a @ ''/'' @ print_nat p) = print_v4 a @ ''/'' @ print_nat p"
proof (rule trim_graphic)
  have nat: "list_all (is_digit 10) (print_nat n)" for n by (rule print_base_digits) auto
  obtain d ds where oct: "octets a = d # ds" using length_octets [of a] by (cases "octets a") auto
  have "is_digit 10 (hd (print_nat d))" using nat [of d] by (cases "print_nat d") auto
  then have "is_graphic (hd (print_v4 a @ ''/'' @ print_nat p))"
    by (simp add: print_v4_def oct is_digit_graphic)
  moreover have "is_digit 10 (last (print_nat p))" using nat [of p] by (simp add: list_all_iff)
  ultimately show "print_v4 a @ ''/'' @ print_nat p = [] \<or>
      is_graphic (hd (print_v4 a @ ''/'' @ print_nat p)) \<and> is_graphic (last (print_v4 a @ ''/'' @ print_nat p))"
    by (simp add: is_digit_graphic)
qed

lemma parse_rules_cidrs:
  assumes "ipnet_cidr4 lib" and "\<forall>(a, p) \<in> set rs. p \<le> 32"
  shows "\<exists>rules. parse_rules_loop lib (map print_cidr4 rs) nets domains all =
      (nets @ rules, domains, all) \<and>
      (\<forall>ip port. (\<exists>rule \<in> set rules. NetRule_matches lib rule ip port) \<longleftrightarrow> (\<exists>(a, p) \<in> set rs. in_cidr4 a p ip))"
  using assms(2)
proof (induction rs arbitrary: nets)
  case Nil
  then show ?case by auto
next
  case (Cons r rs)
  obtain a p where r: "r = (a, p)" by (cases r)
  let ?t = "print_v4 a @ ''/'' @ print_nat p"
  from assms(1) Cons.prems obtain net where
      net: "net_from_str lib ?t = Some net" "\<And>ip. net_contains lib net ip = in_cidr4 a p ip"
    unfolding ipnet_cidr4_def r by fastforce
  define rule where "rule = \<lparr>nr_net = net, nr_port = None\<rparr>"
  have parsed: "NetRule_parse lib ?t = Some rule"
    by (simp only: NetRule_parse_def parse_net_def net option.case rule_def)
  have "length ?t \<noteq> length ''*''" by (simp add: print_v4_def)
  then have "?t \<noteq> ''*''" by metis
  then have step: "parse_rules_loop lib (?t # ts) nets domains all = parse_rules_loop lib ts (nets @ [rule]) domains all" for ts
    by (simp only: parse_rules_loop.simps cidr_text_trim Let_def parsed if_False option.case)
  from Cons obtain rules where rules:
      "parse_rules_loop lib (map print_cidr4 rs) (nets @ [rule]) domains all =
        ((nets @ [rule]) @ rules, domains, all)"
      "\<And>ip port. (\<exists>rule \<in> set rules. NetRule_matches lib rule ip port) \<longleftrightarrow> (\<exists>(a, p) \<in> set rs. in_cidr4 a p ip)"
    by fastforce
  have "NetRule_matches lib rule ip port \<longleftrightarrow> in_cidr4 a p ip" for ip port
    by (simp add: NetRule_matches_def rule_def net port_covers_def)
  with rules step show ?case
    by (intro exI [of _ "rule # rules"]) (simp add: r)
qed

lemma default_policy_parts:
  assumes "ipnet_cidr4 lib"
  shows "ip_denied lib (Policy_new lib network_policy_default) ip port \<longleftrightarrow> is_private_v4 ip"
    and "allow_all (Policy_new lib network_policy_default)" and "\<not> deny_all (Policy_new lib network_policy_default)"
    and "deny_domains (Policy_new lib network_policy_default) = []"
proof -
  have "\<forall>(a, p) \<in> set private_v4. p \<le> 32" by (simp add: private_v4_def)
  from parse_rules_cidrs [OF assms this] obtain rules where
    rules: "parse_rules lib default_deny = (rules, [], False)"
      "\<And>ip port. (\<exists>rule \<in> set rules. NetRule_matches lib rule ip port) \<longleftrightarrow> is_private_v4 ip"
    by (fastforce simp: parse_rules_def default_deny_text is_private_v4_def list_ex_iff)
  have "trim ''*'' = ''*''" by code_simp
  then have "parse_rules lib default_allow = ([], [], True)"
    by (simp add: parse_rules_def default_allow_def)
  with rules show "ip_denied lib (Policy_new lib network_policy_default) ip port \<longleftrightarrow> is_private_v4 ip"
    and "allow_all (Policy_new lib network_policy_default)" and "\<not> deny_all (Policy_new lib network_policy_default)"
    and "deny_domains (Policy_new lib network_policy_default) = []"
    by (simp_all add: ip_denied_def Policy_new_def network_policy_default_def)
qed

text \<open>C31. What the shipped default policy decides for a literal address: an IPv4 address passes exactly when it is in
  none of the five private ranges, on every port; every IPv6 address passes, including the loopback address and the
  IPv4-mapped forms of the blocked addresses.\<close>

theorem default_policy_decision:
  assumes "ipnet_cidr4 lib"
  shows "is_ok (check_ip lib (Policy_new lib network_policy_default) ip port) \<longleftrightarrow> \<not> is_private_v4 ip"
  by (simp add: check_ip_ok admits_def default_policy_parts [OF assms])

theorem default_policy_decision_witness:
  "\<not> is_ok (check_ip demo_net (Policy_new demo_net network_policy_default) (V4 0x7F000001) 80) \<and>
   is_ok (check_ip demo_net (Policy_new demo_net network_policy_default) (V4 0x08080808) 53) \<and>
   is_ok (check_ip demo_net (Policy_new demo_net network_policy_default) (V6 0x0000FFFF7F000001) 80)"
proof -
  have "is_private_v4 (V4 0x7F000001)" "\<not> is_private_v4 (V4 0x08080808)"
    "\<not> is_private_v4 (V6 0x0000FFFF7F000001)" by code_simp+
  then show ?thesis by (simp add: default_policy_decision [OF demo_net_cidr4])
qed

end
