(* ===== verification/Dns.thy ===== *)
theory Dns
  imports Policy
begin

text \<open>
  \<^verbatim>\<open>src/dns.rs\<close> and the approval of a target in \<^verbatim>\<open>src/proxy.rs\<close> (\<^verbatim>\<open>resolve_and_check\<close>). The system resolver
  behind \<^verbatim>\<open>tokio::net::lookup_host\<close> is an argument: a function from the text that is looked up to the
  socket addresses of this lookup. The approval relies on the policy only through an interface, the
  locale \<open>egress_policy\<close>.
\<close>

section \<open>Resolving\<close>

type_synonym resolver = "str \<Rightarrow> socket_addr list rresult"

definition with_port :: "str \<Rightarrow> str" where
  "with_port name = (if str_contains CHR '':'' name then name else name @ '':0'')"

definition dns_resolve :: "resolver \<Rightarrow> str \<Rightarrow> str list rresult" where
  "dns_resolve lookup_host name =
     (case lookup_host (with_port name) of
        Inl e \<Rightarrow> Inl (''DNS resolution failed: '' @ e)
      | Inr addrs \<Rightarrow>
          (let ips = map (\<lambda>a. print_ip (sa_ip a)) addrs in
           if ips = [] then Inl (''no addresses found for '' @ name) else Inr ips))"

section \<open>Approving a target\<close>

text \<open>The loop over the resolved addresses; \<open>first\<close> is the address to connect to.\<close>

fun check_addresses ::
  "(ip_addr \<Rightarrow> u16 \<Rightarrow> unit rresult) \<Rightarrow> str \<Rightarrow> u16 \<Rightarrow> str list \<Rightarrow> ip_addr option \<Rightarrow> ip_addr option rresult" where
  "check_addresses check addr port [] first = Inr first"
| "check_addresses check addr port (raw # rest) first =
     (case parse_ip raw of
        None \<Rightarrow> Inl (''unparseable address for '' @ addr @ '': '' @ raw)
      | Some ip \<Rightarrow>
          (case check ip port of
             Inl e \<Rightarrow> Inl e
           | Inr _ \<Rightarrow>
               check_addresses check addr port rest (case first of None \<Rightarrow> Some ip | Some f \<Rightarrow> Some f)))"

text \<open>\<^verbatim>\<open>resolve_and_check\<close> over the two checks it calls.\<close>

definition approve ::
  "(str \<Rightarrow> u16 \<Rightarrow> unit rresult) \<Rightarrow> (ip_addr \<Rightarrow> u16 \<Rightarrow> unit rresult) \<Rightarrow> resolver \<Rightarrow> str \<Rightarrow> u16
    \<Rightarrow> socket_addr rresult" where
  "approve check_target check_address lookup_host addr port =
     (case check_target addr port of
        Inl e \<Rightarrow> Inl e
      | Inr _ \<Rightarrow>
          (case parse_ip addr of
             Some ip \<Rightarrow> Inr (socket_addr_new ip port)
           | None \<Rightarrow>
               (case dns_resolve lookup_host addr of
                  Inl e \<Rightarrow> Inl e
                | Inr resolved \<Rightarrow>
                    (case check_addresses check_address addr port resolved None of
                       Inl e \<Rightarrow> Inl e
                     | Inr None \<Rightarrow> Inl (''no addresses found for '' @ addr)
                     | Inr (Some ip) \<Rightarrow> Inr (socket_addr_new ip port)))))"

definition resolve_and_check ::
  "'net net_lib \<Rightarrow> 'net policy \<Rightarrow> resolver \<Rightarrow> str \<Rightarrow> u16 \<Rightarrow> socket_addr rresult" where
  "resolve_and_check lib pol lookup_host addr port =
     approve (check_connect lib pol) (check_resolved lib pol) lookup_host addr port"

text \<open>Every address the resolver answered, printed and parsed back, is the address itself, so the
  loop decides on the answers and its \<^verbatim>\<open>unparseable\<close> branch is never taken.\<close>

lemma check_addresses_printed:
  "check_addresses check addr port (map (\<lambda>a. print_ip (sa_ip a)) answers) first = Inr r \<longleftrightarrow>
    (\<forall>a \<in> set answers. is_ok (check (sa_ip a) port)) \<and>
    r = (case first of Some f \<Rightarrow> Some f | None \<Rightarrow> map_option sa_ip (if answers = [] then None else Some (hd answers)))"
proof (induction answers arbitrary: first)
  case Nil
  then show ?case by (auto split: option.splits)
next
  case (Cons a answers)
  show ?case
    by (cases "check (sa_ip a) port") (auto simp: ip_text.parse_print Cons.IH split: option.splits)
qed

text \<open>
  The interface to the policy: a predicate \<open>denied\<close> on addresses that both checks respect. What the
  client of a policy needs is that whatever is approved is not denied.
\<close>

locale egress_policy =
  fixes check_target :: "str \<Rightarrow> u16 \<Rightarrow> unit rresult"
    and check_address :: "ip_addr \<Rightarrow> u16 \<Rightarrow> unit rresult"
    and denied :: "ip_addr \<Rightarrow> u16 \<Rightarrow> bool"
  assumes literal_cleared: "parse_ip addr = Some ip \<Longrightarrow> is_ok (check_target addr port) \<Longrightarrow> \<not> denied ip port"
    and address_cleared: "is_ok (check_address ip port) \<Longrightarrow> \<not> denied ip port"
begin

lemma approve_literal:
  assumes "parse_ip addr = Some ip"
  shows "approve check_target check_address lookup addr port = Inr t \<longleftrightarrow>
    is_ok (check_target addr port) \<and> t = socket_addr_new ip port"
  using assms by (cases "check_target addr port") (auto simp: approve_def)

lemma approve_name:
  assumes "parse_ip addr = None"
  shows "approve check_target check_address lookup addr port = Inr t \<longleftrightarrow>
    is_ok (check_target addr port) \<and>
    (\<exists>answers. lookup (with_port addr) = Inr answers \<and> answers \<noteq> [] \<and>
      (\<forall>a \<in> set answers. is_ok (check_address (sa_ip a) port)) \<and>
      t = socket_addr_new (sa_ip (hd answers)) port)"
proof (cases "check_target addr port")
  case (Inl e)
  then show ?thesis by (simp add: approve_def)
next
  case (Inr u)
  show ?thesis
  proof (cases "lookup (with_port addr)")
    case (Inl e)
    with Inr assms show ?thesis by (simp add: approve_def dns_resolve_def)
  next
    case resolved: (Inr answers)
    show ?thesis
    proof (cases "check_addresses check_address addr port (map (\<lambda>a. print_ip (sa_ip a)) answers) None")
      case (Inl e)
      with check_addresses_printed [of check_address addr port answers None]
      have "\<not> (\<forall>a \<in> set answers. is_ok (check_address (sa_ip a) port))"
        by (metis Inl_Inr_False)
      with Inr Inl resolved assms show ?thesis
        by (auto simp: approve_def dns_resolve_def Let_def)
    next
      case checked: (Inr r)
      with check_addresses_printed [of check_address addr port answers None r]
      have "(\<forall>a \<in> set answers. is_ok (check_address (sa_ip a) port))"
        and "r = map_option sa_ip (if answers = [] then None else Some (hd answers))" by auto
      with Inr checked resolved assms show ?thesis
        by (auto simp: approve_def dns_resolve_def Let_def)
    qed
  qed
qed

lemma approved_not_denied:
  assumes "approve check_target check_address lookup addr port = Inr t"
  shows "\<not> denied (sa_ip t) (sa_port t) \<and> sa_port t = port"
proof (cases "parse_ip addr")
  case (Some ip)
  with assms literal_cleared show ?thesis by (auto simp: approve_literal)
next
  case None
  with assms address_cleared show ?thesis by (auto simp: approve_name)
qed

end

interpretation egress: egress_policy "check_connect lib pol" "check_resolved lib pol" "ip_denied lib pol"
  for lib :: "'net net_lib" and pol :: "'net policy"
proof
  fix addr ip port
  show "parse_ip addr = Some ip \<Longrightarrow> is_ok (check_connect lib pol addr port) \<Longrightarrow> \<not> ip_denied lib pol ip port"
    by (simp add: check_connect_def check_ip_ok admits_def)
  show "is_ok (check_resolved lib pol ip port) \<Longrightarrow> \<not> ip_denied lib pol ip port"
    by (simp add: check_resolved_ok)
qed


section \<open>Properties\<close>

text \<open>C9. Exactly when a target is approved, and which address is then connected to. A literal address: when the
  policy admits it, that address. A name: when the policy admits the name, the lookup answers with at least one
  address and none of the answers is denied; the connection then goes to the first answer. One denied answer is enough
  to refuse the name, and no second lookup takes place.\<close>

theorem resolve_and_check_decision:
  "resolve_and_check lib pol lookup addr port = Inr t \<longleftrightarrow>
    is_ok (check_connect lib pol addr port) \<and>
    (case parse_ip addr of
       Some ip \<Rightarrow> t = socket_addr_new ip port
     | None \<Rightarrow>
         (\<exists>answers. lookup (with_port addr) = Inr answers \<and> answers \<noteq> [] \<and>
           list_all (\<lambda>a. \<not> ip_denied lib pol (sa_ip a) port) answers \<and>
           t = socket_addr_new (sa_ip (hd answers)) port))"
proof (cases "parse_ip addr")
  case (Some ip)
  then show ?thesis by (simp add: resolve_and_check_def egress.approve_literal)
next
  case None
  then show ?thesis by (simp add: resolve_and_check_def egress.approve_name check_resolved_ok list_all_iff)
qed

text \<open>A rule's host without a colon never covers a target that ends in a colon and digits.\<close>

lemma domain_rule_misses_port_suffix:
  assumes "CHR '':'' \<notin> set (dp_host dp)" and "list_all is_ascii name"
  shows "\<not> DomainPattern_matches lib dp (name @ '':'' @ print_u16 q) port"
proof -
  let ?t = "name @ '':'' @ print_u16 q"
  have digits: "list_all (is_digit 10) (print_u16 q)" by (rule print_u16_digits)
  have lower: "map ascii_lower (print_u16 q) = print_u16 q"
    using digits by (auto simp: list_all_iff ascii_lower_def is_digit_def digit_val_def Let_def
        intro!: map_idI split: if_splits)
  have "is_ascii c" if "is_digit 10 c" for c
    using is_digit_graphic [OF that] by (simp add: is_graphic_def is_ascii_def)
  with assms(2) digits have ascii: "list_all is_ascii ?t"
    by (auto simp: list_all_iff is_ascii_def)
  have "is_digit 10 (last (print_u16 q))" using digits by (simp add: list_all_iff)
  then have "last (print_u16 q) \<noteq> CHR ''.''" by auto
  then have "strip_suffix ''.'' (map ascii_lower name @ '':'' @ print_u16 q) = None"
    by (cases "print_u16 q" rule: rev_cases) (auto simp: strip_suffix_def strip_prefix_def)
  moreover have "ascii_lower CHR '':'' = CHR '':''" by code_simp
  ultimately have norm: "normalize_domain lib ?t = map ascii_lower name @ '':'' @ print_u16 q"
    using ascii by (simp add: normalize_ascii lower)
  have "\<not> ends_with (map ascii_lower name @ '':'' @ print_u16 q) (''.'' @ dp_host dp)"
  proof
    assume "ends_with (map ascii_lower name @ '':'' @ print_u16 q) (''.'' @ dp_host dp)"
    then obtain r where "map ascii_lower name @ '':'' @ print_u16 q = r @ ''.'' @ dp_host dp"
      by (auto simp: ends_with_iff)
    then consider u where "CHR '':'' # print_u16 q = u @ ''.'' @ dp_host dp"
      | u where "u @ CHR '':'' # print_u16 q = ''.'' @ dp_host dp"
      by (simp only: append_eq_append_conv2 append.simps) blast
    then show False
    proof cases
      case 1
      then have "CHR ''.'' \<in> set (print_u16 q)" by (cases u) auto
      with digits show False by (auto simp: list_all_iff)
    next
      case 2
      then have "CHR '':'' \<in> set (''.'' @ dp_host dp)" by (metis in_set_conv_decomp)
      with assms(1) show False by simp
    qed
  qed
  moreover have "map ascii_lower name @ '':'' @ print_u16 q \<noteq> dp_host dp"
    using assms(1) by (metis append_Cons in_set_conv_decomp)
  ultimately show ?thesis by (simp add: DomainPattern_matches_def norm [simplified])
qed

text \<open>C29. A domain deny rule does not cover a target that carries a port in its text: with every domain rule written
  for a plain host, the target \<^verbatim>\<open>name:q\<close> is not refused by the deny list even when \<open>name\<close> is, and since such a target is
  handed to the resolver as it is, it is approved for the addresses of \<open>name\<close> whenever those are not denied
  themselves.\<close>

theorem port_suffix_escapes_domain_deny:
  assumes "list_all (\<lambda>dp. CHR '':'' \<notin> set (dp_host dp)) (deny_domains pol)"
    and "allow_all pol" and "\<not> deny_all pol"
    and "list_all is_ascii name" and "parse_ip (name @ '':'' @ print_u16 q) = None"
    and "lookup (name @ '':'' @ print_u16 q) = Inr answers" and "answers \<noteq> []"
    and "list_all (\<lambda>a. \<not> ip_denied lib pol (sa_ip a) port) answers"
  shows "resolve_and_check lib pol lookup (name @ '':'' @ print_u16 q) port =
    Inr (socket_addr_new (sa_ip (hd answers)) port)"
proof -
  have "\<not> name_denied lib pol (name @ '':'' @ print_u16 q) port"
    using assms(1) domain_rule_misses_port_suffix [OF _ assms(4), of _ lib q port]
    by (auto simp: name_denied_def list_all_iff)
  with assms(2,3,5) have "is_ok (check_connect lib pol (name @ '':'' @ print_u16 q) port)"
    by (simp add: check_connect_def check_domain_ok admits_def)
  moreover have "with_port (name @ '':'' @ print_u16 q) = name @ '':'' @ print_u16 q"
    by (simp add: with_port_def str_contains_def)
  ultimately show ?thesis using assms(5-8)
    by (simp add: resolve_and_check_def egress.approve_name check_resolved_ok list_all_iff)
qed


definition demo_deny_policy :: "(ip_addr \<times> nat) policy" where
  "demo_deny_policy = Policy_new demo_net (network_policy_default\<lparr>np_deny := [''evil.com'']\<rparr>)"

definition demo_resolver :: resolver where
  "demo_resolver t = Inr [SockV4 0x01020304 0]"

theorem port_suffix_escapes_domain_deny_witness:
  "resolve_and_check demo_net demo_deny_policy demo_resolver ''evil.com'' 80 = Inl ''domain blocked by policy: evil.com'' \<and>
   resolve_and_check demo_net demo_deny_policy demo_resolver (''evil.com'' @ '':'' @ print_u16 1) 80 =
     Inr (SockV4 0x01020304 80)"
proof
  show "resolve_and_check demo_net demo_deny_policy demo_resolver ''evil.com'' 80 = Inl ''domain blocked by policy: evil.com''"
    by code_simp
  have "list_all (\<lambda>dp. CHR '':'' \<notin> set (dp_host dp)) (deny_domains demo_deny_policy)"
    "allow_all demo_deny_policy" "\<not> deny_all demo_deny_policy" "list_all is_ascii ''evil.com''"
    "parse_ip (''evil.com'' @ '':'' @ print_u16 1) = None"
    "demo_resolver (''evil.com'' @ '':'' @ print_u16 1) = Inr [SockV4 0x01020304 0]"
    "[SockV4 0x01020304 0] \<noteq> []"
    "list_all (\<lambda>a. \<not> ip_denied demo_net demo_deny_policy (sa_ip a) 80) [SockV4 0x01020304 0]"
    by code_simp+
  from port_suffix_escapes_domain_deny [where name = "''evil.com''" and q = 1 and pol = demo_deny_policy and
      lookup = demo_resolver and answers = "[SockV4 0x01020304 0]" and port = 80 and lib = demo_net, OF this]
  show "resolve_and_check demo_net demo_deny_policy demo_resolver (''evil.com'' @ '':'' @ print_u16 1) 80 =
     Inr (SockV4 0x01020304 80)" by simp
qed

end
