(* ===== verification/Utf8.thy ===== *)
theory Utf8
  imports Rust_Num
begin

text \<open>
  \<^verbatim>\<open>String::from_utf8\<close> and \<^verbatim>\<open>str::as_bytes\<close>: the validation loop of the standard library, branch by
  branch, with the position and length its error reports, and the \<^verbatim>\<open>Display\<close> text of that error.
\<close>

definition as_bytes :: "str \<Rightarrow> u8 list" where
  "as_bytes s = map (\<lambda>c. of_nat (of_char c)) s"

definition str_of_bytes :: "u8 list \<Rightarrow> str" where
  "str_of_bytes bs = map (\<lambda>b. char_of (unat b)) bs"

datatype utf8_error = Utf8Error (valid_up_to: nat) (error_len: "nat option")

definition cont_byte :: "u8 \<Rightarrow> bool" where
  "cont_byte b \<longleftrightarrow> 0x80 \<le> b \<and> b \<le> 0xBF"

text \<open>The second byte of a three-byte and of a four-byte sequence.\<close>

definition second_of_3 :: "u8 \<Rightarrow> u8 \<Rightarrow> bool" where
  "second_of_3 b0 b1 \<longleftrightarrow>
     (b0 = 0xE0 \<and> 0xA0 \<le> b1 \<and> b1 \<le> 0xBF) \<or>
     (0xE1 \<le> b0 \<and> b0 \<le> 0xEC \<and> cont_byte b1) \<or>
     (b0 = 0xED \<and> 0x80 \<le> b1 \<and> b1 \<le> 0x9F) \<or>
     (0xEE \<le> b0 \<and> b0 \<le> 0xEF \<and> cont_byte b1)"

definition second_of_4 :: "u8 \<Rightarrow> u8 \<Rightarrow> bool" where
  "second_of_4 b0 b1 \<longleftrightarrow>
     (b0 = 0xF0 \<and> 0x90 \<le> b1 \<and> b1 \<le> 0xBF) \<or>
     (0xF1 \<le> b0 \<and> b0 \<le> 0xF3 \<and> cont_byte b1) \<or>
     (b0 = 0xF4 \<and> 0x80 \<le> b1 \<and> b1 \<le> 0x8F)"

text \<open>\<^const>\<open>None\<close> when the bytes are valid UTF-8; \<open>i\<close> is the offset of the bytes in the whole input.\<close>

fun utf8_validate :: "nat \<Rightarrow> u8 list \<Rightarrow> utf8_error option" where
  "utf8_validate i [] = None"
| "utf8_validate i (b0 # bs) =
     (if b0 < 0x80 then utf8_validate (i + 1) bs
      else if 0xC2 \<le> b0 \<and> b0 \<le> 0xDF then
        (case bs of
           [] \<Rightarrow> Some (Utf8Error i None)
         | b1 # bs1 \<Rightarrow>
             if cont_byte b1 then utf8_validate (i + 2) bs1 else Some (Utf8Error i (Some 1)))
      else if 0xE0 \<le> b0 \<and> b0 \<le> 0xEF then
        (case bs of
           [] \<Rightarrow> Some (Utf8Error i None)
         | b1 # bs1 \<Rightarrow>
             if \<not> second_of_3 b0 b1 then Some (Utf8Error i (Some 1))
             else (case bs1 of
                     [] \<Rightarrow> Some (Utf8Error i None)
                   | b2 # bs2 \<Rightarrow>
                       if cont_byte b2 then utf8_validate (i + 3) bs2
                       else Some (Utf8Error i (Some 2))))
      else if 0xF0 \<le> b0 \<and> b0 \<le> 0xF4 then
        (case bs of
           [] \<Rightarrow> Some (Utf8Error i None)
         | b1 # bs1 \<Rightarrow>
             if \<not> second_of_4 b0 b1 then Some (Utf8Error i (Some 1))
             else (case bs1 of
                     [] \<Rightarrow> Some (Utf8Error i None)
                   | b2 # bs2 \<Rightarrow>
                       if \<not> cont_byte b2 then Some (Utf8Error i (Some 2))
                       else (case bs2 of
                               [] \<Rightarrow> Some (Utf8Error i None)
                             | b3 # bs3 \<Rightarrow>
                                 if cont_byte b3 then utf8_validate (i + 4) bs3
                                 else Some (Utf8Error i (Some 3)))))
      else Some (Utf8Error i (Some 1)))"

definition utf8_error_to_string :: "utf8_error \<Rightarrow> str" where
  "utf8_error_to_string e =
     (case error_len e of
        Some n \<Rightarrow> ''invalid utf-8 sequence of '' @ print_nat n @ '' bytes from index '' @ print_nat (valid_up_to e)
      | None \<Rightarrow> ''incomplete utf-8 byte sequence from index '' @ print_nat (valid_up_to e))"

definition from_utf8 :: "u8 list \<Rightarrow> utf8_error + str" where
  "from_utf8 bs = (case utf8_validate 0 bs of None \<Rightarrow> Inr (str_of_bytes bs) | Some e \<Rightarrow> Inl e)"

text \<open>The strings that exist at run time: every Rust string is valid UTF-8.\<close>

definition is_utf8 :: "str \<Rightarrow> bool" where
  "is_utf8 s \<longleftrightarrow> utf8_validate 0 (as_bytes s) = None"

lemma length_as_bytes [simp]: "length (as_bytes s) = length s"
  by (simp add: as_bytes_def)

lemma as_bytes_append [simp]: "as_bytes (s @ t) = as_bytes s @ as_bytes t"
  by (simp add: as_bytes_def)

lemma of_char_less_256: "(of_char c :: nat) < 256"
  by (cases c) (simp add: of_char_def)

lemma str_of_bytes_as_bytes [simp]: "str_of_bytes (as_bytes s) = s"
  using of_char_less_256 by (simp add: str_of_bytes_def as_bytes_def comp_def unat_of_nat map_idI)

lemma as_bytes_str_of_bytes [simp]: "as_bytes (str_of_bytes bs) = bs"
proof -
  have "(of_char (char_of (unat b) :: char) :: nat) = unat b" for b :: u8
    using unat_lt_2p [of b] by (simp add: of_char_char_of_nat)
  then show ?thesis by (simp add: str_of_bytes_def as_bytes_def comp_def map_idI)
qed

interpretation bytes_text: text_codec str_of_bytes "\<lambda>s. Some (as_bytes s)"
  by unfold_locales simp

lemma from_utf8_as_bytes [simp]: "is_utf8 s \<Longrightarrow> from_utf8 (as_bytes s) = Inr s"
  by (simp add: from_utf8_def is_utf8_def)

lemma from_utf8_Inr: "from_utf8 bs = Inr s \<Longrightarrow> as_bytes s = bs \<and> is_utf8 s"
  by (auto simp: from_utf8_def is_utf8_def split: option.splits)

lemma utf8_validate_ascii:
  "list_all (\<lambda>b. b < 0x80) bs \<Longrightarrow> utf8_validate i bs = None"
  by (induction bs arbitrary: i) auto

lemma is_utf8_ascii: "list_all is_ascii s \<Longrightarrow> is_utf8 s"
  unfolding is_utf8_def
  by (rule utf8_validate_ascii)
    (auto simp: list_all_iff as_bytes_def is_ascii_def word_less_nat_alt unat_of_nat)

end
