(* ===== verification/Protocol.thy ===== *)
theory Protocol
  imports Utf8
begin

text \<open>
  The messages of \<^verbatim>\<open>src/protocol.rs\<close>: requests from the browser, events to it. Payloads travel as
  base64 text inside the server, whichever framing carries them. Base64 and JSON are the crates
  \<^verbatim>\<open>base64\<close> and \<^verbatim>\<open>serde_json\<close>; they are the fields of one record argument.
\<close>

section \<open>Messages\<close>

datatype request =
    Connect u64 str u16
  | ConnectTls u64 str u16
  | ConnectUdp u64 str u16
  | Bind u64 str u16
  | Listen u64 u32
  | Send u64 str
  | SendTo u64 str u16 str
  | Close u64
  | Resolve u64 str

definition default_backlog :: u32 where
  "default_backlog = 128"

datatype event =
    Connected u64
  | Data u64 str
  | DataFrom u64 str str u16
  | Listening u64 u16
  | UdpBound u64 u16
  | Accepted u64 u64 str
  | Closed u64
  | Error u64 str
  | Denied u64 str
  | Resolved u64 "str list"

fun request_id :: "request \<Rightarrow> u64" where
  "request_id (Connect i _ _) = i"
| "request_id (ConnectTls i _ _) = i"
| "request_id (ConnectUdp i _ _) = i"
| "request_id (Bind i _ _) = i"
| "request_id (Listen i _) = i"
| "request_id (Send i _) = i"
| "request_id (SendTo i _ _ _) = i"
| "request_id (Close i) = i"
| "request_id (Resolve i _) = i"

definition event_error :: "u64 \<Rightarrow> str \<Rightarrow> event" where
  "event_error i msg = Error i msg"

definition event_denied :: "u64 \<Rightarrow> str \<Rightarrow> event" where
  "event_denied i msg = Denied i msg"

text \<open>The identifier an event is about, as the client reads it from either framing.\<close>

fun event_id :: "event \<Rightarrow> u64" where
  "event_id (Connected i) = i"
| "event_id (Data i _) = i"
| "event_id (DataFrom i _ _ _) = i"
| "event_id (Listening i _) = i"
| "event_id (UdpBound i _) = i"
| "event_id (Accepted i _ _) = i"
| "event_id (Closed i) = i"
| "event_id (Error i _) = i"
| "event_id (Denied i _) = i"
| "event_id (Resolved i _) = i"

section \<open>The codec crates\<close>

record codec_lib =
  b64_encode :: "u8 list \<Rightarrow> str"
  b64_decode :: "str \<Rightarrow> u8 list option"
  json_to_vec :: "str list \<Rightarrow> u8 list option"
  json_request :: "str \<Rightarrow> request rresult"
  json_event :: "event \<Rightarrow> str"

text \<open>Documented of \<^verbatim>\<open>base64\<close>: decoding with the same engine undoes encoding.\<close>

definition b64_roundtrip :: "codec_lib \<Rightarrow> bool" where
  "b64_roundtrip lib \<longleftrightarrow> (\<forall>bs. b64_decode lib (b64_encode lib bs) = Some bs)"

lemma b64_roundtripD: "b64_roundtrip lib \<Longrightarrow> b64_decode lib (b64_encode lib bs) = Some bs"
  by (simp add: b64_roundtrip_def)

end
