(* ===== verification/Binary.thy ===== *)
theory Binary
  imports Protocol
begin

text \<open>
  The binary frame codec of \<^verbatim>\<open>src/binary.rs\<close>. A frame is one type byte, eight bytes of identifier
  (big-endian) and a payload. Slices that would panic in Rust are options here, so that
  \<open>decode_request\<close> returning \<^const>\<open>Some\<close> for every input is the absence of panics.
\<close>

section \<open>Message types\<close>

definition CONNECT :: u8 where "CONNECT = 0x01"
definition BIND :: u8 where "BIND = 0x02"
definition LISTEN :: u8 where "LISTEN = 0x03"
definition SEND :: u8 where "SEND = 0x04"
definition CLOSE :: u8 where "CLOSE = 0x05"
definition CONNECT_UDP :: u8 where "CONNECT_UDP = 0x06"
definition SEND_TO :: u8 where "SEND_TO = 0x07"
definition RESOLVE :: u8 where "RESOLVE = 0x08"
definition CONNECT_TLS :: u8 where "CONNECT_TLS = 0x09"

definition CONNECTED :: u8 where "CONNECTED = 0x81"
definition DATA :: u8 where "DATA = 0x82"
definition LISTENING :: u8 where "LISTENING = 0x83"
definition ACCEPTED :: u8 where "ACCEPTED = 0x84"
definition CLOSED :: u8 where "CLOSED = 0x85"
definition ERROR :: u8 where "ERROR = 0x86"
definition DENIED :: u8 where "DENIED = 0x87"
definition DATA_FROM :: u8 where "DATA_FROM = 0x88"
definition RESOLVED :: u8 where "RESOLVED = 0x89"
definition UDP_BOUND :: u8 where "UDP_BOUND = 0x8A"

lemmas request_types = CONNECT_def BIND_def LISTEN_def SEND_def CLOSE_def CONNECT_UDP_def
  SEND_TO_def RESOLVE_def CONNECT_TLS_def

lemmas event_types = CONNECTED_def DATA_def LISTENING_def ACCEPTED_def CLOSED_def ERROR_def
  DENIED_def DATA_FROM_def RESOLVED_def UDP_BOUND_def

section \<open>Decoding requests\<close>

text \<open>\<^verbatim>\<open>{mt:02x}\<close>\<close>

definition print_hex2 :: "u8 \<Rightarrow> str" where
  "print_hex2 b = (if b < 16 then ''0'' else []) @ print_base 16 (unat b)"

definition decode_request :: "codec_lib \<Rightarrow> u8 list \<Rightarrow> request rresult option" where
  "decode_request lib data =
     (if length data < 9 then Some (Inl ''binary frame too short'')
      else do {
        mt \<leftarrow> index data 0;
        id_bytes \<leftarrow> slice data 1 9;
        let i = from_be_bytes_u64 id_bytes;
        payload \<leftarrow> slice_from data 9;
        if mt \<in> {CONNECT, BIND, CONNECT_UDP, CONNECT_TLS} then
          (if length payload < 2 then Some (Inl ''frame missing port'')
           else do {
             port_bytes \<leftarrow> slice payload 0 2;
             let port = from_be_bytes_u16 port_bytes;
             addr_bytes \<leftarrow> slice_from payload 2;
             case from_utf8 addr_bytes of
               Inl e \<Rightarrow> Some (Inl (''bad addr: '' @ utf8_error_to_string e))
             | Inr addr \<Rightarrow>
                 if mt = CONNECT then Some (Inr (Connect i addr port))
                 else if mt = BIND then Some (Inr (Bind i addr port))
                 else if mt = CONNECT_UDP then Some (Inr (ConnectUdp i addr port))
                 else if mt = CONNECT_TLS then Some (Inr (ConnectTls i addr port))
                 else None
           })
        else if mt = LISTEN then
          (if 4 \<le> length payload
           then do {
             backlog_bytes \<leftarrow> slice payload 0 4;
             Some (Inr (Listen i (from_be_bytes_u32 backlog_bytes)))
           }
           else Some (Inr (Listen i 128)))
        else if mt = SEND then Some (Inr (Send i (b64_encode lib payload)))
        else if mt = CLOSE then Some (Inr (Close i))
        else if mt = SEND_TO then
          (if length payload < 4 then Some (Inl ''send_to frame too short'')
           else do {
             port_bytes \<leftarrow> slice payload 0 2;
             let port = from_be_bytes_u16 port_bytes;
             len_bytes \<leftarrow> slice payload 2 4;
             let addr_len = unat (from_be_bytes_u16 len_bytes);
             if length payload < 4 + addr_len then Some (Inl ''send_to addr truncated'')
             else do {
               addr_bytes \<leftarrow> slice payload 4 (4 + addr_len);
               case from_utf8 addr_bytes of
                 Inl e \<Rightarrow> Some (Inl (''bad addr: '' @ utf8_error_to_string e))
               | Inr addr \<Rightarrow> do {
                   raw \<leftarrow> slice_from payload (4 + addr_len);
                   Some (Inr (SendTo i addr port (b64_encode lib raw)))
                 }
             }
           })
        else if mt = RESOLVE then
          (case from_utf8 payload of
             Inl e \<Rightarrow> Some (Inl (''bad name: '' @ utf8_error_to_string e))
           | Inr name \<Rightarrow> Some (Inr (Resolve i name)))
        else Some (Inl (''unknown message type: 0x'' @ print_hex2 mt))
      })"

section \<open>Encoding events\<close>

definition frame :: "u8 \<Rightarrow> u64 \<Rightarrow> u8 list \<Rightarrow> u8 list" where
  "frame mt i payload = mt # to_be_bytes_u64 i @ payload"

definition unwrap_or_empty :: "'a list option \<Rightarrow> 'a list" where
  "unwrap_or_empty r = (case r of Some xs \<Rightarrow> xs | None \<Rightarrow> [])"

fun encode_event :: "codec_lib \<Rightarrow> event \<Rightarrow> u8 list" where
  "encode_event lib (Connected i) = frame CONNECTED i []"
| "encode_event lib (Data i data) = frame DATA i (unwrap_or_empty (b64_decode lib data))"
| "encode_event lib (Listening i port) = frame LISTENING i (to_be_bytes_u16 port)"
| "encode_event lib (Accepted i conn_id remote) =
     frame ACCEPTED i (to_be_bytes_u64 conn_id @ as_bytes remote)"
| "encode_event lib (Closed i) = frame CLOSED i []"
| "encode_event lib (Error i msg) = frame ERROR i (as_bytes msg)"
| "encode_event lib (Denied i msg) = frame DENIED i (as_bytes msg)"
| "encode_event lib (DataFrom i data addr port) =
     frame DATA_FROM i
       (to_be_bytes_u16 port @ to_be_bytes_u16 (of_nat (length (as_bytes addr))) @ as_bytes addr
        @ unwrap_or_empty (b64_decode lib data))"
| "encode_event lib (Resolved i addrs) = frame RESOLVED i (unwrap_or_empty (json_to_vec lib addrs))"
| "encode_event lib (UdpBound i port) = frame UDP_BOUND i (to_be_bytes_u16 port)"


section \<open>Frames\<close>

lemma length_frame [simp, codec_simps]: "length (frame mt i payload) = 9 + length payload"
  by (simp add: frame_def codec_simps)

lemma frame_fields [simp]:
  "frame mt i payload ! 0 = mt"
  "take 8 (drop (Suc 0) (frame mt i payload)) = to_be_bytes_u64 i"
  "drop 9 (frame mt i payload) = payload"
  by (simp_all add: frame_def codec_simps)

lemma frame_exhaust:
  assumes "9 \<le> length data"
  obtains mt i payload where "data = frame mt i payload"
proof -
  from assms obtain mt rest where data: "data = mt # rest" and "8 \<le> length rest"
    by (cases data) auto
  then have "data = frame mt (from_be_bytes_u64 (take 8 rest)) (drop 8 rest)"
    using be64.field_split [of rest] by (simp add: frame_def)
  then show ?thesis by (rule that)
qed

lemma frame_inject: "frame mt i p = frame mt' i' p' \<longleftrightarrow> mt = mt' \<and> i = i' \<and> p = p'"
  by (auto simp: frame_def append_eq_append_conv be64.enc_length be64.enc_inject)

text \<open>What the decoder does with a frame, per message type.\<close>

abbreviation host_port_request :: "u8 \<Rightarrow> u64 \<Rightarrow> str \<Rightarrow> u16 \<Rightarrow> request" where
  "host_port_request mt i addr port \<equiv>
     (if mt = CONNECT then Connect i addr port else if mt = BIND then Bind i addr port
      else if mt = CONNECT_UDP then ConnectUdp i addr port else ConnectTls i addr port)"

lemma decode_short: "length data < 9 \<Longrightarrow> decode_request lib data = Some (Inl ''binary frame too short'')"
  by (simp add: decode_request_def)

lemma decode_host_port:
  assumes "mt \<in> {CONNECT, BIND, CONNECT_UDP, CONNECT_TLS}"
  shows "decode_request lib (frame mt i payload) =
    Some (if length payload < 2 then Inl ''frame missing port''
          else case from_utf8 (drop 2 payload) of
                 Inl e \<Rightarrow> Inl (''bad addr: '' @ utf8_error_to_string e)
               | Inr addr \<Rightarrow> Inr (host_port_request mt i addr (from_be_bytes_u16 (take 2 payload))))"
  using assms by (auto simp: decode_request_def codec_simps request_types split: sum.splits)

lemma decode_listen:
  "decode_request lib (frame LISTEN i payload) =
    Some (Inr (Listen i (if 4 \<le> length payload then from_be_bytes_u32 (take 4 payload) else default_backlog)))"
  by (simp add: decode_request_def codec_simps request_types default_backlog_def)

lemma decode_send: "decode_request lib (frame SEND i payload) = Some (Inr (Send i (b64_encode lib payload)))"
  by (simp add: decode_request_def codec_simps request_types)

lemma decode_close: "decode_request lib (frame CLOSE i payload) = Some (Inr (Close i))"
  by (simp add: decode_request_def codec_simps request_types)

lemma decode_send_to:
  "decode_request lib (frame SEND_TO i payload) =
    Some (if length payload < 4 then Inl ''send_to frame too short''
          else let n = unat (from_be_bytes_u16 (take 2 (drop 2 payload))) in
            if length payload < 4 + n then Inl ''send_to addr truncated''
            else case from_utf8 (take n (drop 4 payload)) of
                   Inl e \<Rightarrow> Inl (''bad addr: '' @ utf8_error_to_string e)
                 | Inr addr \<Rightarrow> Inr (SendTo i addr (from_be_bytes_u16 (take 2 payload))
                                      (b64_encode lib (drop (4 + n) payload))))"
  by (auto simp: decode_request_def codec_simps request_types Let_def split: sum.splits)

lemma decode_resolve:
  "decode_request lib (frame RESOLVE i payload) =
    Some (case from_utf8 payload of
            Inl e \<Rightarrow> Inl (''bad name: '' @ utf8_error_to_string e)
          | Inr name \<Rightarrow> Inr (Resolve i name))"
  by (simp add: decode_request_def codec_simps request_types split: sum.splits)

definition known_request :: "u8 \<Rightarrow> bool" where
  "known_request mt \<longleftrightarrow> mt \<in> {CONNECT, BIND, CONNECT_UDP, CONNECT_TLS, LISTEN, SEND, CLOSE, SEND_TO, RESOLVE}"

lemma decode_unknown:
  assumes "\<not> known_request mt"
  shows "decode_request lib (frame mt i payload) = Some (Inl (''unknown message type: 0x'' @ print_hex2 mt))"
  using assms by (simp add: decode_request_def codec_simps known_request_def)

lemma request_type_cases:
  obtains "mt \<in> {CONNECT, BIND, CONNECT_UDP, CONNECT_TLS}" | "mt = LISTEN" | "mt = SEND" | "mt = CLOSE"
    | "mt = SEND_TO" | "mt = RESOLVE" | "\<not> known_request mt"
  by (auto simp: known_request_def)

lemmas decode_frame_simps = decode_host_port decode_listen decode_send decode_close decode_send_to
  decode_resolve decode_unknown

section \<open>Properties of the codec\<close>

text \<open>C26. Decoding a binary frame never panics, whatever bytes the client sends: every slice and every
  fixed-width conversion is in range and the \<^verbatim>\<open>unreachable!()\<close> arm is unreachable.\<close>

theorem decode_request_never_panics: "decode_request lib data \<noteq> None"
proof (cases "length data < 9")
  case True
  then show ?thesis by (simp add: decode_short)
next
  case False
  then obtain mt i payload where data: "data = frame mt i payload"
    by (metis frame_exhaust not_less)
  show ?thesis
    by (cases mt rule: request_type_cases) (auto simp: data decode_frame_simps)
qed


text \<open>Every event is one frame, with the event's identifier and a type byte of the server's half.\<close>

lemma encode_event_frame:
  obtains mt payload where "encode_event lib ev = frame mt (event_id ev) payload" and "\<not> known_request mt"
proof -
  have "\<exists>mt payload. encode_event lib ev = frame mt (event_id ev) payload \<and> \<not> known_request mt"
    by (cases ev) (auto simp: frame_inject event_types request_types known_request_def)
  with that show ?thesis by blast
qed

text \<open>The two directions of the protocol cannot be confused: a frame the server sends for an event is
  refused by the server's own request decoder as an unknown message type.\<close>

lemma event_frames_are_not_requests:
  "\<exists>e. decode_request lib (encode_event lib ev) = Some (Inl (''unknown message type: 0x'' @ e))"
proof -
  obtain mt payload where "encode_event lib ev = frame mt (event_id ev) payload" "\<not> known_request mt"
    by (rule encode_event_frame)
  then show ?thesis by (auto simp: decode_unknown)
qed

end
