(* ===== verification/Rust_F64.thy ===== *)
theory Rust_F64
  imports Complex_Main Rust_Num
begin

text \<open>
  What the sources use of Rust's \<^verbatim>\<open>f64\<close> and \<^verbatim>\<open>Duration\<close>: a double is the rational number it denotes, and
  every operation rounds the exact result to the nearest double, ties to even (53 significant bits,
  subnormals below \<open>2 powi -1022\<close>). Overflow to infinity is left out: the rate limiter's
  quantities stay far below \<open>2 ^ 1023\<close>. What a client relies on is the locale \<open>float_format\<close>. A \<^verbatim>\<open>Duration\<close> or
  \<^verbatim>\<open>Instant\<close> is a number of nanoseconds.
\<close>

section \<open>Rounding\<close>

definition round_half_even :: "rat \<Rightarrow> int" where
  "round_half_even x =
     (let f = \<lfloor>x\<rfloor>; r = x - of_int f in
      if 1 / 2 < r \<or> (r = 1 / 2 \<and> odd f) then f + 1 else f)"

text \<open>The exponent of a positive number: \<open>2 powi ilog2 x \<le> x < 2 powi (ilog2 x + 1)\<close>.\<close>

definition ilog2 :: "rat \<Rightarrow> int" where
  "ilog2 x =
     (let (n, d) = quotient_of x; k = int (bit_length (nat n)) - int (bit_length (nat d)) in
      if 2 powi k \<le> x then k else k - 1)"

definition ulp_exponent :: "rat \<Rightarrow> int" where
  "ulp_exponent x = max (ilog2 x - 52) (-1074)"

definition f64_round_pos :: "rat \<Rightarrow> rat" where
  "f64_round_pos x =
     (let e = ulp_exponent x in of_int (round_half_even (x / 2 powi e)) * 2 powi e)"

definition f64_round :: "rat \<Rightarrow> rat" where
  "f64_round x = (if x = 0 then 0 else if 0 < x then f64_round_pos x else - f64_round_pos (- x))"

lemma round_half_even_of_int [simp]: "round_half_even (of_int k) = k"
  by (simp add: round_half_even_def)

lemma round_half_even_bounds: "\<lfloor>x\<rfloor> \<le> round_half_even x \<and> round_half_even x \<le> \<lfloor>x\<rfloor> + 1"
  by (simp add: round_half_even_def Let_def)

lemma round_half_even_mono: "x \<le> y \<Longrightarrow> round_half_even x \<le> round_half_even y"
proof (cases "\<lfloor>x\<rfloor> = \<lfloor>y\<rfloor>")
  case True
  assume "x \<le> y"
  with True show ?thesis by (auto simp: round_half_even_def Let_def)
next
  case False
  assume "x \<le> y"
  with False have "\<lfloor>x\<rfloor> + 1 \<le> \<lfloor>y\<rfloor>" using floor_mono [of x y] by linarith
  then show ?thesis using round_half_even_bounds [of x] round_half_even_bounds [of y] by linarith
qed

lemma round_half_even_le: "x \<le> of_int k \<Longrightarrow> round_half_even x \<le> k"
  using round_half_even_mono [of x "of_int k"] by simp

lemma round_half_even_ge: "of_int k \<le> x \<Longrightarrow> k \<le> round_half_even x"
  using round_half_even_mono [of "of_int k" x] by simp

lemma powi_two_div: "(2::rat) ^ a / 2 ^ b = 2 powi (int a - int b)"
  by (simp add: power_int_diff)

lemma ilog2_bounds:
  assumes "0 < x"
  shows "2 powi ilog2 x \<le> x \<and> x < 2 powi (ilog2 x + 1)"
proof -
  obtain n d where q: "quotient_of x = (n, d)" by (cases "quotient_of x")
  then have d: "0 < d" and x: "x = of_int n / of_int d"
    by (simp_all add: quotient_of_denom_pos quotient_of_div)
  with assms have n: "0 < n" by (simp add: zero_less_divide_iff)
  let ?a = "bit_length (nat n)" and ?b = "bit_length (nat d)"
  have up: "of_int m < (2::rat) ^ bit_length (nat m)" and low: "(2::rat) ^ (bit_length (nat m) - 1) \<le> of_int m"
    if "0 < m" for m
  proof -
    have "rat_of_nat (nat m) < of_nat (2 ^ bit_length (nat m))"
      unfolding of_nat_less_iff by (rule bit_length_less)
    with that show "of_int m < (2::rat) ^ bit_length (nat m)" by simp
    have "rat_of_nat (2 ^ (bit_length (nat m) - 1)) \<le> of_nat (nat m)"
      unfolding of_nat_le_iff using that by (intro bit_length_le) simp
    with that show "(2::rat) ^ (bit_length (nat m) - 1) \<le> of_int m" by simp
  qed
  have pos: "0 < ?a" "0 < ?b" using n d by (subst bit_length.simps; simp)+
  have "of_int n / of_int d < (2::rat) ^ ?a / 2 ^ (?b - 1)"
    using up [OF n] low [OF d] n d by (intro frac_less) auto
  also have "\<dots> = 2 powi (int ?a - int ?b + 1)"
    using pos by (simp only: powi_two_div) (simp add: of_nat_diff algebra_simps)
  finally have upper: "x < 2 powi (int ?a - int ?b + 1)" using x by simp
  have "(2::rat) ^ (?a - 1) / 2 ^ ?b \<le> of_int n / of_int d"
    using low [OF n] up [OF d] n d by (intro frac_le) (auto simp del: of_int_power)
  moreover have "(2::rat) ^ (?a - 1) / 2 ^ ?b = 2 powi (int ?a - int ?b - 1)"
    using pos by (simp only: powi_two_div) (simp add: of_nat_diff algebra_simps)
  ultimately have "2 powi (int ?a - int ?b - 1) \<le> x" using x by simp
  with upper show ?thesis by (auto simp: ilog2_def q Let_def)
qed

lemma powi_two_mono: "a \<le> b \<Longrightarrow> (2::rat) powi a \<le> 2 powi b"
  by (rule power_int_increasing) auto

lemma powi_two_strict: "(2::rat) powi a < 2 powi b \<Longrightarrow> a < b"
  using powi_two_mono [of b a] by (rule_tac ccontr) simp

lemma powi_two_split: "e \<le> k \<Longrightarrow> (2::rat) powi k = of_int (2 ^ nat (k - e)) * 2 powi e"
proof -
  assume "e \<le> k"
  then have "k = int (nat (k - e)) + e" by simp
  then have "(2::rat) powi k = 2 powi (int (nat (k - e)) + e)" by (rule arg_cong)
  then show ?thesis by (simp add: power_int_add del: int_nat_eq)
qed

lemma ilog2_mono: "0 < x \<Longrightarrow> x \<le> y \<Longrightarrow> ilog2 x \<le> ilog2 y"
  using ilog2_bounds [of x] ilog2_bounds [of y] powi_two_strict [of "ilog2 x" "ilog2 y + 1"]
  by linarith

lemma ulp_exponent_mono: "0 < x \<Longrightarrow> x \<le> y \<Longrightarrow> ulp_exponent x \<le> ulp_exponent y"
  using ilog2_mono [of x y] by (simp add: ulp_exponent_def)

text \<open>Multiples of the unit in the last place are doubles, and bounds by them survive rounding.\<close>

lemma f64_round_pos_le:
  assumes "x \<le> of_int m * 2 powi ulp_exponent x"
  shows "f64_round_pos x \<le> of_int m * 2 powi ulp_exponent x"
proof -
  have "x / 2 powi ulp_exponent x \<le> of_int m" using assms by (simp add: divide_le_eq)
  then have "round_half_even (x / 2 powi ulp_exponent x) \<le> m" by (rule round_half_even_le)
  then show ?thesis by (simp add: f64_round_pos_def Let_def mult_right_mono)
qed

lemma f64_round_pos_ge:
  assumes "of_int m * 2 powi ulp_exponent x \<le> x"
  shows "of_int m * 2 powi ulp_exponent x \<le> f64_round_pos x"
proof -
  have "of_int m \<le> x / 2 powi ulp_exponent x" using assms by (simp add: le_divide_eq)
  then have "m \<le> round_half_even (x / 2 powi ulp_exponent x)" by (rule round_half_even_ge)
  then show ?thesis by (simp add: f64_round_pos_def Let_def mult_right_mono)
qed

lemma f64_round_pos_mono:
  assumes "0 < x" and "x \<le> y"
  shows "f64_round_pos x \<le> f64_round_pos y"
proof (cases "ulp_exponent x = ulp_exponent y")
  case True
  have "x / 2 powi ulp_exponent x \<le> y / 2 powi ulp_exponent x"
    using assms by (simp add: divide_right_mono)
  from round_half_even_mono [OF this] show ?thesis
    by (simp add: f64_round_pos_def Let_def True mult_right_mono)
next
  case False
  with ulp_exponent_mono [OF assms] have lt: "ulp_exponent x < ulp_exponent y" by simp
  then have ey: "ulp_exponent y = ilog2 y - 52" and lg: "ilog2 x < ilog2 y" and ex: "ulp_exponent x \<le> ilog2 y"
    by (auto simp: ulp_exponent_def max_def split: if_splits)
  have "x \<le> 2 powi (ilog2 x + 1)" using ilog2_bounds [OF assms(1)] by simp
  also have "\<dots> \<le> 2 powi ilog2 y" using lg by (intro powi_two_mono) simp
  finally have "f64_round_pos x \<le> 2 powi ilog2 y"
    using f64_round_pos_le [of x "2 ^ nat (ilog2 y - ulp_exponent x)"]
    by (simp only: powi_two_split [OF ex])
  also have "\<dots> \<le> f64_round_pos y"
  proof -
    have "ulp_exponent y \<le> ilog2 y" using ey by simp
    from powi_two_split [OF this] ilog2_bounds [of y] assms show ?thesis
      using f64_round_pos_ge [of "2 ^ nat (ilog2 y - ulp_exponent y)" y] by simp
  qed
  finally show ?thesis .
qed

lemma f64_round_pos_grid: "of_int m * 2 powi ulp_exponent x = x \<Longrightarrow> f64_round_pos x = x"
  using f64_round_pos_le [of x m] f64_round_pos_ge [of m x] by simp

lemma f64_round_pos_two_power: "f64_round_pos (2 ^ k) = 2 ^ k"
proof -
  let ?x = "2 ^ k :: rat"
  have x: "?x = 2 powi int k" by simp
  have "2 powi ilog2 ?x < (2::rat) powi (int k + 1)"
    using ilog2_bounds [of ?x] power_int_strict_increasing [of "int k" "int k + 1" "2::rat"] unfolding x by simp
  then have "ilog2 ?x < int k + 1" by (rule powi_two_strict)
  then have "ulp_exponent ?x \<le> int k" by (simp add: ulp_exponent_def)
  from powi_two_split [OF this] show ?thesis
    by (intro f64_round_pos_grid [of "2 ^ nat (int k - ulp_exponent ?x)"]) simp
qed

lemma f64_round_pos_nat:
  assumes "0 < n" and "n < 2 ^ 53"
  shows "f64_round_pos (of_nat n) = of_nat n"
proof -
  let ?x = "of_nat n :: rat"
  have "?x < of_nat (2 ^ 53)" unfolding of_nat_less_iff by (rule assms(2))
  moreover have "of_nat (2 ^ 53) = (2::rat) powi 53" by (simp add: power_int_def)
  ultimately have "?x < 2 powi 53" by simp
  with ilog2_bounds [of ?x] assms have "2 powi ilog2 ?x < (2::rat) powi 53" by simp
  then have "ilog2 ?x < 53" by (rule powi_two_strict)
  then have e: "ulp_exponent ?x \<le> 0" by (simp add: ulp_exponent_def)
  define m where "m = int n * 2 ^ nat (0 - ulp_exponent ?x)"
  have "of_int m * 2 powi ulp_exponent ?x = ?x * (of_int (2 ^ nat (0 - ulp_exponent ?x)) * 2 powi ulp_exponent ?x)"
    by (simp add: m_def)
  also have "\<dots> = ?x" by (simp only: powi_two_split [OF e, symmetric]) simp
  finally have "of_int m * 2 powi ulp_exponent ?x = ?x" .
  then show ?thesis by (rule f64_round_pos_grid)
qed

section \<open>The interface of a floating-point format\<close>

locale float_format =
  fixes fl :: "rat \<Rightarrow> rat" and precision :: nat
  assumes fl_mono: "0 \<le> x \<Longrightarrow> x \<le> y \<Longrightarrow> fl x \<le> fl y"
    and fl_nat: "n < 2 ^ precision \<Longrightarrow> fl (of_nat n) = of_nat n"
    and fl_two_power: "fl (2 ^ k) = 2 ^ k"
begin

lemma fl_zero: "fl 0 = 0"
  using fl_nat [of 0] by simp

lemma fl_nonneg: "0 \<le> x \<Longrightarrow> 0 \<le> fl x"
  using fl_mono [of 0 x] fl_zero by simp

lemma fl_upper: "0 \<le> x \<Longrightarrow> x \<le> of_nat n \<Longrightarrow> n < 2 ^ precision \<Longrightarrow> fl x \<le> of_nat n"
  using fl_mono [of x "of_nat n"] fl_nat [of n] by simp

lemma fl_upper_power: "0 \<le> x \<Longrightarrow> x \<le> 2 ^ k \<Longrightarrow> fl x \<le> 2 ^ k"
  using fl_mono [of x "2 ^ k"] fl_two_power [of k] by simp

lemma fl_lower: "of_nat n \<le> x \<Longrightarrow> n < 2 ^ precision \<Longrightarrow> of_nat n \<le> fl x"
  using fl_mono [of "of_nat n" x] fl_nat [of n] by simp

end

interpretation f64: float_format f64_round 53
proof
  fix x y :: rat
  assume "0 \<le> x" "x \<le> y"
  show "f64_round x \<le> f64_round y"
  proof (cases "x = 0")
    case True
    with \<open>x \<le> y\<close> show ?thesis
      using f64_round_pos_ge [of 0 y] by (auto simp: f64_round_def)
  next
    case False
    with \<open>0 \<le> x\<close> \<open>x \<le> y\<close> f64_round_pos_mono [of x y] show ?thesis by (simp add: f64_round_def)
  qed
next
  fix n :: nat
  assume "n < 2 ^ 53"
  then show "f64_round (of_nat n) = of_nat n"
    by (cases "n = 0") (simp_all add: f64_round_def f64_round_pos_nat)
next
  fix k :: nat
  show "f64_round (2 ^ k) = 2 ^ k" by (simp add: f64_round_def f64_round_pos_two_power)
qed

lemma f64_round_numeral: "numeral k < (2 ^ 53 :: nat) \<Longrightarrow> f64_round (numeral k) = numeral k"
  using f64.fl_nat [of "numeral k"] by simp

lemma f64_round_0_1 [simp]: "f64_round 0 = 0" "f64_round 1 = 1"
  using f64.fl_zero f64.fl_nat [of 1] by simp_all

section \<open>Arithmetic\<close>

definition f64_add :: "rat \<Rightarrow> rat \<Rightarrow> rat" where "f64_add a b = f64_round (a + b)"
definition f64_sub :: "rat \<Rightarrow> rat \<Rightarrow> rat" where "f64_sub a b = f64_round (a - b)"
definition f64_mul :: "rat \<Rightarrow> rat \<Rightarrow> rat" where "f64_mul a b = f64_round (a * b)"
definition f64_div :: "rat \<Rightarrow> rat \<Rightarrow> rat" where "f64_div a b = f64_round (a / b)"

text \<open>\<^verbatim>\<open>bytes as f64\<close> and \<^verbatim>\<open>f64::from\<close>.\<close>

definition f64_of_nat :: "nat \<Rightarrow> rat" where "f64_of_nat n = f64_round (of_nat n)"

section \<open>Durations\<close>

type_synonym nanos = nat

definition NANOS_PER_SEC :: nat where "NANOS_PER_SEC = 1000000000"

text \<open>\<^verbatim>\<open>Duration::as_secs_f64\<close>: seconds plus nanoseconds over a billion, in doubles.\<close>

definition as_secs_f64 :: "nanos \<Rightarrow> rat" where
  "as_secs_f64 d =
     f64_add (f64_of_nat (d div NANOS_PER_SEC))
       (f64_div (f64_of_nat (d mod NANOS_PER_SEC)) (f64_of_nat NANOS_PER_SEC))"

text \<open>\<^verbatim>\<open>Duration::from_secs_f64\<close> rounds to the nearest nanosecond and panics on a negative number or when the
  seconds do not fit 64 bits.\<close>

definition from_secs_f64 :: "rat \<Rightarrow> nanos option" where
  "from_secs_f64 x =
     (let ns = round_half_even (x * of_nat NANOS_PER_SEC) in
      if x < 0 \<or> int (2 ^ 64 * NANOS_PER_SEC) \<le> ns then None else Some (nat ns))"

text \<open>\<^verbatim>\<open>Instant::duration_since\<close> saturates at zero, as subtraction of natural numbers does.\<close>

definition duration_since :: "nanos \<Rightarrow> nanos \<Rightarrow> nanos" where
  "duration_since later earlier = later - earlier"

lemma as_secs_f64_nonneg: "0 \<le> as_secs_f64 d"
  unfolding as_secs_f64_def f64_add_def f64_div_def f64_of_nat_def
  by (intro f64.fl_nonneg add_nonneg_nonneg divide_nonneg_nonneg) auto

lemma as_secs_f64_second [simp]: "as_secs_f64 NANOS_PER_SEC = 1"
  by (simp add: as_secs_f64_def f64_add_def f64_div_def f64_of_nat_def NANOS_PER_SEC_def)

lemma as_secs_f64_0 [simp]: "as_secs_f64 0 = 0"
  by (simp add: as_secs_f64_def f64_add_def f64_div_def f64_of_nat_def)

lemma from_secs_f64_1 [simp]: "from_secs_f64 1 = Some NANOS_PER_SEC"
proof -
  have "round_half_even (of_nat NANOS_PER_SEC) = int NANOS_PER_SEC"
    using round_half_even_of_int [of "int NANOS_PER_SEC"] by simp
  then show ?thesis by (simp add: from_secs_f64_def NANOS_PER_SEC_def)
qed

end
