(* ===== verification/Rate_Limit.thy ===== *)
theory Rate_Limit
  imports Rust_F64
begin

text \<open>
  \<^verbatim>\<open>src/rate_limit.rs\<close>: the token bucket that throttles the data paths. The bucket's mutex serialises the
  calls, so a run is a list of calls, each with the instant it reads from the clock; a call returns the
  new bucket and how long the caller then sleeps (with the mutex released). The outer \<^const>\<open>None\<close> is the panic
  of \<^verbatim>\<open>Duration::from_secs_f64\<close>.
\<close>

section \<open>Operations\<close>

record bucket =
  tokens :: rat
  capacity :: rat
  refill_rate :: rat
  last_refill :: nanos

record rate_limiter =
  inner :: "bucket option"

definition unlimited :: rate_limiter where
  "unlimited = \<lparr>inner = None\<rparr>"

definition RateLimiter_new :: "u32 \<Rightarrow> nanos \<Rightarrow> rate_limiter" where
  "RateLimiter_new max_bandwidth_mbps now =
     (if max_bandwidth_mbps = 0 then \<lparr>inner = None\<rparr>
      else let bps = f64_div (f64_mul (f64_of_nat (unat max_bandwidth_mbps)) 1000000) 8 in
        \<lparr>inner = Some \<lparr>tokens = bps, capacity = bps, refill_rate = bps, last_refill = now\<rparr>\<rparr>)"

definition refill :: "nanos \<Rightarrow> bucket \<Rightarrow> bucket" where
  "refill now b =
     (let elapsed = as_secs_f64 (duration_since now (last_refill b)) in
      b\<lparr>last_refill := now,
        tokens := min (f64_add (tokens b) (f64_mul elapsed (refill_rate b))) (capacity b)\<rparr>)"

definition take_tokens :: "usize \<Rightarrow> bucket \<Rightarrow> (bucket \<times> nanos option) option" where
  "take_tokens bytes b =
     (let needed = f64_of_nat (unat bytes) in
      if needed \<le> tokens b then Some (b\<lparr>tokens := f64_sub (tokens b) needed\<rparr>, None)
      else let deficit = f64_sub needed (tokens b) in
        (case from_secs_f64 (f64_div deficit (refill_rate b)) of
           None \<Rightarrow> None
         | Some wait \<Rightarrow> Some (b\<lparr>tokens := 0\<rparr>, Some wait)))"

definition consume :: "usize \<Rightarrow> nanos \<Rightarrow> rate_limiter \<Rightarrow> (rate_limiter \<times> nanos option) option" where
  "consume bytes now rl =
     (case inner rl of
        None \<Rightarrow> Some (rl, None)
      | Some b \<Rightarrow> map_option (\<lambda>(b', wait). (\<lparr>inner = Some b'\<rparr>, wait)) (take_tokens bytes (refill now b)))"

text \<open>A run: each call with the instant it reads. Callers interleave freely, so the instants are arbitrary.\<close>

fun consume_all :: "(nanos \<times> usize) list \<Rightarrow> rate_limiter \<Rightarrow> (rate_limiter \<times> nanos option list) option" where
  "consume_all [] rl = Some (rl, [])"
| "consume_all ((now, bytes) # calls) rl =
     (case consume bytes now rl of
        None \<Rightarrow> None
      | Some (rl', wait) \<Rightarrow> map_option (\<lambda>(rl'', waits). (rl'', wait # waits)) (consume_all calls rl'))"

text \<open>One caller that makes each call as soon as the previous one returned, as the bridge loops do; the
  result is the instant the last call returns.\<close>

fun back_to_back :: "usize list \<Rightarrow> nanos \<Rightarrow> rate_limiter \<Rightarrow> (rate_limiter \<times> nanos) option" where
  "back_to_back [] now rl = Some (rl, now)"
| "back_to_back (bytes # rest) now rl =
     (case consume bytes now rl of
        None \<Rightarrow> None
      | Some (rl', None) \<Rightarrow> back_to_back rest now rl'
      | Some (rl', Some wait) \<Rightarrow> back_to_back rest (now + wait) rl')"

section \<open>The bucket invariant\<close>

text \<open>Bytes per second of a limit in megabits per second.\<close>

definition bytes_per_sec :: "u32 \<Rightarrow> nat" where
  "bytes_per_sec mbps = 125000 * unat mbps"

definition bucket_ok :: "u32 \<Rightarrow> bucket \<Rightarrow> bool" where
  "bucket_ok mbps b \<longleftrightarrow>
     mbps \<noteq> 0 \<and> capacity b = of_nat (bytes_per_sec mbps) \<and> refill_rate b = capacity b \<and>
     0 \<le> tokens b \<and> tokens b \<le> capacity b"

definition limiter_ok :: "u32 \<Rightarrow> rate_limiter \<Rightarrow> bool" where
  "limiter_ok mbps rl = (case inner rl of None \<Rightarrow> mbps = 0 | Some b \<Rightarrow> bucket_ok mbps b)"

lemma unat_pos: "w \<noteq> 0 \<Longrightarrow> 0 < unat (w :: 'a::len word)"
  by (simp add: unat_gt_0)

lemma bytes_per_sec_bounds:
  "bytes_per_sec mbps < 2 ^ 53" "mbps \<noteq> 0 \<Longrightarrow> 125000 \<le> bytes_per_sec mbps"
  using unat_lt_2p [of mbps] unat_pos [of mbps] by (simp_all add: bytes_per_sec_def)

lemma new_bps:
  "f64_div (f64_mul (f64_of_nat (unat (mbps :: u32))) 1000000) 8 = of_nat (bytes_per_sec mbps)"
proof -
  have "f64_round (of_nat (unat mbps)) = of_nat (unat mbps)"
    using unat_lt_2p [of mbps] by (intro f64.fl_nat) simp
  moreover have "f64_round (of_nat (unat mbps * 1000000)) = of_nat (unat mbps * 1000000)"
    using unat_lt_2p [of mbps] by (intro f64.fl_nat) simp
  moreover have "of_nat (unat mbps * 1000000) / 8 = (of_nat (bytes_per_sec mbps) :: rat)"
    by (simp add: bytes_per_sec_def)
  ultimately show ?thesis
    using f64.fl_nat [OF bytes_per_sec_bounds(1), of mbps]
    by (simp add: f64_div_def f64_mul_def f64_of_nat_def)
qed

lemma limiter_ok_new: "limiter_ok mbps (RateLimiter_new mbps now)"
  by (simp add: limiter_ok_def bucket_ok_def RateLimiter_new_def new_bps Let_def)

lemma refill_ok:
  assumes "bucket_ok mbps b"
  shows "bucket_ok mbps (refill now b) \<and> last_refill (refill now b) = now"
proof -
  have "0 \<le> f64_add (tokens b) (f64_mul (as_secs_f64 d) (refill_rate b))" for d
    unfolding f64_add_def f64_mul_def using assms as_secs_f64_nonneg [of d]
    by (intro f64.fl_nonneg add_nonneg_nonneg mult_nonneg_nonneg) (auto simp: bucket_ok_def)
  with assms show ?thesis by (simp add: refill_def bucket_ok_def Let_def)
qed

text \<open>The wait of a caller that runs short: at most \<open>2 ^ 48\<close> seconds whatever the size of the call, far from
  the limit of a \<^verbatim>\<open>Duration\<close>.\<close>

lemma wait_defined:
  assumes "bucket_ok mbps b" and "tokens b < f64_of_nat (unat (bytes :: usize))"
  shows "\<exists>wait. from_secs_f64 (f64_div (f64_sub (f64_of_nat (unat bytes)) (tokens b)) (refill_rate b)) = Some wait"
proof -
  define need where "need = f64_of_nat (unat bytes)"
  define wait where "wait = f64_div (f64_sub need (tokens b)) (refill_rate b)"
  have "rat_of_nat (unat bytes) \<le> of_nat (2 ^ 64)"
    unfolding of_nat_le_iff using unat_lt_2p [of bytes] by simp
  then have "rat_of_nat (unat bytes) \<le> 2 ^ 64" by (simp only: of_nat_power of_nat_numeral)
  then have "need \<le> 2 ^ 64" unfolding need_def f64_of_nat_def by (intro f64.fl_upper_power of_nat_0_le_iff)
  moreover have "0 \<le> tokens b" using assms(1) by (simp add: bucket_ok_def)
  moreover have "tokens b < need" using assms(2) by (simp add: need_def)
  ultimately have short: "0 \<le> f64_sub need (tokens b)" "f64_sub need (tokens b) \<le> 2 ^ 64"
    unfolding f64_sub_def by (intro f64.fl_nonneg f64.fl_upper_power; simp)+
  have rate: "125000 \<le> refill_rate b"
    using assms(1) bytes_per_sec_bounds(2) [of mbps] by (simp add: bucket_ok_def)
  have "f64_sub need (tokens b) / refill_rate b \<le> 2 ^ 64 / 125000"
    using short rate by (intro frac_le) auto
  also have "\<dots> \<le> (2 ^ 48 :: rat)" by simp
  finally have "f64_sub need (tokens b) / refill_rate b \<le> 2 ^ 48" .
  with short rate have "0 \<le> wait" "wait \<le> 2 ^ 48"
    unfolding wait_def f64_div_def by (intro f64.fl_nonneg f64.fl_upper_power; simp)+
  then have "round_half_even (wait * of_nat NANOS_PER_SEC) \<le> 2 ^ 48 * int NANOS_PER_SEC"
    by (intro round_half_even_le) (simp add: mult_right_mono)
  with \<open>0 \<le> wait\<close> show ?thesis
    by (simp add: from_secs_f64_def NANOS_PER_SEC_def flip: wait_def need_def)
qed

lemma take_tokens_ok:
  assumes "bucket_ok mbps b"
  shows "\<exists>b' wait. take_tokens bytes b = Some (b', wait) \<and> bucket_ok mbps b'"
proof (cases "f64_of_nat (unat bytes) \<le> tokens b")
  case True
  have "0 \<le> f64_of_nat (unat bytes)" unfolding f64_of_nat_def by (intro f64.fl_nonneg of_nat_0_le_iff)
  with True assms have "0 \<le> f64_sub (tokens b) (f64_of_nat (unat bytes))"
      "f64_sub (tokens b) (f64_of_nat (unat bytes)) \<le> of_nat (bytes_per_sec mbps)"
    unfolding f64_sub_def
    by (intro f64.fl_nonneg f64.fl_upper bytes_per_sec_bounds; simp add: bucket_ok_def)+
  with True assms show ?thesis by (simp add: take_tokens_def bucket_ok_def Let_def)
next
  case False
  with wait_defined [OF assms, of bytes] assms show ?thesis
    by (auto simp: take_tokens_def bucket_ok_def Let_def)
qed

lemma consume_ok:
  assumes "limiter_ok mbps rl"
  shows "\<exists>rl' wait. consume bytes now rl = Some (rl', wait) \<and> limiter_ok mbps rl'"
proof (cases "inner rl")
  case None
  with assms show ?thesis by (simp add: consume_def)
next
  case (Some b)
  with assms have "bucket_ok mbps (refill now b)" by (simp add: limiter_ok_def refill_ok)
  from take_tokens_ok [OF this, of bytes] Some show ?thesis
    by (auto simp: consume_def limiter_ok_def)
qed

section \<open>Properties\<close>

text \<open>Whatever the limit and whatever calls are made, of any size and at any instants, no call panics, one wait
  (or none) is decided per call, and the bucket stays within its bounds: between nothing and one second's worth of the
  configured rate, with the rate itself never changing.\<close>

lemma limiter_never_panics:
  "\<exists>rl waits. consume_all calls (RateLimiter_new mbps start) = Some (rl, waits) \<and>
    length waits = length calls \<and> limiter_ok mbps rl"
proof -
  have "\<exists>rl' waits. consume_all calls rl = Some (rl', waits) \<and> length waits = length calls \<and> limiter_ok mbps rl'"
    if "limiter_ok mbps rl" for rl
    using that
  proof (induction calls arbitrary: rl)
    case (Cons c calls)
    obtain now bytes where c: "c = (now, bytes)" by (cases c)
    from consume_ok [OF Cons.prems, of bytes now] obtain rl' wait where
      "consume bytes now rl = Some (rl', wait)" "limiter_ok mbps rl'" by blast
    with Cons.IH [of rl'] show ?case by (auto simp: c)
  qed simp
  then show ?thesis using limiter_ok_new by blast
qed

lemma refill_keeps:
  assumes "bucket_ok mbps b" and "of_nat n \<le> tokens b" and "n < 2 ^ 53"
  shows "of_nat n \<le> tokens (refill now b)"
proof -
  have "of_nat n \<le> f64_add (tokens b) (f64_mul (as_secs_f64 d) (refill_rate b))" for d
  proof -
    have "0 \<le> f64_mul (as_secs_f64 d) (refill_rate b)"
      unfolding f64_mul_def using assms(1) as_secs_f64_nonneg [of d]
      by (intro f64.fl_nonneg mult_nonneg_nonneg) (auto simp: bucket_ok_def)
    with assms(2) have "of_nat n \<le> tokens b + f64_mul (as_secs_f64 d) (refill_rate b)" by simp
    with assms(3) show ?thesis unfolding f64_add_def by (intro f64.fl_lower)
  qed
  with assms(1,2) show ?thesis by (simp add: refill_def bucket_ok_def Let_def)
qed

lemma take_tokens_within:
  assumes "of_nat n \<le> tokens b" and "unat bytes \<le> n" and "n < 2 ^ 53"
  shows "\<exists>b'. take_tokens bytes b = Some (b', None) \<and> of_nat (n - unat bytes) \<le> tokens b'"
proof -
  have need: "f64_of_nat (unat bytes) = rat_of_nat (unat bytes)"
    unfolding f64_of_nat_def using assms by (intro f64.fl_nat) simp
  have le: "rat_of_nat (unat bytes) \<le> of_nat n" unfolding of_nat_le_iff by (rule assms(2))
  have "rat_of_nat (n - unat bytes) \<le> tokens b - of_nat (unat bytes)"
    unfolding of_nat_diff [OF assms(2)] using assms(1) by (intro diff_right_mono)
  then have "rat_of_nat (n - unat bytes) \<le> f64_sub (tokens b) (of_nat (unat bytes))"
    unfolding f64_sub_def using assms(3) by (intro f64.fl_lower) auto
  with le assms(1) show ?thesis
    by (simp add: take_tokens_def need Let_def del: of_nat_unat)
qed

lemma consume_all_within:
  assumes "inner rl = Some b" and "bucket_ok mbps b" and "of_nat n \<le> tokens b" and "n < 2 ^ 53"
    and "sum_list (map (\<lambda>c. unat (snd c)) calls) \<le> n"
  shows "\<exists>rl'. consume_all calls rl = Some (rl', replicate (length calls) None)"
  using assms
proof (induction calls arbitrary: rl b n)
  case (Cons c calls)
  obtain now bytes where c: "c = (now, bytes)" by (cases c)
  have keep: "of_nat n \<le> tokens (refill now b)" using Cons.prems by (intro refill_keeps)
  have "unat bytes \<le> n" using Cons.prems(5) by (simp add: c)
  from take_tokens_within [OF keep this Cons.prems(4)] obtain b' where
    b': "take_tokens bytes (refill now b) = Some (b', None)" "of_nat (n - unat bytes) \<le> tokens b'" by blast
  with take_tokens_ok [of mbps "refill now b" bytes] refill_ok [OF Cons.prems(2)] have "bucket_ok mbps b'" by auto
  with Cons.IH [of "\<lparr>inner = Some b'\<rparr>" b' "n - unat bytes"] Cons.prems b'
  show ?case by (auto simp: c consume_def)
qed simp

text \<open>Bursts pass: as long as the bytes of all calls so far add up to at most one second's worth of the limit, no
  call sleeps, at whatever instants the calls are made.\<close>

lemma burst_within_capacity_never_waits:
  assumes "mbps \<noteq> 0" and "sum_list (map (\<lambda>c. unat (snd c)) calls) \<le> bytes_per_sec mbps"
  shows "\<exists>rl. consume_all calls (RateLimiter_new mbps start) = Some (rl, replicate (length calls) None)"
proof -
  obtain b where b: "inner (RateLimiter_new mbps start) = Some b" "tokens b = of_nat (bytes_per_sec mbps)"
    using assms(1) by (simp add: RateLimiter_new_def new_bps Let_def)
  moreover have "bucket_ok mbps b" using limiter_ok_new [of mbps start] b by (simp add: limiter_ok_def)
  ultimately show ?thesis
    using consume_all_within [of _ b mbps "bytes_per_sec mbps"] assms(2) bytes_per_sec_bounds(1) by simp
qed

text \<open>One call of exactly the bucket's size, on an empty bucket: at once it sleeps a second, a second later it does not
  sleep. Either way the bucket is empty again.\<close>

definition empty_bucket :: "u32 \<Rightarrow> nanos \<Rightarrow> rate_limiter" where
  "empty_bucket mbps now =
     (let bps = of_nat (bytes_per_sec mbps) in
      \<lparr>inner = Some \<lparr>tokens = 0, capacity = bps, refill_rate = bps, last_refill = now\<rparr>\<rparr>)"

lemma f64_of_nat_full:
  "f64_of_nat (unat (of_nat (bytes_per_sec mbps) :: usize)) = of_nat (bytes_per_sec mbps)"
proof -
  have "unat (of_nat (bytes_per_sec mbps) :: usize) = bytes_per_sec mbps"
    using bytes_per_sec_bounds(1) [of mbps] by (simp add: unat_of_nat)
  then show ?thesis
    unfolding f64_of_nat_def using f64.fl_nat [OF bytes_per_sec_bounds(1), of mbps] by (simp only:)
qed

lemma consume_full:
  assumes "mbps \<noteq> 0"
  shows "consume (of_nat (bytes_per_sec mbps)) now (empty_bucket mbps now) =
      Some (empty_bucket mbps now, Some NANOS_PER_SEC)"
    and "consume (of_nat (bytes_per_sec mbps)) (now + NANOS_PER_SEC) (empty_bucket mbps now) =
      Some (empty_bucket mbps (now + NANOS_PER_SEC), None)"
    and "consume (of_nat (bytes_per_sec mbps)) now (RateLimiter_new mbps now) =
      Some (empty_bucket mbps now, None)"
  using assms bytes_per_sec_bounds(2) [OF assms] f64.fl_nat [OF bytes_per_sec_bounds(1), of mbps]
  by (simp_all add: consume_def refill_def take_tokens_def empty_bucket_def f64_of_nat_full Let_def
      f64_add_def f64_sub_def f64_mul_def f64_div_def duration_since_def RateLimiter_new_def new_bps [unfolded f64_mul_def f64_div_def])

text \<open>C24. Sustained throughput is twice the limit. A sender that makes each call as soon as the previous one returned,
  each of one second's worth of the limit, gets \<open>2 k + 1\<close> calls through in \<open>k\<close> seconds: the seconds slept
  for a deficit are credited to the bucket again, so every other call is free.\<close>

theorem sustained_throughput_is_twice_the_limit:
  assumes "mbps \<noteq> 0"
  shows "\<exists>rl. back_to_back (replicate (2 * k + 1) (of_nat (bytes_per_sec mbps))) start (RateLimiter_new mbps start) =
    Some (rl, start + k * NANOS_PER_SEC)"
proof -
  have "back_to_back (replicate (2 * k) (of_nat (bytes_per_sec mbps))) now (empty_bucket mbps now) =
      Some (empty_bucket mbps (now + k * NANOS_PER_SEC), now + k * NANOS_PER_SEC)" for now
    by (induction k arbitrary: now) (simp_all add: consume_full [OF assms] algebra_simps)
  then show ?thesis by (simp add: consume_full [OF assms])
qed

theorem sustained_throughput_is_twice_the_limit_witness:
  "\<exists>rl. back_to_back (replicate 21 (of_nat (bytes_per_sec 10))) 0 (RateLimiter_new 10 0) = Some (rl, 10 * NANOS_PER_SEC)"
proof -
  have "(10 :: u32) \<noteq> 0" by simp
  from sustained_throughput_is_twice_the_limit [OF this, of 10 0] show ?thesis by simp
qed

end
