(* ===== verification/Pool.thy ===== *)
theory Pool
  imports Rust_F64 "HOL-Library.Multiset"
begin

text \<open>
  \<^verbatim>\<open>src/pool.rs\<close>: idle connections keyed by target, first in first out. A stream is a value of a type variable.
  Every \<^verbatim>\<open>elapsed()\<close> reads the clock anew, so an operation takes the sequence of instants it reads. The mutex makes
  each operation atomic, and a history of the pool is a list of operations.
\<close>

section \<open>Operations\<close>

type_synonym clock = "nat \<Rightarrow> nanos"

record 's pool_entry =
  stream :: 's
  idle_since :: nanos

record 's connection_pool =
  idle :: "(str, 's pool_entry list) hmap"
  max_idle_time :: nanos
  max_per_key :: nat

definition ConnectionPool_new :: "u64 \<Rightarrow> usize \<Rightarrow> 's connection_pool" where
  "ConnectionPool_new max_idle_secs per_key =
     \<lparr>idle = [], max_idle_time = unat max_idle_secs * NANOS_PER_SEC, max_per_key = unat per_key\<rparr>"

definition fresh :: "nanos \<Rightarrow> nanos \<Rightarrow> 's pool_entry \<Rightarrow> bool" where
  "fresh max_idle now e \<longleftrightarrow> duration_since now (idle_since e) < max_idle"

fun pop_fresh :: "nanos \<Rightarrow> clock \<Rightarrow> nat \<Rightarrow> 's pool_entry list \<Rightarrow> 's option \<times> 's pool_entry list" where
  "pop_fresh max_idle clk i [] = (None, [])"
| "pop_fresh max_idle clk i (entry # entries) =
     (if fresh max_idle (clk i) entry then (Some (stream entry), entries)
      else pop_fresh max_idle clk (Suc i) entries)"

definition pool_get :: "str \<Rightarrow> clock \<Rightarrow> 's connection_pool \<Rightarrow> 's option \<times> 's connection_pool" where
  "pool_get target clk pool =
     (case hm_get (idle pool) target of
        None \<Rightarrow> (None, pool)
      | Some entries \<Rightarrow>
          (case pop_fresh (max_idle_time pool) clk 0 entries of
             (Some s, rest) \<Rightarrow>
               (Some s, pool\<lparr>idle := (if rest = [] then hm_remove target (idle pool)
                                      else hm_insert target rest (idle pool))\<rparr>)
           | (None, _) \<Rightarrow> (None, pool\<lparr>idle := hm_remove target (idle pool)\<rparr>)))"

definition pool_put :: "str \<Rightarrow> 's \<Rightarrow> nanos \<Rightarrow> 's connection_pool \<Rightarrow> 's connection_pool" where
  "pool_put target s now pool =
     (let entries = (case hm_get (idle pool) target of None \<Rightarrow> [] | Some es \<Rightarrow> es) in
      pool\<lparr>idle := hm_insert target
        (if length entries < max_per_key pool then entries @ [\<lparr>stream = s, idle_since = now\<rparr>] else entries)
        (idle pool)\<rparr>)"

text \<open>The \<open>n\<close>-th attempt of \<^verbatim>\<open>warm\<close> connects with outcome \<open>connect n\<close> and stores at instant \<open>clk n\<close>; the
  count is of the connections that were made.\<close>

fun pool_warm :: "str \<Rightarrow> (nat \<Rightarrow> 's option) \<Rightarrow> clock \<Rightarrow> nat \<Rightarrow> nat \<Rightarrow> 's connection_pool \<Rightarrow> nat \<times> 's connection_pool" where
  "pool_warm target connect clk n 0 pool = (0, pool)"
| "pool_warm target connect clk n (Suc attempts) pool =
     (case connect n of
        Some s \<Rightarrow>
          (case pool_warm target connect clk (Suc n) attempts (pool_put target s (clk n) pool) of
             (success, pool') \<Rightarrow> (Suc success, pool'))
      | None \<Rightarrow> (0, pool))"

fun retain_entries :: "nanos \<Rightarrow> clock \<Rightarrow> nat \<Rightarrow> 's pool_entry list \<Rightarrow> nat \<times> 's pool_entry list" where
  "retain_entries max_idle clk i [] = (i, [])"
| "retain_entries max_idle clk i (e # es) =
     (case retain_entries max_idle clk (Suc i) es of
        (j, kept) \<Rightarrow> (j, if fresh max_idle (clk i) e then e # kept else kept))"

fun retain_map :: "nanos \<Rightarrow> clock \<Rightarrow> nat \<Rightarrow> (str, 's pool_entry list) hmap \<Rightarrow> (str, 's pool_entry list) hmap" where
  "retain_map max_idle clk i [] = []"
| "retain_map max_idle clk i ((k, entries) # rest) =
     (case retain_entries max_idle clk i entries of
        (j, kept) \<Rightarrow> (if kept = [] then [] else [(k, kept)]) @ retain_map max_idle clk j rest)"

definition pool_cleanup :: "clock \<Rightarrow> 's connection_pool \<Rightarrow> 's connection_pool" where
  "pool_cleanup clk pool = pool\<lparr>idle := retain_map (max_idle_time pool) clk 0 (idle pool)\<rparr>"

definition cleanup_interval :: "'s connection_pool \<Rightarrow> nanos" where
  "cleanup_interval pool = max (max_idle_time pool div 2) NANOS_PER_SEC"

text \<open>The task of \<^verbatim>\<open>start_cleanup_task\<close>, tick by tick: the weak reference gives the pool, which is cleaned up with the clock
  read then, or the pool is gone and the loop ends.\<close>

fun cleanup_task :: "clock option list \<Rightarrow> 's connection_pool \<Rightarrow> 's connection_pool" where
  "cleanup_task [] pool = pool"
| "cleanup_task (None # ticks) pool = pool"
| "cleanup_task (Some clk # ticks) pool = cleanup_task ticks (pool_cleanup clk pool)"

definition pool_size :: "'s connection_pool \<Rightarrow> nat" where
  "pool_size pool = sum_list (map (\<lambda>(_, v). length v) (idle pool))"

section \<open>The pool as one queue per target\<close>

definition queue :: "'s connection_pool \<Rightarrow> str \<Rightarrow> 's pool_entry list" where
  "queue pool target = (case hm_get (idle pool) target of None \<Rightarrow> [] | Some es \<Rightarrow> es)"

definition pool_ok :: "'s connection_pool \<Rightarrow> bool" where
  "pool_ok pool \<longleftrightarrow> hm_ok (idle pool) \<and> (\<forall>t. length (queue pool t) \<le> max_per_key pool)"

text \<open>Index \<open>j\<close> is that of the first entry that is fresh at its reading.\<close>

definition first_fresh :: "nanos \<Rightarrow> clock \<Rightarrow> 's pool_entry list \<Rightarrow> nat \<Rightarrow> bool" where
  "first_fresh max_idle clk es j \<longleftrightarrow>
     j < length es \<and> fresh max_idle (clk j) (es ! j) \<and> (\<forall>k<j. \<not> fresh max_idle (clk k) (es ! k))"

lemma pop_fresh_find:
  "pop_fresh max_idle clk i es =
     (case List.find (\<lambda>j. fresh max_idle (clk (i + j)) (es ! j)) [0..<length es] of
        Some j \<Rightarrow> (Some (stream (es ! j)), drop (Suc j) es)
      | None \<Rightarrow> (None, []))"
proof (induction es arbitrary: i)
  case (Cons e es)
  have "List.find P (map Suc xs) = map_option Suc (List.find (P \<circ> Suc) xs)" for P xs
    by (induction xs) auto
  then have shift: "List.find P [0..<length (e # es)] =
      (if P 0 then Some 0 else map_option Suc (List.find (P \<circ> Suc) [0..<length es]))" for P
    by (simp add: upt_conv_Cons map_Suc_upt [symmetric] del: upt_Suc)
  show ?case
    unfolding shift using Cons.IH [of "Suc i"]
    by (auto simp: comp_def split: option.splits)
qed simp

lemma find_first:
  "List.find P [0..<n] = Some j \<longleftrightarrow> j < n \<and> P j \<and> (\<forall>k<j. \<not> P k)"
  by (auto simp: find_Some_iff nth_upt)

lemma pop_fresh_Some:
  "first_fresh max_idle clk es j \<Longrightarrow> pop_fresh max_idle clk 0 es = (Some (stream (es ! j)), drop (Suc j) es)"
  unfolding pop_fresh_find by (simp add: first_fresh_def find_first [THEN iffD2, of j])

lemma pop_fresh_None:
  "(\<nexists>j. first_fresh max_idle clk es j) \<Longrightarrow> pop_fresh max_idle clk 0 es = (None, [])"
  unfolding pop_fresh_find
  by (cases "List.find (\<lambda>j. fresh max_idle (clk (0 + j)) (es ! j)) [0..<length es]")
    (auto simp: first_fresh_def find_first)

lemma queue_simps [simp]:
  "hm_get (idle pool) t = None \<Longrightarrow> queue pool t = []"
  "hm_get (idle pool) t = Some es \<Longrightarrow> queue pool t = es"
  by (simp_all add: queue_def)

lemma queue_update [simp]:
  "queue (pool\<lparr>idle := hm_insert k es (idle pool)\<rparr>) = (queue pool)(k := es)"
  "queue (pool\<lparr>idle := hm_remove k (idle pool)\<rparr>) = (queue pool)(k := [])"
  by (auto simp: queue_def fun_eq_iff)

lemma get_queue:
  "queue (snd (pool_get target clk pool)) =
     (queue pool)(target := snd (pop_fresh (max_idle_time pool) clk 0 (queue pool target)))"
  "fst (pool_get target clk pool) = fst (pop_fresh (max_idle_time pool) clk 0 (queue pool target))"
proof -
  have none: "pop_fresh m clk i es = (None, rest) \<Longrightarrow> rest = []" for m i rest and es :: "'a pool_entry list"
    by (simp add: pop_fresh_find split: option.splits)
  show "queue (snd (pool_get target clk pool)) =
     (queue pool)(target := snd (pop_fresh (max_idle_time pool) clk 0 (queue pool target)))"
    using none by (fastforce simp: pool_get_def fun_upd_idem split: option.splits prod.splits)
  show "fst (pool_get target clk pool) = fst (pop_fresh (max_idle_time pool) clk 0 (queue pool target))"
    by (auto simp: pool_get_def split: option.splits prod.splits)
qed

lemma put_queue:
  "queue (pool_put target s now pool) =
     (queue pool)(target := (if length (queue pool target) < max_per_key pool
       then queue pool target @ [\<lparr>stream = s, idle_since = now\<rparr>] else queue pool target))"
  unfolding pool_put_def queue_def [symmetric] Let_def by (rule queue_update)

section \<open>Cleaning up\<close>

lemma retain_entries_mset: "mset (snd (retain_entries max_idle clk i es)) \<subseteq># mset es"
proof (induction es arbitrary: i)
  case (Cons e es)
  obtain j kept where r: "retain_entries max_idle clk (Suc i) es = (j, kept)" by force
  with Cons [of "Suc i"] have "mset kept \<subseteq># mset es" by simp
  with r show ?case by (simp add: subset_mset.add_increasing [of "{#e#}", simplified])
qed simp

lemma retain_entries_instant: "snd (retain_entries max_idle (\<lambda>_. now) i es) = filter (fresh max_idle now) es"
  by (induction es arbitrary: i) (auto split: prod.splits, (metis snd_conv)+)

lemma retain_map_keys: "fst ` set (retain_map max_idle clk i m) \<subseteq> fst ` set m"
  by (induction max_idle clk i m rule: retain_map.induct) (auto split: prod.splits if_splits)

lemma retain_map_distinct: "distinct (map fst m) \<Longrightarrow> distinct (map fst (retain_map max_idle clk i m))"
proof (induction max_idle clk i m rule: retain_map.induct)
  case (2 max_idle clk i k entries rest)
  obtain j kept where r: "retain_entries max_idle clk i entries = (j, kept)" by force
  have "k \<notin> fst ` set (retain_map max_idle clk j rest)"
    using 2(2) retain_map_keys [of max_idle clk j rest] by auto
  moreover have "distinct (map fst (retain_map max_idle clk j rest))" using 2(1) [OF r [symmetric]] 2(2) by simp
  ultimately show ?case by (simp add: r)
qed simp

lemma retain_map_queue:
  assumes "distinct (map fst m)"
  shows "\<exists>j. (case map_of (retain_map max_idle clk i m) t of None \<Rightarrow> [] | Some es \<Rightarrow> es) =
    snd (retain_entries max_idle clk j (case map_of m t of None \<Rightarrow> [] | Some es \<Rightarrow> es))"
  using assms
proof (induction max_idle clk i m rule: retain_map.induct)
  case (2 max_idle clk i k entries rest)
  obtain j kept where r: "retain_entries max_idle clk i entries = (j, kept)" by force
  have none: "map_of (retain_map max_idle clk j rest) k = None"
    unfolding map_of_eq_None_iff using 2(2) retain_map_keys [of max_idle clk j rest] by auto
  show ?case
  proof (cases "t = k")
    case True
    with r none show ?thesis by (auto intro!: exI [of _ i])
  next
    case False
    with 2 r show ?thesis by auto
  qed
qed simp

lemma cleanup_queue:
  assumes "hm_ok (idle pool)"
  shows "\<exists>j. queue (pool_cleanup clk pool) t = snd (retain_entries (max_idle_time pool) clk j (queue pool t))"
  using retain_map_queue [of "idle pool" "max_idle_time pool" clk 0 t] assms
  by (simp add: queue_def pool_cleanup_def hm_get_def hm_ok_def)

lemma cleanup_ok: "hm_ok (idle pool) \<Longrightarrow> hm_ok (idle (pool_cleanup clk pool))"
  by (simp add: pool_cleanup_def hm_ok_def retain_map_distinct)

section \<open>Histories\<close>

datatype 's pool_op =
    Get str clock
  | Put str 's nanos
  | Warm str "nat \<Rightarrow> 's option" clock nat
  | Cleanup clock

text \<open>An operation hands out at most one stream, for the target that asked.\<close>

fun pool_step :: "'s pool_op \<Rightarrow> 's connection_pool \<Rightarrow> (str \<times> 's) list \<times> 's connection_pool" where
  "pool_step (Get t clk) pool =
     (case pool_get t clk pool of (r, pool') \<Rightarrow> ((case r of None \<Rightarrow> [] | Some s \<Rightarrow> [(t, s)]), pool'))"
| "pool_step (Put t s now) pool = ([], pool_put t s now pool)"
| "pool_step (Warm t connect clk attempts) pool = ([], snd (pool_warm t connect clk 0 attempts pool))"
| "pool_step (Cleanup clk) pool = ([], pool_cleanup clk pool)"

fun run_ops :: "('op \<Rightarrow> 'p \<Rightarrow> 'out list \<times> 'p) \<Rightarrow> 'op list \<Rightarrow> 'p \<Rightarrow> 'out list \<times> 'p" where
  "run_ops step [] p = ([], p)"
| "run_ops step (op # ops) p =
     (case step op p of (out, p') \<Rightarrow> (case run_ops step ops p' of (outs, p'') \<Rightarrow> (out @ outs, p'')))"

text \<open>The streams an operation brings to a target.\<close>

fun warm_streams :: "(nat \<Rightarrow> 's option) \<Rightarrow> nat \<Rightarrow> nat \<Rightarrow> 's list" where
  "warm_streams connect n 0 = []"
| "warm_streams connect n (Suc attempts) =
     (case connect n of Some s \<Rightarrow> s # warm_streams connect (Suc n) attempts | None \<Rightarrow> [])"

fun offered :: "'s pool_op \<Rightarrow> str \<Rightarrow> 's multiset" where
  "offered (Put t s now) t' = (if t' = t then {#s#} else {#})"
| "offered (Warm t connect clk attempts) t' = (if t' = t then mset (warm_streams connect 0 attempts) else {#})"
| "offered _ t' = {#}"

definition handed_out :: "(str \<times> 's) list \<Rightarrow> str \<Rightarrow> 's multiset" where
  "handed_out outs t = mset (map snd (filter (\<lambda>(k, _). k = t) outs))"

lemma handed_out_simps [simp]:
  "handed_out [] t = {#}" "handed_out (xs @ ys) t = handed_out xs t + handed_out ys t"
  "handed_out [(k, s)] t = (if t = k then {#s#} else {#})"
  by (auto simp: handed_out_def)

text \<open>
  What a user of stored streams relies on: an invariant, and that no step invents or duplicates a
  stream or moves it to another target.
\<close>

locale stream_store =
  fixes step :: "'op \<Rightarrow> 'p \<Rightarrow> (str \<times> 's) list \<times> 'p"
    and ok :: "'p \<Rightarrow> bool"
    and held :: "'p \<Rightarrow> str \<Rightarrow> 's multiset"
    and brought :: "'op \<Rightarrow> str \<Rightarrow> 's multiset"
  assumes step_ok: "ok p \<Longrightarrow> ok (snd (step op p))"
    and step_conserves: "ok p \<Longrightarrow>
      handed_out (fst (step op p)) t + held (snd (step op p)) t \<subseteq># held p t + brought op t"
begin

lemma run_ok: "ok p \<Longrightarrow> ok (snd (run_ops step ops p))"
proof (induction ops arbitrary: p)
  case (Cons op ops)
  then show ?case using step_ok [of p op] by (fastforce split: prod.splits)
qed simp

lemma run_conserves:
  "ok p \<Longrightarrow> handed_out (fst (run_ops step ops p)) t + held (snd (run_ops step ops p)) t
    \<subseteq># held p t + (\<Sum>op\<leftarrow>ops. brought op t)"
proof (induction ops arbitrary: p)
  case (Cons op ops)
  obtain out p' where s: "step op p = (out, p')" by force
  obtain outs p'' where r: "run_ops step ops p' = (outs, p'')" by force
  from s step_ok [OF Cons.prems, of op] have "ok p'" by simp
  from Cons.IH [OF this] r have "handed_out outs t + held p'' t \<subseteq># held p' t + (\<Sum>op\<leftarrow>ops. brought op t)" by simp
  moreover from step_conserves [OF Cons.prems, of op t] s
  have "handed_out out t + held p' t \<subseteq># held p t + brought op t" by simp
  ultimately have "handed_out out t + (handed_out outs t + held p'' t) \<subseteq>#
      held p t + brought op t + (\<Sum>op\<leftarrow>ops. brought op t)"
    by (smt (verit) add.assoc mset_subset_eq_mono_add subset_mset.add_left_mono subset_mset.add_right_mono subset_mset.order_trans)
  then show ?case by (simp add: s r add.assoc)
qed simp

end

abbreviation held_streams :: "'s connection_pool \<Rightarrow> str \<Rightarrow> 's multiset" where
  "held_streams pool t \<equiv> image_mset stream (mset (queue pool t))"

lemma put_ok: "pool_ok pool \<Longrightarrow> pool_ok (pool_put t s now pool)"
proof -
  assume ok: "pool_ok pool"
  have "max_per_key (pool_put t s now pool) = max_per_key pool" by (simp add: pool_put_def Let_def)
  moreover have "hm_ok (idle (pool_put t s now pool))"
    using ok by (simp add: pool_put_def Let_def pool_ok_def hm.ok_insert)
  ultimately show ?thesis using ok by (simp add: pool_ok_def put_queue)
qed

lemma put_held: "held_streams (pool_put t s now pool) t' \<subseteq># held_streams pool t' + (if t' = t then {#s#} else {#})"
  by (simp add: put_queue)

lemma warm_ok: "pool_ok pool \<Longrightarrow> pool_ok (snd (pool_warm t connect clk n attempts pool))"
  by (induction t connect clk n attempts pool rule: pool_warm.induct) (auto simp: put_ok split: option.splits prod.splits)

lemma warm_held:
  "held_streams (snd (pool_warm t connect clk n attempts pool)) t' \<subseteq>#
    held_streams pool t' + (if t' = t then mset (warm_streams connect n attempts) else {#})"
proof (induction t connect clk n attempts pool rule: pool_warm.induct)
  case (2 t connect clk n attempts pool)
  show ?case
  proof (cases "connect n")
    case (Some s)
    let ?put = "pool_put t s (clk n) pool"
    from 2 Some have "held_streams (snd (pool_warm t connect clk (Suc n) attempts ?put)) t' \<subseteq>#
        held_streams ?put t' + (if t' = t then mset (warm_streams connect (Suc n) attempts) else {#})" by simp
    also have "\<dots> \<subseteq># held_streams pool t' + (if t' = t then {#s#} else {#}) +
        (if t' = t then mset (warm_streams connect (Suc n) attempts) else {#})"
      using put_held by (rule subset_mset.add_right_mono)
    finally show ?thesis by (cases "pool_warm t connect clk (Suc n) attempts ?put") (auto simp: Some)
  qed simp
qed simp

lemma pop_fresh_parts:
  "\<exists>dropped. es = dropped @ (case pop_fresh max_idle clk i es of (r, rest) \<Rightarrow> rest) \<and>
    (\<forall>s. fst (pop_fresh max_idle clk i es) = Some s \<longrightarrow> dropped \<noteq> [] \<and> s = stream (last dropped))"
proof (cases "List.find (\<lambda>j. fresh max_idle (clk (i + j)) (es ! j)) [0..<length es]")
  case None
  then show ?thesis by (simp add: pop_fresh_find)
next
  case (Some j)
  then have "j < length es" by (simp add: find_first)
  with Some show ?thesis
    by (intro exI [of _ "take (Suc j) es"]) (auto simp: pop_fresh_find take_Suc_conv_app_nth id_take_nth_drop)
qed

lemma get_ok: "pool_ok pool \<Longrightarrow> pool_ok (snd (pool_get t clk pool))"
proof -
  assume ok: "pool_ok pool"
  from pop_fresh_parts have "length (snd (pop_fresh m clk 0 es)) \<le> length es" for m and es :: "'a pool_entry list"
    by (metis case_prod_beta' length_append le_add2)
  moreover have "hm_ok (idle (snd (pool_get t clk pool)))" "max_per_key (snd (pool_get t clk pool)) = max_per_key pool"
    using ok by (auto simp: pool_get_def pool_ok_def hm.ok_insert hm.ok_remove split: option.splits prod.splits)
  ultimately show ?thesis using ok le_trans by (fastforce simp: pool_ok_def get_queue)
qed

lemma cleanup_pool_ok: "pool_ok pool \<Longrightarrow> pool_ok (pool_cleanup clk pool)"
proof -
  assume ok: "pool_ok pool"
  have "length (queue (pool_cleanup clk pool) t) \<le> max_per_key pool" for t
  proof -
    obtain j where "queue (pool_cleanup clk pool) t = snd (retain_entries (max_idle_time pool) clk j (queue pool t))"
      using ok cleanup_queue [of pool clk t] by (auto simp: pool_ok_def)
    moreover have "length (snd (retain_entries (max_idle_time pool) clk j (queue pool t))) \<le> length (queue pool t)"
      using size_mset_mono [OF retain_entries_mset] by simp
    ultimately show ?thesis using ok by (simp add: pool_ok_def) (metis le_trans)
  qed
  moreover have "max_per_key (pool_cleanup clk pool) = max_per_key pool" by (simp add: pool_cleanup_def)
  ultimately show ?thesis using ok cleanup_ok [of pool clk] by (simp add: pool_ok_def)
qed

interpretation idle_pool: stream_store pool_step pool_ok held_streams offered
proof
  fix p :: "'s connection_pool" and op :: "'s pool_op"
  assume ok: "pool_ok p"
  show "pool_ok (snd (pool_step op p))"
    using ok get_ok [OF ok] put_ok [OF ok] warm_ok [OF ok] cleanup_pool_ok [OF ok]
    by (cases op) (auto split: prod.splits, metis snd_conv)
  fix t :: str
  show "handed_out (fst (pool_step op p)) t + held_streams (snd (pool_step op p)) t \<subseteq># held_streams p t + offered op t"
  proof (cases op)
    case (Get k clk)
    obtain dropped where d: "queue p k = dropped @ snd (pop_fresh (max_idle_time p) clk 0 (queue p k))"
        "\<And>s. fst (pop_fresh (max_idle_time p) clk 0 (queue p k)) = Some s \<Longrightarrow> dropped \<noteq> [] \<and> s = stream (last dropped)"
      using pop_fresh_parts [of "queue p k" "max_idle_time p" clk 0] by (auto simp: case_prod_beta')
    obtain r p' where g: "pool_get k clk p = (r, p')" by force
    with get_queue [of k clk p] have q: "queue p' = (queue p)(k := snd (pop_fresh (max_idle_time p) clk 0 (queue p k)))"
      and r: "r = fst (pop_fresh (max_idle_time p) clk 0 (queue p k))" by auto
    define rest where "rest = snd (pop_fresh (max_idle_time p) clk 0 (queue p k))"
    have "held_streams p k = image_mset stream (mset dropped) + image_mset stream (mset rest)"
      using d(1) by (metis image_mset_union mset_append rest_def)
    moreover have "(case r of None \<Rightarrow> {#} | Some s \<Rightarrow> {#s#}) \<subseteq># image_mset stream (mset dropped)"
      using d(2) r by (auto split: option.splits intro!: imageI simp: image_iff)
    ultimately show ?thesis
      using Get g q by (auto simp: rest_def [symmetric] split: option.splits)
  next
    case (Put k s now)
    then show ?thesis using put_held [of k s now p t] by simp
  next
    case (Warm k connect clk attempts)
    then show ?thesis using warm_held [of k connect clk 0 attempts p t] by simp
  next
    case (Cleanup clk)
    from ok obtain j where "queue (pool_cleanup clk p) t = snd (retain_entries (max_idle_time p) clk j (queue p t))"
      using cleanup_queue [of p clk t] by (auto simp: pool_ok_def)
    with retain_entries_mset [THEN image_mset_subseteq_mono] show ?thesis by (simp add: Cleanup)
  qed
qed

section \<open>Properties\<close>

lemma new_pool_ok: "pool_ok (ConnectionPool_new idle_secs per_key)"
  by (simp add: pool_ok_def ConnectionPool_new_def hm.ok_empty)

lemma new_pool_empty: "queue (ConnectionPool_new idle_secs per_key) t = []"
  by (simp add: ConnectionPool_new_def queue_def)

text \<open>C22. Exactly which stream \<^verbatim>\<open>get\<close> returns: the oldest one stored for the target that is still within the idle limit
  when it is looked at. It and everything older leave the pool, what is younger stays, and no other target is touched.
  When no stored stream is fresh the answer is none and the target's queue is gone.\<close>

theorem pool_get_returns_oldest_fresh:
  "(\<forall>j. first_fresh (max_idle_time pool) clk (queue pool target) j \<longrightarrow>
      fst (pool_get target clk pool) = Some (stream (queue pool target ! j)) \<and>
      queue (snd (pool_get target clk pool)) = (queue pool)(target := drop (Suc j) (queue pool target))) \<and>
   ((\<nexists>j. first_fresh (max_idle_time pool) clk (queue pool target) j) \<longrightarrow>
      fst (pool_get target clk pool) = None \<and>
      queue (snd (pool_get target clk pool)) = (queue pool)(target := []))"
proof (intro conjI allI impI)
  fix j
  assume "first_fresh (max_idle_time pool) clk (queue pool target) j"
  from pop_fresh_Some [OF this]
  show "fst (pool_get target clk pool) = Some (stream (queue pool target ! j))"
    and "queue (snd (pool_get target clk pool)) = (queue pool)(target := drop (Suc j) (queue pool target))"
    by (simp_all add: get_queue)
next
  assume "\<nexists>j. first_fresh (max_idle_time pool) clk (queue pool target) j"
  from pop_fresh_None [OF this]
  show "fst (pool_get target clk pool) = None"
    and "queue (snd (pool_get target clk pool)) = (queue pool)(target := [])"
    by (simp_all add: get_queue)
qed

definition demo_pool :: "nat connection_pool" where
  "demo_pool = pool_put ''a:1'' 8 7000000000 (pool_put ''a:1'' 7 1000000000 (ConnectionPool_new 5 4))"

theorem pool_get_returns_oldest_fresh_witness:
  "fst (pool_get ''a:1'' (\<lambda>_. 8000000000) demo_pool) = Some 8 \<and>
   fst (pool_get ''a:1'' (\<lambda>_. 2000000000) demo_pool) = Some 7 \<and>
   fst (pool_get ''a:1'' (\<lambda>_. 20000000000) demo_pool) = None"
proof -
  have q: "queue demo_pool ''a:1'' = [\<lparr>stream = 7, idle_since = 1000000000\<rparr>, \<lparr>stream = 8, idle_since = 7000000000\<rparr>]"
    "max_idle_time demo_pool = 5000000000" by code_simp+
  have "first_fresh 5000000000 (\<lambda>_. 8000000000) (queue demo_pool ''a:1'') 1"
    "first_fresh 5000000000 (\<lambda>_. 2000000000) (queue demo_pool ''a:1'') 0"
    "\<nexists>j. first_fresh 5000000000 (\<lambda>_. 20000000000) (queue demo_pool ''a:1'') j"
    by (auto simp: first_fresh_def q fresh_def duration_since_def less_Suc_eq nth_Cons')
  then show ?thesis
    using pool_get_returns_oldest_fresh [of demo_pool "\<lambda>_. 8000000000" "''a:1''"]
      pool_get_returns_oldest_fresh [of demo_pool "\<lambda>_. 2000000000" "''a:1''"]
      pool_get_returns_oldest_fresh [of demo_pool "\<lambda>_. 20000000000" "''a:1''"]
    by (auto simp: q)
qed

text \<open>C21. Streams are never invented, duplicated or moved: over any history of a new pool, the streams handed out for a
  target together with those still held for it are among the streams that were put or warmed for that same target,
  counted with multiplicity. In particular no stream is handed out twice or to another target. And no target ever holds
  more than the configured number.\<close>

theorem pool_conserves_streams:
  "\<forall>outs pool. run_ops pool_step ops (ConnectionPool_new idle_secs per_key) = (outs, pool) \<longrightarrow>
    handed_out outs t + held_streams pool t \<subseteq># (\<Sum>op\<leftarrow>ops. offered op t) \<and>
    length (queue pool t) \<le> unat per_key"
proof (intro allI impI)
  fix outs pool
  assume run: "run_ops pool_step ops (ConnectionPool_new idle_secs per_key) = (outs, pool)"
  have per_key: "max_per_key (snd (run_ops pool_step ops p)) = max_per_key p" for p :: "'a connection_pool"
  proof (induction ops arbitrary: p)
    case (Cons op ops)
    have warm: "max_per_key (snd (pool_warm k c clk n m q)) = max_per_key q" for k c clk n m and q :: "'a connection_pool"
      by (induction k c clk n m q rule: pool_warm.induct) (auto simp: pool_put_def Let_def split: option.splits prod.splits)
    have "max_per_key (snd (pool_step op p)) = max_per_key p"
      by (cases op) (auto simp: warm pool_get_def pool_put_def pool_cleanup_def Let_def split: option.splits prod.splits)
    with Cons [of "snd (pool_step op p)"] show ?case by (auto split: prod.splits)
  qed simp
  from idle_pool.run_ok [OF new_pool_ok, of ops idle_secs per_key] per_key [of "ConnectionPool_new idle_secs per_key"]
  have "length (queue pool t) \<le> max_per_key (ConnectionPool_new idle_secs per_key :: 'a connection_pool)"
    by (simp add: run pool_ok_def)
  then have "length (queue pool t) \<le> unat per_key" by (simp add: ConnectionPool_new_def)
  with idle_pool.run_conserves [OF new_pool_ok, of ops idle_secs per_key t] run
  show "handed_out outs t + held_streams pool t \<subseteq># (\<Sum>op\<leftarrow>ops. offered op t) \<and> length (queue pool t) \<le> unat per_key"
    by (simp add: new_pool_empty)
qed

definition demo_ops :: "nat pool_op list" where
  "demo_ops = [Put ''a:1'' 7 1, Put ''a:1'' 8 2, Put ''b:1'' 9 2, Get ''a:1'' (\<lambda>_. 3), Get ''b:1'' (\<lambda>_. 6000000000)]"

theorem pool_conserves_streams_witness:
  "\<exists>outs pool. run_ops pool_step demo_ops (ConnectionPool_new 5 4) = (outs, pool) \<and> outs = [(''a:1'', 7)] \<and>
    held_streams pool ''a:1'' = {#8#} \<and> held_streams pool ''b:1'' = {#} \<and>
    handed_out outs ''a:1'' + held_streams pool ''a:1'' \<subseteq># (\<Sum>op\<leftarrow>demo_ops. offered op ''a:1'') \<and>
    length (queue pool ''a:1'') \<le> 4"
proof -
  define pool :: "nat connection_pool" where
    "pool = \<lparr>idle = [(''a:1'', [\<lparr>stream = 8, idle_since = 2\<rparr>])], max_idle_time = 5000000000, max_per_key = 4\<rparr>"
  have run: "run_ops pool_step demo_ops (ConnectionPool_new 5 4) = ([(''a:1'', 7)], pool)"
    unfolding demo_ops_def pool_def by code_simp
  have held: "held_streams pool ''a:1'' = {#8#}" "held_streams pool ''b:1'' = {#}"
    by (simp_all add: pool_def queue_def hm_get_def)
  from pool_conserves_streams [of demo_ops 5 4 "''a:1''"] run
  have "handed_out [(''a:1'', 7)] ''a:1'' + held_streams pool ''a:1'' \<subseteq># (\<Sum>op\<leftarrow>demo_ops. offered op ''a:1'') \<and>
    length (queue pool ''a:1'') \<le> unat (4 :: usize)" by blast
  with run held show ?thesis by (intro exI [of _ "[(''a:1'', 7)]"] exI [of _ pool]) simp
qed

lemma cleanup_instant_queue:
  assumes "pool_ok pool"
  shows "queue (pool_cleanup (\<lambda>_. now) pool) t = filter (fresh (max_idle_time pool) now) (queue pool t)"
proof -
  obtain j where "queue (pool_cleanup (\<lambda>_. now) pool) t =
      snd (retain_entries (max_idle_time pool) (\<lambda>_. now) j (queue pool t))"
    using cleanup_queue [of pool "\<lambda>_. now" t] assms by (auto simp: pool_ok_def)
  then show ?thesis by (simp only: retain_entries_instant)
qed

lemma fresh_later: "fresh max_idle later e \<Longrightarrow> now \<le> later \<Longrightarrow> fresh max_idle now e"
  by (auto simp: fresh_def duration_since_def)

lemma pop_fresh_instant:
  "fst (pop_fresh max_idle (\<lambda>_. now) i es) =
     (case filter (fresh max_idle now) es of [] \<Rightarrow> None | e # _ \<Rightarrow> Some (stream e))"
  by (induction es arbitrary: i) auto

text \<open>Cleaning up is invisible to users of the pool: whatever it removes at one instant would not have been handed
  out at that instant or any later one, so every later \<^verbatim>\<open>get\<close> answers the same with or without it. Afterwards every
  stored stream is within the idle limit.\<close>

lemma cleanup_is_invisible:
  assumes "pool_ok pool" and "now \<le> later"
  shows "fst (pool_get target (\<lambda>_. later) (pool_cleanup (\<lambda>_. now) pool)) = fst (pool_get target (\<lambda>_. later) pool) \<and>
    list_all (fresh (max_idle_time pool) now) (queue (pool_cleanup (\<lambda>_. now) pool) target)"
proof -
  have "filter (fresh (max_idle_time pool) later) (filter (fresh (max_idle_time pool) now) (queue pool target)) =
      filter (fresh (max_idle_time pool) later) (queue pool target)"
    using fresh_later [OF _ assms(2)] by (auto simp: filter_filter intro!: filter_cong)
  moreover have "max_idle_time (pool_cleanup (\<lambda>_. now) pool) = max_idle_time pool" by (simp add: pool_cleanup_def)
  ultimately show ?thesis
    by (simp add: get_queue pop_fresh_instant cleanup_instant_queue [OF assms(1)] list_all_iff)
qed

section \<open>How long a stream stays\<close>

text \<open>The cleanup task bounds what the pool holds: between a tick and the next one, whatever operations run, no stream has
  been idle for longer than the idle limit and one interval of the task, so at most one and a half times a limit of
  two seconds or more.\<close>

fun stores_after :: "nanos \<Rightarrow> 's pool_op \<Rightarrow> bool" where
  "stores_after tick (Put _ _ now) \<longleftrightarrow> tick \<le> now"
| "stores_after tick (Warm _ _ clk _) \<longleftrightarrow> (\<forall>n. tick \<le> clk n)"
| "stores_after tick _ \<longleftrightarrow> True"

definition none_older :: "nanos \<Rightarrow> 's connection_pool \<Rightarrow> bool" where
  "none_older tick pool \<longleftrightarrow> (\<forall>t. \<forall>e \<in> set (queue pool t). tick \<le> idle_since e + max_idle_time pool)"

lemma none_older_subset:
  "none_older tick pool \<Longrightarrow> (\<And>t. set (queue pool' t) \<subseteq> set (queue pool t)) \<Longrightarrow> max_idle_time pool' = max_idle_time pool \<Longrightarrow>
    none_older tick pool'"
  unfolding none_older_def by (metis subsetD)

lemma none_older_put: "none_older tick pool \<Longrightarrow> tick \<le> now \<Longrightarrow> none_older tick (pool_put target s now pool)"
  by (auto simp: none_older_def put_queue) (auto simp: pool_put_def Let_def)

lemma none_older_warm:
  "none_older tick pool \<Longrightarrow> \<forall>n. tick \<le> clk n \<Longrightarrow> none_older tick (snd (pool_warm target connect clk n attempts pool))"
proof (induction attempts arbitrary: n pool)
  case (Suc attempts)
  have "none_older tick (snd (pool_warm target connect clk (Suc n) attempts (pool_put target s (clk n) pool)))" for s
    using Suc.prems by (intro Suc.IH none_older_put) simp_all
  with Suc.prems(1) show ?case by (simp add: case_prod_beta' split: option.splits)
qed simp

lemma cleanup_subset: "pool_ok pool \<Longrightarrow> set (queue (pool_cleanup clk pool) t) \<subseteq> set (queue pool t)"
proof -
  assume "pool_ok pool"
  then obtain j where "queue (pool_cleanup clk pool) t = snd (retain_entries (max_idle_time pool) clk j (queue pool t))"
    using cleanup_queue [of pool clk t] by (auto simp: pool_ok_def)
  then show ?thesis using retain_entries_mset [THEN set_mset_mono] by (metis set_mset_mset)
qed

lemma get_subset: "set (queue (snd (pool_get target clk pool)) t) \<subseteq> set (queue pool t)"
proof -
  obtain dropped where "queue pool target = dropped @ snd (pop_fresh (max_idle_time pool) clk 0 (queue pool target))"
    using pop_fresh_parts [of "queue pool target" "max_idle_time pool" clk 0] by (auto simp: case_prod_beta')
  then have "set (snd (pop_fresh (max_idle_time pool) clk 0 (queue pool target))) \<subseteq> set (queue pool target)"
    by (metis set_append sup_ge2)
  then show ?thesis by (simp add: get_queue)
qed

lemma max_idle_time_kept [simp]:
  "max_idle_time (snd (pool_get target clk pool)) = max_idle_time pool"
  "max_idle_time (pool_cleanup clk pool) = max_idle_time pool"
  "max_idle_time (pool_put target s now pool) = max_idle_time pool"
  by (auto simp: pool_get_def pool_put_def pool_cleanup_def Let_def split: option.splits prod.splits)

lemma max_idle_time_warm [simp]: "max_idle_time (snd (pool_warm target connect clk n attempts pool)) = max_idle_time pool"
  by (induction attempts arbitrary: n pool) (simp_all add: case_prod_beta' split: option.splits)

lemma max_idle_time_run [simp]: "max_idle_time (snd (run_ops pool_step ops pool)) = max_idle_time pool"
proof (induction ops arbitrary: pool)
  case (Cons op ops)
  have "max_idle_time (snd (pool_step op pool)) = max_idle_time pool" by (cases op) (simp_all add: case_prod_beta')
  with Cons show ?case by (simp add: case_prod_beta')
qed simp

lemma none_older_step:
  assumes "pool_ok pool" and "none_older tick pool" and "stores_after tick op"
  shows "none_older tick (snd (pool_step op pool))"
proof (cases op)
  case (Get t clk)
  then show ?thesis using none_older_subset [OF assms(2) get_subset] by (simp add: case_prod_beta')
next
  case (Cleanup clk)
  then show ?thesis using none_older_subset [OF assms(2) cleanup_subset [OF assms(1)]] by simp
qed (use assms in \<open>simp_all add: none_older_put none_older_warm\<close>)

lemma none_older_run:
  "pool_ok pool \<Longrightarrow> none_older tick pool \<Longrightarrow> list_all (stores_after tick) ops \<Longrightarrow>
    none_older tick (snd (run_ops pool_step ops pool))"
proof (induction ops arbitrary: pool)
  case (Cons op ops)
  from Cons.IH [OF idle_pool.step_ok none_older_step] Cons.prems show ?case by (simp add: case_prod_beta')
qed simp

lemma idle_streams_are_dropped:
  assumes "pool_ok pool" and "list_all (stores_after tick) ops" and "now < tick + cleanup_interval pool"
    and "e \<in> set (queue (snd (run_ops pool_step ops (cleanup_task [Some (\<lambda>_. tick)] pool))) t)"
  shows "now < idle_since e + max_idle_time pool + cleanup_interval pool"
proof -
  have "none_older tick (pool_cleanup (\<lambda>_. tick) pool)"
    by (auto simp: none_older_def cleanup_instant_queue [OF assms(1)] fresh_def duration_since_def)
  from none_older_run [OF cleanup_pool_ok [OF assms(1)] this assms(2)] assms(3,4) show ?thesis
    by (fastforce simp: none_older_def)
qed

end
