(* ===== verification/Proxy.thy ===== *)
theory Proxy
  imports Dns Protocol Binary Rate_Limit Pool
begin

text \<open>
  \<^verbatim>\<open>src/proxy.rs\<close>: one session. Its shared state is the record \<open>ctx\<close> (the fields of \<^verbatim>\<open>Ctx\<close>), its control
  state is the session loop (\<open>main_state\<close>) and the spawned tasks (\<open>task\<close>). A task is where it waits: each
  constructor is an \<^verbatim>\<open>await\<close> of the code with the local variables that are live there, and one step runs a task from
  one \<^verbatim>\<open>await\<close> to the next, given what was awaited (an \<open>answer\<close>). Steps of different tasks interleave freely.

  Channels are numbered. The sending half of a TCP writer channel, of a UDP cancel channel and of a listener's
  shutdown channel lives in the entry of the socket map, so a receiver sees its channel closed (or signalled)
  exactly when no entry holds it any more.
\<close>

section \<open>State\<close>

type_synonym chan = nat
type_synonym conn = nat

datatype socket_entry =
    Tcp (write_tx: chan)
  | Udp (socket: conn) (default_target: "str option") (cancel: chan)
  | Listener (shutdown: chan)

fun sender :: "socket_entry \<Rightarrow> chan" where
  "sender (Tcp ch) = ch"
| "sender (Udp _ _ ch) = ch"
| "sender (Listener ch) = ch"

text \<open>What the session does to the outside world, in order. A write to a TCP peer is listed with the channel its data came
  from: \<open>TcpWrite\<close> when \<^verbatim>\<open>write_all\<close> succeeded, \<open>TcpBroken\<close> when it failed, with the bytes that had been accepted until then.
  Name lookups are not listed; \<open>TcpBind\<close> is listed with the port asked for.\<close>

datatype effect =
    TcpDial socket_addr
  | Reused str
  | UdpConnect socket_addr
  | UdpSend conn socket_addr "u8 list"
  | TcpBind str u16
  | TcpWrite conn chan "u8 list"
  | TcpBroken conn chan "u8 list"

record 'net session_config =
  cfg_policy :: "'net policy"
  cfg_rate_limiter :: rate_limiter
  cfg_pool :: "conn connection_pool option"

text \<open>The fields of \<^verbatim>\<open>Ctx\<close>; \<open>tx\<close> is every event sent so far. The rest is bookkeeping: the channel contents, the
  next channel number, the writer channels whose receiver is gone, the effects, how often \<^verbatim>\<open>handle_close\<close> has decremented
  \<open>active\<close>, what was ever sent to the writer channels, what was ever read from a peer (with the identifier and the channel of its
  bridge), and the numbers given to accepted connections (with the shutdown channel and the identifier of the listener).\<close>

record 'net ctx =
  tx :: "event list"
  sockets :: "(u64, socket_entry) hmap"
  policy :: "'net policy"
  active :: usize
  rl :: rate_limiter
  pool :: "conn connection_pool option"
  queued :: "(chan, u8 list list) hmap"
  next_chan :: chan
  closed_rx :: "chan list"
  effects :: "effect list"
  closes :: nat
  pushed :: "(chan \<times> u8 list) list"
  got :: "(u64 \<times> chan \<times> u8 list) list"
  given :: "(chan \<times> u64 \<times> u64) list"

record 'net env =
  net :: "'net net_lib"
  codec :: codec_lib
  server_name :: "str \<Rightarrow> unit rresult"

text \<open>\<open>server_name\<close> is \<^verbatim>\<open>ServerName::try_from\<close> of \<^verbatim>\<open>rustls\<close>.\<close>

definition Ctx_new :: "'net session_config \<Rightarrow> 'net ctx" where
  "Ctx_new config =
     \<lparr>tx = [], sockets = [], policy = cfg_policy config, active = 0, rl = cfg_rate_limiter config,
      pool = cfg_pool config, queued = [], next_chan = 0, closed_rx = [], effects = [], closes = 0,
      pushed = [], got = [], given = []\<rparr>"

definition notify :: "event \<Rightarrow> 'net ctx \<Rightarrow> 'net ctx" where
  "notify ev c = c\<lparr>tx := tx c @ [ev]\<rparr>"

definition emit :: "effect \<Rightarrow> 'net ctx \<Rightarrow> 'net ctx" where
  "emit e c = c\<lparr>effects := effects c @ [e]\<rparr>"

definition channel :: "'net ctx \<Rightarrow> chan \<times> 'net ctx" where
  "channel c = (next_chan c, c\<lparr>next_chan := Suc (next_chan c)\<rparr>)"

definition sender_dropped :: "'net ctx \<Rightarrow> chan \<Rightarrow> bool" where
  "sender_dropped c ch \<longleftrightarrow> \<not> list_ex (\<lambda>(_, e). sender e = ch) (sockets c)"

definition queue_of :: "'net ctx \<Rightarrow> chan \<Rightarrow> u8 list list" where
  "queue_of c ch = (case hm_get (queued c) ch of None \<Rightarrow> [] | Some q \<Rightarrow> q)"

definition at_connection_limit :: "u64 \<Rightarrow> 'net ctx \<Rightarrow> bool \<times> 'net ctx" where
  "at_connection_limit i c =
     (if max_connections (policy c) \<le> active c
      then (True, notify (event_error i ''max connections reached'') c) else (False, c))"

definition approved_target ::
  "'net env \<Rightarrow> resolver \<Rightarrow> u64 \<Rightarrow> str \<Rightarrow> u16 \<Rightarrow> 'net ctx \<Rightarrow> socket_addr option \<times> 'net ctx" where
  "approved_target env lookup i addr port c =
     (case resolve_and_check (net env) (policy c) lookup addr port of
        Inr target \<Rightarrow> (Some target, c)
      | Inl msg \<Rightarrow> (None, notify (event_denied i msg) c))"

section \<open>Connecting\<close>

datatype dialed = Established conn | Refused str | TimedOut

fun tcp_connect :: "dialed \<Rightarrow> conn rresult" where
  "tcp_connect (Established s) = Inr s"
| "tcp_connect (Refused e) = Inl e"
| "tcp_connect TimedOut = Inl ''connection timed out''"

definition try_pool_or_connect :: "socket_addr \<Rightarrow> clock \<Rightarrow> dialed \<Rightarrow> 'net ctx \<Rightarrow> conn rresult \<times> 'net ctx" where
  "try_pool_or_connect target clk outcome c =
     (case pool c of
        None \<Rightarrow> (tcp_connect outcome, emit (TcpDial target) c)
      | Some p \<Rightarrow>
          (case pool_get (print_sa target) clk p of
             (Some s, p') \<Rightarrow> (Inr s, emit (Reused (print_sa target)) (c\<lparr>pool := Some p'\<rparr>))
           | (None, p') \<Rightarrow> (tcp_connect outcome, emit (TcpDial target) (c\<lparr>pool := Some p'\<rparr>))))"

section \<open>Tasks\<close>

datatype reader_half = Reading | Delivering "u8 list" | ReaderDone
datatype writer_half = Waiting | Writing "u8 list" | WriterDone

text \<open>The tasks of the session. In \<open>Connecting\<close> and \<open>Dialing\<close> the option is the host name of a TLS connection.
  \<open>Bridging\<close> holds both halves of \<^verbatim>\<open>run_bridge\<close>; its flag tells an outgoing connection, which counts as
  active and shares the session's rate limiter, from an accepted one, which does neither.\<close>

datatype task =
    Connecting u64 str u16 "str option"
  | Dialing u64 socket_addr "str option"
  | Handshaking u64 str conn
  | Registering u64 conn chan
  | Bridging u64 conn chan bool reader_half writer_half
  | Unregistering u64
  | UdpReceiving u64 conn chan "(u8 list \<times> socket_addr) option"
  | UdpUnregistering u64
  | Accepting u64 conn chan u64
  | AcceptRegistering u64 conn chan u64 u64 conn chan
  | Resolving u64 str

definition established :: "u64 \<Rightarrow> conn \<Rightarrow> 'net ctx \<Rightarrow> 'net ctx \<times> task list" where
  "established i s c =
     (let c = notify (Connected i) (c\<lparr>active := active c + 1\<rparr>); (ch, c) = channel c in
      (c, [Registering i s ch]))"

definition meter :: "bool \<Rightarrow> nat \<Rightarrow> nanos \<Rightarrow> 'net ctx \<Rightarrow> 'net ctx option" where
  "meter limited n now c =
     (if limited then map_option (\<lambda>(rl', _). c\<lparr>rl := rl'\<rparr>) (consume (of_nat n) now (rl c)) else Some c)"

text \<open>The task of \<^verbatim>\<open>handle_connect\<close> and \<^verbatim>\<open>handle_connect_tls\<close>, from one await to the next.\<close>

definition connect_approve ::
  "'net env \<Rightarrow> resolver \<Rightarrow> u64 \<Rightarrow> str \<Rightarrow> u16 \<Rightarrow> str option \<Rightarrow> 'net ctx \<Rightarrow> 'net ctx \<times> task list" where
  "connect_approve env lookup i addr port sni c =
     (case approved_target env lookup i addr port c of
        (Some target, c) \<Rightarrow> (c, [Dialing i target sni])
      | (None, c) \<Rightarrow> (c, []))"

definition connect_dial :: "clock \<Rightarrow> dialed \<Rightarrow> u64 \<Rightarrow> socket_addr \<Rightarrow> 'net ctx \<Rightarrow> 'net ctx \<times> task list" where
  "connect_dial clk outcome i target c =
     (case try_pool_or_connect target clk outcome c of
        (Inr s, c) \<Rightarrow> established i s c
      | (Inl msg, c) \<Rightarrow> (notify (event_error i msg) c, []))"

definition tls_dial :: "dialed \<Rightarrow> u64 \<Rightarrow> socket_addr \<Rightarrow> str \<Rightarrow> 'net ctx \<Rightarrow> 'net ctx \<times> task list" where
  "tls_dial outcome i target host c =
     (let c = emit (TcpDial target) c in
      case tcp_connect outcome of
        Inr s \<Rightarrow> (c, [Handshaking i host s])
      | Inl msg \<Rightarrow> (notify (event_error i msg) c, []))"

text \<open>The name is checked after the connection is made, the handshake itself is \<^verbatim>\<open>rustls\<close>'s.\<close>

definition tls_connector :: "'net env \<Rightarrow> str \<Rightarrow> unit rresult \<Rightarrow> unit rresult" where
  "tls_connector env domain outcome =
     (case server_name env domain of Inl e \<Rightarrow> Inl e | Inr _ \<Rightarrow> outcome)"

definition tls_handshake :: "unit rresult \<Rightarrow> u64 \<Rightarrow> conn \<Rightarrow> 'net ctx \<Rightarrow> 'net ctx \<times> task list" where
  "tls_handshake r i s c =
     (case r of
        Inr _ \<Rightarrow> established i s c
      | Inl e \<Rightarrow> (notify (event_error i (''TLS error: '' @ e)) c, []))"

definition register_tcp :: "u64 \<Rightarrow> chan \<Rightarrow> 'net ctx \<Rightarrow> 'net ctx" where
  "register_tcp i ch c = c\<lparr>sockets := hm_insert i (Tcp ch) (sockets c)\<rparr>"

definition unregister :: "u64 \<Rightarrow> 'net ctx \<Rightarrow> 'net ctx" where
  "unregister i c = c\<lparr>sockets := hm_remove i (sockets c)\<rparr>"

text \<open>The reader of \<^verbatim>\<open>run_bridge\<close>: one read of at most 16384 bytes, then the delivery of what was read.\<close>

definition bridge_read ::
  "bool \<Rightarrow> u64 \<Rightarrow> chan \<Rightarrow> u8 list rresult \<Rightarrow> nanos \<Rightarrow> 'net ctx \<Rightarrow> ('net ctx \<times> reader_half) option" where
  "bridge_read counted i ch r now c =
     (case r of
        Inl e \<Rightarrow> Some (notify (event_error i e) c, ReaderDone)
      | Inr bytes \<Rightarrow>
          if bytes = [] then Some (notify (Closed i) c, ReaderDone)
          else if length bytes \<le> 16384 then
            map_option (\<lambda>c. (c, Delivering bytes)) (meter counted (length bytes) now (c\<lparr>got := got c @ [(i, ch, bytes)]\<rparr>))
          else None)"

definition bridge_deliver :: "'net env \<Rightarrow> u64 \<Rightarrow> u8 list \<Rightarrow> 'net ctx \<Rightarrow> 'net ctx" where
  "bridge_deliver env i bytes c = notify (Data i (b64_encode (codec env) bytes)) c"

text \<open>The writer: the next message of the channel, or the end when there is none and the sender is gone;
  \<^const>\<open>None\<close> while it waits.\<close>

definition bridge_take :: "bool \<Rightarrow> chan \<Rightarrow> nanos \<Rightarrow> 'net ctx \<Rightarrow> ('net ctx \<times> writer_half) option" where
  "bridge_take counted ch now c =
     (case queue_of c ch of
        data # rest \<Rightarrow>
          map_option (\<lambda>c. (c\<lparr>queued := hm_insert ch rest (queued c)\<rparr>, Writing data)) (meter counted (length data) now c)
      | [] \<Rightarrow> if sender_dropped c ch then Some (c, WriterDone) else None)"

text \<open>One \<^verbatim>\<open>write_all\<close>, which may fail after \<open>n\<close> bytes. The writer then ends and drops the receiver: what the channel holds is
  gone, and \<^verbatim>\<open>send\<close> on it fails from then on.\<close>

definition bridge_write :: "conn \<Rightarrow> chan \<Rightarrow> u8 list \<Rightarrow> nat option \<Rightarrow> 'net ctx \<Rightarrow> 'net ctx \<times> writer_half" where
  "bridge_write s ch data failed_at c =
     (case failed_at of
        None \<Rightarrow> (emit (TcpWrite s ch data) c, Waiting)
      | Some n \<Rightarrow>
          ((emit (TcpBroken s ch (take n data)) c)\<lparr>queued := hm_remove ch (queued c), closed_rx := ch # closed_rx c\<rparr>,
           WriterDone))"

definition bridge_end :: "bool \<Rightarrow> 'net ctx \<Rightarrow> 'net ctx" where
  "bridge_end counted c = (if counted then c\<lparr>active := active c - 1\<rparr> else c)"

text \<open>The receive loop of a UDP socket.\<close>

definition udp_receive :: "u8 list \<Rightarrow> nanos \<Rightarrow> 'net ctx \<Rightarrow> 'net ctx option" where
  "udp_receive bytes now c = (if length bytes \<le> 65536 then meter True (length bytes) now c else None)"

definition udp_deliver :: "'net env \<Rightarrow> u64 \<Rightarrow> u8 list \<Rightarrow> socket_addr \<Rightarrow> 'net ctx \<Rightarrow> 'net ctx" where
  "udp_deliver env i bytes from c =
     notify (DataFrom i (b64_encode (codec env) bytes) (print_ip (sa_ip from)) (sa_port from)) c"

definition udp_end :: "'net ctx \<Rightarrow> 'net ctx" where
  "udp_end c = c\<lparr>active := active c - 1\<rparr>"

text \<open>\<^verbatim>\<open>next_conn_id\<close> starts at \<^verbatim>\<open>id * 1_000_000 + 1\<close>, wrapping as unchecked 64-bit arithmetic does.\<close>

definition first_conn_id :: "u64 \<Rightarrow> u64" where
  "first_conn_id i = i * 1000000 + 1"

definition listener_accept :: "u64 \<Rightarrow> chan \<Rightarrow> u64 \<Rightarrow> socket_addr \<Rightarrow> 'net ctx \<Rightarrow> chan \<times> 'net ctx" where
  "listener_accept i ch conn_id remote c =
     channel (notify (Accepted i conn_id (print_sa remote)) (c\<lparr>given := given c @ [(ch, i, conn_id)]\<rparr>))"

text \<open>The rest of \<^verbatim>\<open>run_listener\<close>: entering an accepted connection into the map and starting its bridge, a failed accept, and
  the shutdown signal.\<close>

definition listener_insert :: "u64 \<Rightarrow> conn \<Rightarrow> chan \<Rightarrow> u64 \<Rightarrow> u64 \<Rightarrow> conn \<Rightarrow> chan \<Rightarrow> 'net ctx \<Rightarrow> 'net ctx \<times> task list" where
  "listener_insert i l ch n conn_id s ch' c =
     (register_tcp conn_id ch' c, [Accepting i l ch n, Bridging conn_id s ch' False Reading Waiting])"

definition listener_error :: "u64 \<Rightarrow> str \<Rightarrow> 'net ctx \<Rightarrow> 'net ctx \<times> task list" where
  "listener_error i e c = (notify (Closed i) (notify (event_error i e) c), [])"

definition listener_stop :: "u64 \<Rightarrow> 'net ctx \<Rightarrow> 'net ctx \<times> task list" where
  "listener_stop i c = (notify (Closed i) c, [])"

definition resolve_done :: "resolver \<Rightarrow> u64 \<Rightarrow> str \<Rightarrow> 'net ctx \<Rightarrow> 'net ctx" where
  "resolve_done lookup i name c =
     (case dns_resolve lookup name of
        Inr addrs \<Rightarrow> notify (Resolved i addrs) c
      | Inl msg \<Rightarrow> notify (event_error i msg) c)"

inductive task_step :: "'net env \<Rightarrow> 'net ctx \<times> task \<Rightarrow> 'net ctx \<times> task list \<Rightarrow> bool" for env where
  approve: "task_step env (c, Connecting i addr port sni) (connect_approve env lookup i addr port sni c)"
| dial: "task_step env (c, Dialing i target None) (connect_dial clk outcome i target c)"
| dial_tls: "task_step env (c, Dialing i target (Some host)) (tls_dial outcome i target host c)"
| handshake: "task_step env (c, Handshaking i host s) (tls_handshake (tls_connector env host r) i s c)"
| register: "task_step env (c, Registering i s ch) (register_tcp i ch c, [Bridging i s ch True Reading Waiting])"
| read: "bridge_read counted i ch r now c = Some (c', rd') \<Longrightarrow>
    task_step env (c, Bridging i s ch counted Reading wr) (c', [Bridging i s ch counted rd' wr])"
| deliver: "task_step env (c, Bridging i s ch counted (Delivering bytes) wr)
    (bridge_deliver env i bytes c, [Bridging i s ch counted Reading wr])"
| take: "bridge_take counted ch now c = Some (c', wr') \<Longrightarrow>
    task_step env (c, Bridging i s ch counted rd Waiting) (c', [Bridging i s ch counted rd wr'])"
| wrote: "pred_option (\<lambda>n. n < length data) failed_at \<Longrightarrow> bridge_write s ch data failed_at c = (c', wr') \<Longrightarrow>
    task_step env (c, Bridging i s ch counted rd (Writing data)) (c', [Bridging i s ch counted rd wr'])"
| joined: "task_step env (c, Bridging i s ch counted ReaderDone WriterDone) (bridge_end counted c, [Unregistering i])"
| unregister: "task_step env (c, Unregistering i) (unregister i c, [])"
| datagram: "udp_receive bytes now c = Some c' \<Longrightarrow>
    task_step env (c, UdpReceiving i s ch None) (c', [UdpReceiving i s ch (Some (bytes, from))])"
| udp_deliver: "task_step env (c, UdpReceiving i s ch (Some (bytes, from)))
    (udp_deliver env i bytes from c, [UdpReceiving i s ch None])"
| udp_error: "task_step env (c, UdpReceiving i s ch None) (udp_end c, [UdpUnregistering i])"
| udp_cancel: "sender_dropped c ch \<Longrightarrow> task_step env (c, UdpReceiving i s ch None) (udp_end c, [UdpUnregistering i])"
| udp_unregister: "task_step env (c, UdpUnregistering i) (notify (Closed i) (unregister i c), [])"
| accept: "listener_accept i ch n remote c = (ch', c') \<Longrightarrow>
    task_step env (c, Accepting i l ch n) (c', [AcceptRegistering i l ch (n + 1) n s ch'])"
| accept_register: "task_step env (c, AcceptRegistering i l ch n k s ch') (listener_insert i l ch n k s ch' c)"
| accept_error: "task_step env (c, Accepting i l ch n) (listener_error i e c)"
| listener_shutdown: "sender_dropped c ch \<Longrightarrow> task_step env (c, Accepting i l ch n) (listener_stop i c)"
| resolved: "task_step env (c, Resolving i name) (resolve_done lookup i name c, [])"

section \<open>The session loop\<close>

text \<open>Where the loop waits: for a message, or inside one of the handlers it awaits.\<close>

datatype main_state =
    Ready
  | UdpApproving u64 str u16
  | UdpBinding u64 socket_addr
  | UdpConnecting u64 socket_addr conn
  | UdpRegistering u64 socket_addr conn u16 chan
  | BindOpening u64 str u16
  | BindRegistering u64 conn chan
  | Sending conn str "u8 list"
  | SendToApproving u64 conn str u16 "u8 list"
  | SendToSending conn socket_addr "u8 list"
  | CleaningUp
  | Ended

type_synonym 'net outcome = "'net ctx \<times> main_state \<times> task list"

definition handle_connect :: "u64 \<Rightarrow> str \<Rightarrow> u16 \<Rightarrow> 'net ctx \<Rightarrow> 'net outcome" where
  "handle_connect i addr port c =
     (case at_connection_limit i c of
        (True, c) \<Rightarrow> (c, Ready, [])
      | (False, c) \<Rightarrow> (c, Ready, [Connecting i addr port None]))"

definition handle_connect_tls :: "u64 \<Rightarrow> str \<Rightarrow> u16 \<Rightarrow> 'net ctx \<Rightarrow> 'net outcome" where
  "handle_connect_tls i addr port c =
     (case at_connection_limit i c of
        (True, c) \<Rightarrow> (c, Ready, [])
      | (False, c) \<Rightarrow> (c, Ready, [Connecting i addr port (Some addr)]))"

definition handle_connect_udp :: "u64 \<Rightarrow> str \<Rightarrow> u16 \<Rightarrow> 'net ctx \<Rightarrow> 'net outcome" where
  "handle_connect_udp i addr port c =
     (case at_connection_limit i c of
        (True, c) \<Rightarrow> (c, Ready, [])
      | (False, c) \<Rightarrow> (c, UdpApproving i addr port, []))"

definition handle_bind :: "u64 \<Rightarrow> str \<Rightarrow> u16 \<Rightarrow> 'net ctx \<Rightarrow> 'net outcome" where
  "handle_bind i addr port c =
     (case check_bind (policy c) port of
        Inl msg \<Rightarrow> (notify (event_denied i msg) c, Ready, [])
      | Inr _ \<Rightarrow> (c, BindOpening i addr port, []))"

definition handle_send :: "'net env \<Rightarrow> u64 \<Rightarrow> str \<Rightarrow> 'net ctx \<Rightarrow> 'net outcome" where
  "handle_send env i data_b64 c =
     (case b64_decode (codec env) data_b64 of
        None \<Rightarrow> (c, Ready, [])
      | Some bytes \<Rightarrow>
          (case hm_get (sockets c) i of
             Some (Tcp ch) \<Rightarrow>
               (let c' = c\<lparr>pushed := pushed c @ [(ch, bytes)]\<rparr> in
                (if ch \<in> set (closed_rx c) then c' else c'\<lparr>queued := hm_insert ch (queue_of c ch @ [bytes]) (queued c)\<rparr>,
                 Ready, []))
           | Some (Udp s (Some target) _) \<Rightarrow> (c, Sending s target bytes, [])
           | _ \<Rightarrow> (c, Ready, [])))"

definition handle_send_to :: "'net env \<Rightarrow> u64 \<Rightarrow> str \<Rightarrow> u16 \<Rightarrow> str \<Rightarrow> 'net ctx \<Rightarrow> 'net outcome" where
  "handle_send_to env i addr port data_b64 c =
     (case b64_decode (codec env) data_b64 of
        None \<Rightarrow> (c, Ready, [])
      | Some bytes \<Rightarrow>
          (case hm_get (sockets c) i of
             Some (Udp s _ _) \<Rightarrow> (c, SendToApproving i s addr port bytes, [])
           | _ \<Rightarrow> (c, Ready, [])))"

definition handle_close :: "u64 \<Rightarrow> 'net ctx \<Rightarrow> 'net outcome" where
  "handle_close i c =
     (case hm_get (sockets c) i of
        None \<Rightarrow> (c, Ready, [])
      | Some entry \<Rightarrow>
          (let c = c\<lparr>sockets := hm_remove i (sockets c)\<rparr> in
           case entry of
             Listener _ \<Rightarrow> (c, Ready, [])
           | _ \<Rightarrow> (c\<lparr>active := active c - 1, closes := Suc (closes c)\<rparr>, Ready, [])))"

definition handle_resolve :: "u64 \<Rightarrow> str \<Rightarrow> 'net ctx \<Rightarrow> 'net outcome" where
  "handle_resolve i name c = (c, Ready, [Resolving i name])"

fun dispatch :: "'net env \<Rightarrow> request \<Rightarrow> 'net ctx \<Rightarrow> 'net outcome" where
  "dispatch env (Connect i addr port) c = handle_connect i addr port c"
| "dispatch env (ConnectTls i addr port) c = handle_connect_tls i addr port c"
| "dispatch env (ConnectUdp i addr port) c = handle_connect_udp i addr port c"
| "dispatch env (Bind i addr port) c = handle_bind i addr port c"
| "dispatch env (Listen i backlog) c = (notify (Listening i 0) c, Ready, [])"
| "dispatch env (Send i data) c = handle_send env i data c"
| "dispatch env (SendTo i addr port data) c = handle_send_to env i addr port data c"
| "dispatch env (Close i) c = handle_close i c"
| "dispatch env (Resolve i name) c = handle_resolve i name c"

definition cleanup :: "'net ctx \<Rightarrow> 'net ctx" where
  "cleanup c = c\<lparr>sockets := []\<rparr>"

text \<open>The handlers the loop awaits, from one await to the next. The text stored as a UDP socket's default target is
  parsed again when a datagram is sent to it; a failing \<^verbatim>\<open>local_addr\<close> gives the fallback port.\<close>

definition udp_approve :: "'net env \<Rightarrow> resolver \<Rightarrow> u64 \<Rightarrow> str \<Rightarrow> u16 \<Rightarrow> 'net ctx \<Rightarrow> 'net outcome" where
  "udp_approve env lookup i addr port c =
     (case approved_target env lookup i addr port c of
        (Some target, c) \<Rightarrow> (c, UdpBinding i target, [])
      | (None, c) \<Rightarrow> (c, Ready, []))"

definition udp_bind :: "conn rresult \<Rightarrow> u64 \<Rightarrow> socket_addr \<Rightarrow> 'net ctx \<Rightarrow> 'net outcome" where
  "udp_bind r i target c =
     (case r of
        Inr s \<Rightarrow> (c, UdpConnecting i target s, [])
      | Inl e \<Rightarrow> (notify (event_error i (''UDP bind failed: '' @ e)) c, Ready, []))"

definition udp_connect ::
  "unit rresult \<Rightarrow> u16 option \<Rightarrow> u64 \<Rightarrow> socket_addr \<Rightarrow> conn \<Rightarrow> 'net ctx \<Rightarrow> 'net outcome" where
  "udp_connect r local_port i target s c =
     (let c = emit (UdpConnect target) c in
      case r of
        Inl e \<Rightarrow> (notify (event_error i (''UDP connect failed: '' @ e)) c, Ready, [])
      | Inr _ \<Rightarrow>
          (let c = c\<lparr>active := active c + 1\<rparr>; (ch, c) = channel c in
           (c, UdpRegistering i target s (case local_port of None \<Rightarrow> 0 | Some p \<Rightarrow> p) ch, [])))"

definition udp_register :: "u64 \<Rightarrow> socket_addr \<Rightarrow> conn \<Rightarrow> u16 \<Rightarrow> chan \<Rightarrow> 'net ctx \<Rightarrow> 'net outcome" where
  "udp_register i target s local_port ch c =
     (notify (UdpBound i local_port) (c\<lparr>sockets := hm_insert i (Udp s (Some (print_sa target)) ch) (sockets c)\<rparr>),
      Ready, [UdpReceiving i s ch None])"

definition bind_open :: "(conn \<times> u16 option) rresult \<Rightarrow> u64 \<Rightarrow> str \<Rightarrow> u16 \<Rightarrow> 'net ctx \<Rightarrow> 'net outcome" where
  "bind_open r i addr port c =
     (let c = emit (TcpBind (addr @ '':'' @ print_u16 port) port) c in
      case r of
        Inl e \<Rightarrow> (notify (event_error i e) c, Ready, [])
      | Inr (l, local_port) \<Rightarrow>
          (let c = notify (Listening i (case local_port of None \<Rightarrow> port | Some p \<Rightarrow> p)) c; (ch, c) = channel c in
           (c, BindRegistering i l ch, [])))"

definition bind_register :: "u64 \<Rightarrow> conn \<Rightarrow> chan \<Rightarrow> 'net ctx \<Rightarrow> 'net outcome" where
  "bind_register i l ch c =
     (c\<lparr>sockets := hm_insert i (Listener ch) (sockets c)\<rparr>, Ready, [Accepting i l ch (first_conn_id i)])"

definition send_datagram :: "conn \<Rightarrow> str \<Rightarrow> u8 list \<Rightarrow> 'net ctx \<Rightarrow> 'net outcome" where
  "send_datagram s target bytes c =
     (case parse_sa target of
        Some t \<Rightarrow> (emit (UdpSend s t bytes) c, Ready, [])
      | None \<Rightarrow> (c, Ready, []))"

definition send_to_approve ::
  "'net env \<Rightarrow> resolver \<Rightarrow> u64 \<Rightarrow> conn \<Rightarrow> str \<Rightarrow> u16 \<Rightarrow> u8 list \<Rightarrow> 'net ctx \<Rightarrow> 'net outcome" where
  "send_to_approve env lookup i s addr port bytes c =
     (case approved_target env lookup i addr port c of
        (Some target, c) \<Rightarrow> (c, SendToSending s target bytes, [])
      | (None, c) \<Rightarrow> (c, Ready, []))"

inductive handler_step :: "'net env \<Rightarrow> 'net ctx \<times> main_state \<Rightarrow> 'net outcome \<Rightarrow> bool" for env where
  udp_approve: "handler_step env (c, UdpApproving i addr port) (udp_approve env lookup i addr port c)"
| udp_bind: "handler_step env (c, UdpBinding i target) (udp_bind r i target c)"
| udp_connect: "handler_step env (c, UdpConnecting i target s) (udp_connect r local_port i target s c)"
| udp_register: "handler_step env (c, UdpRegistering i target s p ch) (udp_register i target s p ch c)"
| bind_open: "handler_step env (c, BindOpening i addr port) (bind_open r i addr port c)"
| bind_register: "handler_step env (c, BindRegistering i l ch) (bind_register i l ch c)"
| send: "handler_step env (c, Sending s target bytes) (send_datagram s target bytes c)"
| send_to_approve: "handler_step env (c, SendToApproving i s addr port bytes)
    (send_to_approve env lookup i s addr port bytes c)"
| send_to: "handler_step env (c, SendToSending s target bytes) (emit (UdpSend s target bytes) c, Ready, [])"
| cleaning: "handler_step env (c, CleaningUp) (cleanup c, Ended, [])"

section \<open>The session\<close>

datatype message = TextMsg str | BinaryMsg "u8 list" | CloseMsg | OtherMsg

text \<open>The session of \<^verbatim>\<open>handle_session\<close>: the loop, its tasks, and the task that writes events to the socket, which
  encodes each event in the mode of the last message received at that moment. \<open>sent\<close> counts the events taken
  from the channel, \<open>wire\<close> is what was written.\<close>

record 'net session =
  ctx :: "'net ctx"
  main :: main_state
  tasks :: "task list"
  binary_mode :: bool
  sent :: nat
  wire :: "message list"
  sink_open :: bool

definition session_new :: "'net session_config \<Rightarrow> 'net session" where
  "session_new config =
     \<lparr>ctx = Ctx_new config, main = Ready, tasks = [], binary_mode = False, sent = 0, wire = [], sink_open = True\<rparr>"

text \<open>A message is decoded to a request, refused with an error event, ends the loop or is skipped.\<close>

datatype received = Request request | Invalid str | Stop | Skip

fun receive :: "codec_lib \<Rightarrow> message \<Rightarrow> received" where
  "receive lib (TextMsg t) =
     (case json_request lib t of Inr r \<Rightarrow> Request r | Inl e \<Rightarrow> Invalid (''invalid request: '' @ e))"
| "receive lib (BinaryMsg b) =
     (case decode_request lib b of
        Some (Inr r) \<Rightarrow> Request r
      | Some (Inl e) \<Rightarrow> Invalid (''invalid binary frame: '' @ e)
      | None \<Rightarrow> Stop)"
| "receive lib CloseMsg = Stop"
| "receive lib OtherMsg = Skip"

fun mode_after :: "message \<Rightarrow> bool \<Rightarrow> bool" where
  "mode_after (TextMsg _) m = False"
| "mode_after (BinaryMsg _) m = True"
| "mode_after _ m = m"

definition on_message :: "'net env \<Rightarrow> message \<Rightarrow> 'net session \<Rightarrow> 'net session" where
  "on_message env msg s =
     (let s = s\<lparr>binary_mode := mode_after msg (binary_mode s)\<rparr> in
      case receive (codec env) msg of
        Request r \<Rightarrow>
          (case dispatch env r (ctx s) of (c, m, ts) \<Rightarrow> s\<lparr>ctx := c, main := m, tasks := tasks s @ ts\<rparr>)
      | Invalid e \<Rightarrow> s\<lparr>ctx := notify (event_error 0 e) (ctx s)\<rparr>
      | Stop \<Rightarrow> s\<lparr>main := CleaningUp\<rparr>
      | Skip \<Rightarrow> s)"

definition encode_message :: "codec_lib \<Rightarrow> bool \<Rightarrow> event \<Rightarrow> message" where
  "encode_message lib binary ev = (if binary then BinaryMsg (encode_event lib ev) else TextMsg (json_event lib ev))"

definition send_next :: "'net env \<Rightarrow> bool \<Rightarrow> 'net session \<Rightarrow> 'net session" where
  "send_next env ok s =
     (if sent s < length (tx (ctx s)) \<and> sink_open s then
        let s' = s\<lparr>sent := Suc (sent s)\<rparr> in
        if ok then s'\<lparr>wire := wire s @ [encode_message (codec env) (binary_mode s) (tx (ctx s) ! sent s)]\<rparr>
        else s'\<lparr>sink_open := False\<rparr>
      else s)"

text \<open>The rate limiter and the pool are shared with the other sessions of the server, and the pool with its
  cleanup task.\<close>

inductive shared_step :: "'net ctx \<Rightarrow> 'net ctx \<Rightarrow> bool" where
  other_consume: "consume n now (rl c) = Some (rl', w) \<Longrightarrow> shared_step c (c\<lparr>rl := rl'\<rparr>)"
| other_get: "pool c = Some p \<Longrightarrow> shared_step c (c\<lparr>pool := Some (snd (pool_get t clk p))\<rparr>)"
| pool_clean: "pool c = Some p \<Longrightarrow> shared_step c (c\<lparr>pool := Some (pool_cleanup clk p)\<rparr>)"

inductive session_step :: "'net env \<Rightarrow> 'net session \<Rightarrow> 'net session \<Rightarrow> bool" for env where
  message: "main s = Ready \<Longrightarrow> session_step env s (on_message env msg s)"
| hang_up: "main s = Ready \<Longrightarrow> session_step env s (s\<lparr>main := CleaningUp\<rparr>)"
| handler: "handler_step env (ctx s, main s) (c', m', ts) \<Longrightarrow>
    session_step env s (s\<lparr>ctx := c', main := m', tasks := tasks s @ ts\<rparr>)"
| task: "tasks s = xs @ t # ys \<Longrightarrow> task_step env (ctx s, t) (c', ts) \<Longrightarrow>
    session_step env s (s\<lparr>ctx := c', tasks := xs @ ts @ ys\<rparr>)"
| send: "session_step env s (send_next env ok s)"
| shared: "shared_step (ctx s) c' \<Longrightarrow> session_step env s (s\<lparr>ctx := c'\<rparr>)"

definition started :: "'net session_config \<Rightarrow> 'net session \<Rightarrow> bool" where
  "started config s \<longleftrightarrow> s = session_new config"

end
