(* ===== verification/Session.thy ===== *)
theory Session
  imports Proxy
begin

text \<open>
  Invariants of a session over every interleaving of its loop, its tasks, the network and the other sessions:
  where traffic may go, what the connection counter counts, that no call of the rate limiter panics, and that
  the connection pool is never filled.
\<close>

section \<open>Automation\<close>

named_theorems op_defs

lemmas ctx_ops [op_defs] = channel_def register_tcp_def unregister_def established_def
  bridge_deliver_def bridge_write_def bridge_end_def udp_deliver_def udp_end_def listener_accept_def
  listener_insert_def listener_error_def listener_stop_def resolve_done_def cleanup_def

lemmas connect_ops [op_defs] = connect_approve_def connect_dial_def tls_dial_def tls_handshake_def
  approved_target_def try_pool_or_connect_def

lemmas handler_ops [op_defs] = udp_approve_def udp_bind_def udp_connect_def udp_register_def bind_open_def
  bind_register_def send_datagram_def send_to_approve_def

lemmas request_ops [op_defs] = handle_connect_def handle_connect_tls_def handle_connect_udp_def handle_bind_def
  handle_send_def handle_send_to_def handle_close_def handle_resolve_def at_connection_limit_def

lemmas op_splits = option.splits sum.splits prod.splits socket_entry.splits list.splits if_splits

inductive_cases task_stepE: "task_step env (c, t) out"
inductive_cases handler_stepE: "handler_step env (c, m) out"
inductive_cases shared_stepE: "shared_step c c'"

lemma notify_fields [simp]:
  "tx (notify ev c) = tx c @ [ev]" "sockets (notify ev c) = sockets c" "policy (notify ev c) = policy c"
  "active (notify ev c) = active c" "rl (notify ev c) = rl c" "pool (notify ev c) = pool c"
  "queued (notify ev c) = queued c" "next_chan (notify ev c) = next_chan c" "effects (notify ev c) = effects c"
  "closes (notify ev c) = closes c" "pushed (notify ev c) = pushed c" "got (notify ev c) = got c"
  "closed_rx (notify ev c) = closed_rx c" "given (notify ev c) = given c"
  by (simp_all add: notify_def)

lemma emit_fields [simp]:
  "tx (emit e c) = tx c" "sockets (emit e c) = sockets c" "policy (emit e c) = policy c"
  "active (emit e c) = active c" "rl (emit e c) = rl c" "pool (emit e c) = pool c"
  "queued (emit e c) = queued c" "next_chan (emit e c) = next_chan c" "effects (emit e c) = effects c @ [e]"
  "closes (emit e c) = closes c" "pushed (emit e c) = pushed c" "got (emit e c) = got c"
  "closed_rx (emit e c) = closed_rx c" "given (emit e c) = given c"
  by (simp_all add: emit_def)

text \<open>Metering changes the limiter only.\<close>

lemma meter_Some: "meter limited n now c = Some c' \<Longrightarrow> \<exists>r. c' = c\<lparr>rl := r\<rparr>"
  by (auto simp: meter_def split: if_splits intro: exI [of _ "rl c"])

lemma bridge_read_cases:
  assumes "bridge_read counted i ch r now c = Some (c', rd')"
  obtains ev where "c' = notify ev c" "rd' = ReaderDone" "ev = Closed i \<or> (\<exists>e. ev = event_error i e)"
  | lim bytes where "c' = c\<lparr>got := got c @ [(i, ch, bytes)], rl := lim\<rparr>" "rd' = Delivering bytes" "bytes \<noteq> []" "length bytes \<le> 16384"
proof (cases r)
  case (Inl e)
  with assms that(1) show thesis by (auto simp: bridge_read_def)
next
  case (Inr bytes)
  with assms that(1) that(2) meter_Some [of counted "length bytes" now "c\<lparr>got := got c @ [(i, ch, bytes)]\<rparr>"] show thesis
    by (cases "bytes = []") (auto simp: bridge_read_def split: if_splits)
qed

lemma bridge_take_cases:
  assumes "bridge_take counted ch now c = Some (c', wr')"
  obtains "c' = c" "wr' = WriterDone" "sender_dropped c ch" "queue_of c ch = []"
  | lim data rest where "c' = c\<lparr>rl := lim, queued := hm_insert ch rest (queued c)\<rparr>" "wr' = Writing data"
    "queue_of c ch = data # rest"
proof (cases "queue_of c ch")
  case Nil
  with assms that(1) show thesis by (auto simp: bridge_take_def split: if_splits)
next
  case (Cons data rest)
  with assms that(2) meter_Some [of counted "length data" now c] show thesis
    by (auto simp: bridge_take_def)
qed

lemma udp_receive_cases:
  assumes "udp_receive bytes now c = Some c'"
  obtains lim where "c' = c\<lparr>rl := lim\<rparr>" "length bytes \<le> 65536"
  using assms that meter_Some [of True "length bytes" now c c'] by (auto simp: udp_receive_def split: if_splits)

section \<open>Invariants of a session\<close>

lemma send_next_fields [simp]:
  "ctx (send_next env ok s) = ctx s" "main (send_next env ok s) = main s" "tasks (send_next env ok s) = tasks s"
  "binary_mode (send_next env ok s) = binary_mode s"
  by (simp_all add: send_next_def Let_def)

text \<open>
  A predicate on the parts of a session is kept when dispatching a request, a step of an awaited
  handler, a step of a task and a step of another session keep it; it is an invariant when it holds at first, too.
  Both transports rest on this contract.
\<close>

locale session_kept =
  fixes env :: "'net env" and good :: "'net ctx \<Rightarrow> main_state \<Rightarrow> task list \<Rightarrow> bool"
  assumes good_dispatch: "good c Ready ts \<Longrightarrow> dispatch env r c = (c', m', new) \<Longrightarrow> good c' m' (ts @ new)"
    and good_error: "good c Ready ts \<Longrightarrow> good (notify (event_error 0 e) c) Ready ts"
    and good_stop: "good c Ready ts \<Longrightarrow> good c CleaningUp ts"
    and good_handler: "good c m ts \<Longrightarrow> handler_step env (c, m) (c', m', new) \<Longrightarrow> good c' m' (ts @ new)"
    and good_task: "good c m (xs @ t # ys) \<Longrightarrow> task_step env (c, t) (c', new) \<Longrightarrow> good c' m (xs @ new @ ys)"
    and good_shared: "good c m ts \<Longrightarrow> shared_step c c' \<Longrightarrow> good c' m ts"
begin

definition holds :: "'net session \<Rightarrow> bool" where
  "holds s = good (ctx s) (main s) (tasks s)"

lemma holds_message:
  assumes "holds s" and "main s = Ready"
  shows "holds (on_message env msg s)"
proof (cases "receive (codec env) msg")
  case (Request r)
  obtain c m ts where "dispatch env r (ctx s) = (c, m, ts)" by (cases "dispatch env r (ctx s)")
  with Request good_dispatch assms show ?thesis by (simp add: holds_def on_message_def Let_def)
next
  case (Invalid e)
  with good_error assms show ?thesis by (simp add: holds_def on_message_def Let_def)
next
  case Stop
  with good_stop assms show ?thesis by (simp add: holds_def on_message_def Let_def)
next
  case Skip
  with assms show ?thesis by (simp add: holds_def on_message_def Let_def)
qed

lemma holds_step: "holds s \<Longrightarrow> session_step env s s' \<Longrightarrow> holds s'"
  by (erule session_step.cases)
    (auto simp: holds_message, auto simp: holds_def good_stop good_handler good_task good_shared)

lemma good_from:
  assumes "reachable (\<lambda>u. u = s) (session_step env) s'" and "good (ctx s) (main s) (tasks s)"
  shows "good (ctx s') (main s') (tasks s')"
proof -
  from assms have "holds s'" by (induction rule: reachable.induct) (auto simp: holds_def [symmetric] intro: holds_step)
  then show ?thesis by (simp add: holds_def)
qed

end

locale session_invariant = session_kept env good
  for env :: "'net env" and config :: "'net session_config" and good :: "'net ctx \<Rightarrow> main_state \<Rightarrow> task list \<Rightarrow> bool" +
  assumes good_new: "good (Ctx_new config) Ready []"
begin

lemma holds_start: "started config s \<Longrightarrow> holds s"
  by (simp add: started_def session_new_def holds_def good_new)

end

sublocale session_invariant \<subseteq> system: inductive_invariant "started config" "session_step env" holds
  using holds_start holds_step by unfold_locales

context session_invariant
begin

lemma good_reachable: "reachable (started config) (session_step env) s \<Longrightarrow> good (ctx s) (main s) (tasks s)"
  using system.inv_reachable [of s] by (simp add: holds_def)

end

section \<open>Where traffic may go\<close>

definition cleared :: "'net env \<Rightarrow> 'net policy \<Rightarrow> socket_addr \<Rightarrow> bool" where
  "cleared env pol t \<longleftrightarrow> \<not> ip_denied (net env) pol (sa_ip t) (sa_port t)"

fun effect_ok :: "'net env \<Rightarrow> 'net policy \<Rightarrow> effect \<Rightarrow> bool" where
  "effect_ok env pol (TcpDial t) = cleared env pol t"
| "effect_ok env pol (UdpConnect t) = cleared env pol t"
| "effect_ok env pol (UdpSend _ t _) = cleared env pol t"
| "effect_ok env pol (TcpBind _ port) = is_ok (check_bind pol port)"
| "effect_ok env pol _ = True"

definition target_text_ok :: "'net env \<Rightarrow> 'net policy \<Rightarrow> str \<Rightarrow> bool" where
  "target_text_ok env pol text \<longleftrightarrow> (\<exists>t. text = print_sa t \<and> cleared env pol t)"

fun entry_ok :: "'net env \<Rightarrow> 'net policy \<Rightarrow> socket_entry \<Rightarrow> bool" where
  "entry_ok env pol (Udp _ (Some text) _) = target_text_ok env pol text"
| "entry_ok env pol _ = True"

fun task_ok :: "'net env \<Rightarrow> 'net policy \<Rightarrow> task \<Rightarrow> bool" where
  "task_ok env pol (Dialing i t sni) = cleared env pol t"
| "task_ok env pol _ = True"

fun main_ok :: "'net env \<Rightarrow> 'net policy \<Rightarrow> main_state \<Rightarrow> bool" where
  "main_ok env pol (UdpBinding i t) = cleared env pol t"
| "main_ok env pol (UdpConnecting i t s) = cleared env pol t"
| "main_ok env pol (UdpRegistering i t s p ch) = cleared env pol t"
| "main_ok env pol (SendToSending s t bytes) = cleared env pol t"
| "main_ok env pol (Sending s text bytes) = target_text_ok env pol text"
| "main_ok env pol (BindOpening i addr port) = is_ok (check_bind pol port)"
| "main_ok env pol _ = True"

definition ctx_ok :: "'net env \<Rightarrow> 'net policy \<Rightarrow> 'net ctx \<Rightarrow> bool" where
  "ctx_ok env pol c \<longleftrightarrow>
     policy c = pol \<and> list_all (effect_ok env pol) (effects c) \<and>
     (\<forall>i e. hm_get (sockets c) i = Some e \<longrightarrow> entry_ok env pol e)"

definition outcome_ok :: "'net env \<Rightarrow> 'net policy \<Rightarrow> 'net outcome \<Rightarrow> bool" where
  "outcome_ok env pol out \<longleftrightarrow>
     (case out of (c, m, ts) \<Rightarrow> ctx_ok env pol c \<and> main_ok env pol m \<and> list_all (task_ok env pol) ts)"

lemma resolved_cleared:
  "resolve_and_check (net env) pol lookup addr port = Inr t \<Longrightarrow> cleared env pol t"
  using egress.approved_not_denied [of "net env" pol lookup addr port t]
  by (auto simp: resolve_and_check_def cleared_def)

lemma print_cleared: "cleared env pol t \<Longrightarrow> target_text_ok env pol (print_sa t)"
  by (auto simp: target_text_ok_def)

lemma parse_cleared: "target_text_ok env pol text \<Longrightarrow> parse_sa text = Some t \<Longrightarrow> cleared env pol t"
  by (auto simp: target_text_ok_def sa_text.parse_print)

lemma ctx_ok_simps [simp]:
  "ctx_ok env pol (c\<lparr>rl := x\<rparr>) = ctx_ok env pol c"
  "ctx_ok env pol (c\<lparr>pool := y\<rparr>) = ctx_ok env pol c"
  "ctx_ok env pol (c\<lparr>queued := z\<rparr>) = ctx_ok env pol c"
  "ctx_ok env pol (c\<lparr>active := w\<rparr>) = ctx_ok env pol c"
  "ctx_ok env pol (c\<lparr>closes := n\<rparr>) = ctx_ok env pol c"
  "ctx_ok env pol (c\<lparr>next_chan := k\<rparr>) = ctx_ok env pol c"
  "ctx_ok env pol (c\<lparr>pushed := l\<rparr>) = ctx_ok env pol c"
  "ctx_ok env pol (c\<lparr>got := g\<rparr>) = ctx_ok env pol c"
  "ctx_ok env pol (c\<lparr>given := h\<rparr>) = ctx_ok env pol c"
  "ctx_ok env pol (c\<lparr>closed_rx := j\<rparr>) = ctx_ok env pol c"
  "ctx_ok env pol (notify ev c) = ctx_ok env pol c"
  "ctx_ok env pol (emit e c) \<longleftrightarrow> ctx_ok env pol c \<and> effect_ok env pol e"
  by (auto simp: ctx_ok_def)

lemma ctx_ok_sockets [intro]:
  "ctx_ok env pol c \<Longrightarrow> entry_ok env pol e \<Longrightarrow> ctx_ok env pol (c\<lparr>sockets := hm_insert i e (sockets c)\<rparr>)"
  "ctx_ok env pol c \<Longrightarrow> ctx_ok env pol (c\<lparr>sockets := hm_remove i (sockets c)\<rparr>)"
  "ctx_ok env pol c \<Longrightarrow> ctx_ok env pol (c\<lparr>sockets := []\<rparr>)"
  by (auto simp: ctx_ok_def split: if_splits)

lemma ctx_ok_policy: "ctx_ok env pol c \<Longrightarrow> policy c = pol"
  by (simp add: ctx_ok_def)

lemma task_step_ok:
  assumes "task_step env (c, t) (c', ts)" and "ctx_ok env pol c" and "task_ok env pol t"
  shows "ctx_ok env pol c' \<and> list_all (task_ok env pol) ts"
  using assms ctx_ok_policy [OF assms(2)]
  by (cases rule: task_stepE)
    (auto simp: op_defs Let_def resolved_cleared split: op_splits
      elim!: bridge_read_cases bridge_take_cases udp_receive_cases)

lemma handler_step_ok:
  assumes "handler_step env (c, m) out" and "ctx_ok env pol c" and "main_ok env pol m"
  shows "outcome_ok env pol out"
  using assms ctx_ok_policy [OF assms(2)]
  by (cases rule: handler_stepE)
    (auto simp: op_defs Let_def resolved_cleared parse_cleared outcome_ok_def print_cleared intro!: ctx_ok_sockets split: op_splits)

lemma dispatch_ok:
  assumes "ctx_ok env pol c"
  shows "outcome_ok env pol (dispatch env r c)"
proof -
  have stored: "target_text_ok env pol tt" if "hm_get (sockets c) i = Some (Udp s (Some tt) ch)" for i s tt ch
    using assms that unfolding ctx_ok_def by (metis entry_ok.simps(1))
  show ?thesis
    using assms ctx_ok_policy [OF assms] stored
    by (cases r) (auto simp: op_defs Let_def outcome_ok_def split: op_splits)
qed

definition egress_ok :: "'net env \<Rightarrow> 'net policy \<Rightarrow> 'net ctx \<Rightarrow> main_state \<Rightarrow> task list \<Rightarrow> bool" where
  "egress_ok env pol c m ts \<longleftrightarrow> outcome_ok env pol (c, m, ts)"

interpretation egress_inv: session_invariant env config "egress_ok env (cfg_policy config)"
  for env :: "'net env" and config
proof
  let ?pol = "cfg_policy config"
  show "egress_ok env ?pol (Ctx_new config) Ready []"
    by (simp add: egress_ok_def outcome_ok_def ctx_ok_def Ctx_new_def)
  fix c c' :: "'net ctx" and m m' xs t ys ts new r e
  show "egress_ok env ?pol c Ready ts \<Longrightarrow> dispatch env r c = (c', m', new) \<Longrightarrow> egress_ok env ?pol c' m' (ts @ new)"
    using dispatch_ok [of env ?pol c r] by (simp add: egress_ok_def outcome_ok_def)
  show "egress_ok env ?pol c m ts \<Longrightarrow> handler_step env (c, m) (c', m', new) \<Longrightarrow> egress_ok env ?pol c' m' (ts @ new)"
    using handler_step_ok [of env c m "(c', m', new)" ?pol] by (simp add: egress_ok_def outcome_ok_def)
  show "egress_ok env ?pol c m (xs @ t # ys) \<Longrightarrow> task_step env (c, t) (c', new) \<Longrightarrow>
      egress_ok env ?pol c' m (xs @ new @ ys)"
    using task_step_ok [of env c t c' new ?pol] by (simp add: egress_ok_def outcome_ok_def)
  show "egress_ok env ?pol c m ts \<Longrightarrow> shared_step c c' \<Longrightarrow> egress_ok env ?pol c' m ts"
    by (auto simp: egress_ok_def outcome_ok_def elim: shared_stepE)
qed (simp_all add: egress_ok_def outcome_ok_def)

lemma session_effects_ok:
  "reachable (started config) (session_step env) s \<Longrightarrow> list_all (effect_ok env (cfg_policy config)) (effects (ctx s))"
  by (drule egress_inv.good_reachable) (simp add: egress_ok_def outcome_ok_def ctx_ok_def)

text \<open>C1. No traffic to a denied address, whatever the client sends, whatever names resolve to and however the tasks
  interleave: every address the session dials, connects a UDP socket to or sends a datagram to is outside the
  policy's deny list on that port, and every listener is opened on a port inside the bind ranges.\<close>

theorem session_respects_policy:
  assumes "reachable (started config) (session_step env) s"
  shows "list_all (\<lambda>e. case e of
      TcpDial t \<Rightarrow> \<not> ip_denied (net env) (cfg_policy config) (sa_ip t) (sa_port t)
    | UdpConnect t \<Rightarrow> \<not> ip_denied (net env) (cfg_policy config) (sa_ip t) (sa_port t)
    | UdpSend _ t _ \<Rightarrow> \<not> ip_denied (net env) (cfg_policy config) (sa_ip t) (sa_port t)
    | TcpBind _ port \<Rightarrow> \<exists>(lo, hi) \<in> set (bind_port_ranges (cfg_policy config)). lo \<le> port \<and> port \<le> hi
    | _ \<Rightarrow> True) (effects (ctx s))"
  using session_effects_ok [OF assms]
  by (rule list.pred_mono_strong) (auto simp: cleared_def check_bind_ok split: effect.splits)

section \<open>What the connection counter counts\<close>

text \<open>The connections and UDP sockets whose task is still to decrement \<open>active\<close>.\<close>

fun task_weight :: "task \<Rightarrow> nat" where
  "task_weight (Registering i s ch) = 1"
| "task_weight (Bridging i s ch counted rd wr) = (if counted then 1 else 0)"
| "task_weight (UdpReceiving i s ch d) = 1"
| "task_weight _ = 0"

fun main_weight :: "main_state \<Rightarrow> nat" where
  "main_weight (UdpRegistering i t s p ch) = 1"
| "main_weight _ = 0"

definition live :: "main_state \<Rightarrow> task list \<Rightarrow> nat" where
  "live m ts = main_weight m + sum_list (map task_weight ts)"

definition counter_ok :: "'net ctx \<Rightarrow> main_state \<Rightarrow> task list \<Rightarrow> bool" where
  "counter_ok c m ts \<longleftrightarrow> active c + of_nat (closes c) = of_nat (live m ts)"

lemma task_step_counter:
  assumes "task_step env (c, t) (c', ts)"
  shows "active c' + of_nat (closes c') + of_nat (task_weight t) =
    active c + of_nat (closes c) + of_nat (sum_list (map task_weight ts))"
  using assms
  by (cases rule: task_stepE)
    (auto simp: op_defs Let_def algebra_simps split: op_splits
      elim!: bridge_read_cases bridge_take_cases udp_receive_cases)

lemma handler_step_counter:
  assumes "handler_step env (c, m) (c', m', ts)"
  shows "active c' + of_nat (closes c') + of_nat (main_weight m) =
    active c + of_nat (closes c) + of_nat (live m' ts)"
  using assms
  by (cases rule: handler_stepE) (auto simp: op_defs Let_def live_def algebra_simps split: op_splits)

lemma dispatch_counter:
  assumes "dispatch env r c = (c', m', ts)"
  shows "active c' + of_nat (closes c') = active c + of_nat (closes c) \<and> live m' (us @ ts) = live Ready us"
  using assms
  by (cases r) (auto simp: op_defs Let_def live_def algebra_simps split: op_splits)

interpretation counter_inv: session_invariant env config counter_ok
  for env :: "'net env" and config
proof
  show "counter_ok (Ctx_new config) Ready []" by (simp add: counter_ok_def Ctx_new_def live_def)
  fix c c' :: "'net ctx" and m m' xs t ys ts new r e
  show "counter_ok c' m' (ts @ new)" if "counter_ok c Ready ts" and "dispatch env r c = (c', m', new)"
    using that(1) dispatch_counter [OF that(2), of ts] by (simp add: counter_ok_def)
  show "counter_ok c' m' (ts @ new)" if "counter_ok c m ts" and "handler_step env (c, m) (c', m', new)"
    using that(1) handler_step_counter [OF that(2)] by (simp add: counter_ok_def live_def algebra_simps)
  show "counter_ok c' m (xs @ new @ ys)" if "counter_ok c m (xs @ t # ys)" and "task_step env (c, t) (c', new)"
    using that(1) task_step_counter [OF that(2)] by (simp add: counter_ok_def live_def algebra_simps)
  show "counter_ok c m ts \<Longrightarrow> shared_step c c' \<Longrightarrow> counter_ok c' m ts"
    by (auto simp: counter_ok_def elim: shared_stepE)
qed (simp_all add: counter_ok_def live_def)

text \<open>C5. What \<open>active\<close> holds: the number of open connections and UDP sockets less the number of close requests that
  found one, modulo \<open>2 ^ 64\<close>. As long as the client closes nothing, the counter is the number of open
  connections; every close that finds a TCP or UDP socket is subtracted on top of the decrement its own task
  makes, and is never given back.\<close>

theorem active_is_open_less_closed:
  assumes "reachable (started config) (session_step env) s"
  shows "active (ctx s) = of_nat (live (main s) (tasks s)) - of_nat (closes (ctx s))"
  using counter_inv.good_reachable [OF assms] by (simp add: counter_ok_def algebra_simps)

section \<open>The pool and the limiter\<close>

definition pool_empty :: "'net ctx \<Rightarrow> main_state \<Rightarrow> task list \<Rightarrow> bool" where
  "pool_empty c m ts \<longleftrightarrow>
     (\<forall>p. pool c = Some p \<longrightarrow> idle p = []) \<and> list_all (\<lambda>e. \<forall>k. e \<noteq> Reused k) (effects c)"

lemma empty_pool_get: "idle p = [] \<Longrightarrow> pool_get t clk p = (None, p)"
  by (simp add: pool_get_def)

lemma empty_pool_cleanup: "idle p = [] \<Longrightarrow> pool_cleanup clk p = p"
  by (simp add: pool_cleanup_def)

interpretation pool_inv: session_invariant env "config\<lparr>cfg_pool := map_option (\<lambda>(secs, n). ConnectionPool_new secs n) opts\<rparr>" pool_empty
  for env :: "'net env" and config opts
proof
  show "pool_empty (Ctx_new (config\<lparr>cfg_pool := map_option (\<lambda>(secs, n). ConnectionPool_new secs n) opts\<rparr>)) Ready []"
    by (auto simp: pool_empty_def Ctx_new_def ConnectionPool_new_def)
  fix c c' :: "'net ctx" and m m' xs t ys ts new r e
  show "pool_empty c' m' (ts @ new)" if "pool_empty c Ready ts" and "dispatch env r c = (c', m', new)"
    using that by (cases r) (auto simp: pool_empty_def op_defs Let_def split: op_splits)
  show "pool_empty c' m' (ts @ new)" if "pool_empty c m ts" and "handler_step env (c, m) (c', m', new)"
    using that(2,1)
    by (cases rule: handler_stepE) (auto simp: pool_empty_def op_defs Let_def split: op_splits)
  show "pool_empty c' m (xs @ new @ ys)" if "pool_empty c m (xs @ t # ys)" and "task_step env (c, t) (c', new)"
    using that(2,1)
    by (cases rule: task_stepE)
      (auto simp: pool_empty_def op_defs Let_def empty_pool_get split: op_splits
        elim!: bridge_read_cases bridge_take_cases udp_receive_cases)
  show "pool_empty c m ts \<Longrightarrow> shared_step c c' \<Longrightarrow> pool_empty c' m ts"
    by (auto simp: pool_empty_def empty_pool_get empty_pool_cleanup elim: shared_stepE)
qed (simp_all add: pool_empty_def)

text \<open>C34. The connection pool is never filled: starting from a new pool (or none), no session ever stores a stream, so
  every lookup misses, no connection is ever reused, and each outgoing connection is dialled.\<close>

theorem pool_is_never_filled:
  assumes "reachable (started (config\<lparr>cfg_pool := map_option (\<lambda>(secs, n). ConnectionPool_new secs n) opts\<rparr>))
    (session_step env) s"
  shows "(\<forall>p. pool (ctx s) = Some p \<longrightarrow> pool_size p = 0) \<and> (\<forall>k. Reused k \<notin> set (effects (ctx s)))"
  using pool_inv.good_reachable [OF assms]
  by (auto simp: pool_empty_def pool_size_def list_all_iff)

section \<open>No call of the limiter panics\<close>

definition limits_ok :: "u32 \<Rightarrow> 'net ctx \<Rightarrow> main_state \<Rightarrow> task list \<Rightarrow> bool" where
  "limits_ok mbps c m ts \<longleftrightarrow> limiter_ok mbps (rl c)"

lemma meter_ok:
  assumes "limiter_ok mbps (rl c)"
  shows "\<exists>c'. meter limited n now c = Some c' \<and> limiter_ok mbps (rl c')"
  using consume_ok [OF assms, of "of_nat n" now] assms by (auto simp: meter_def)

lemma meter_keeps: "meter limited n now c = Some c' \<Longrightarrow> limiter_ok mbps (rl c) \<Longrightarrow> limiter_ok mbps (rl c')"
  using meter_ok [of mbps c limited n now] by auto

lemma bridge_read_keeps:
  "bridge_read counted i ch r now c = Some (c', rd') \<Longrightarrow> limiter_ok mbps (rl c) \<Longrightarrow> limiter_ok mbps (rl c')"
  by (auto simp: bridge_read_def dest: meter_keeps split: sum.splits if_splits)

lemma bridge_take_keeps:
  "bridge_take counted ch now c = Some (c', wr') \<Longrightarrow> limiter_ok mbps (rl c) \<Longrightarrow> limiter_ok mbps (rl c')"
  by (auto simp: bridge_take_def dest: meter_keeps split: list.splits if_splits)

lemma udp_receive_keeps:
  "udp_receive bytes now c = Some c' \<Longrightarrow> limiter_ok mbps (rl c) \<Longrightarrow> limiter_ok mbps (rl c')"
  by (auto simp: udp_receive_def dest: meter_keeps split: if_splits)

lemma consume_keeps: "consume n now l = Some (l', w) \<Longrightarrow> limiter_ok mbps l \<Longrightarrow> limiter_ok mbps l'"
  using consume_ok [of mbps l n now] by auto

lemmas limiter_keeps = bridge_read_keeps bridge_take_keeps udp_receive_keeps consume_keeps

interpretation limits_inv: session_invariant env "config\<lparr>cfg_rate_limiter := RateLimiter_new mbps t0\<rparr>" "limits_ok mbps"
  for env :: "'net env" and config mbps t0
proof
  show "limits_ok mbps (Ctx_new (config\<lparr>cfg_rate_limiter := RateLimiter_new mbps t0\<rparr>)) Ready []"
    by (simp add: limits_ok_def Ctx_new_def limiter_ok_new)
  fix c c' :: "'net ctx" and m m' xs t ys ts new r e
  show "limits_ok mbps c' m' (ts @ new)" if "limits_ok mbps c Ready ts" and "dispatch env r c = (c', m', new)"
    using that by (cases r) (auto simp: limits_ok_def op_defs Let_def split: op_splits)
  show "limits_ok mbps c' m' (ts @ new)" if "limits_ok mbps c m ts" and "handler_step env (c, m) (c', m', new)"
    using that(2,1)
    by (cases rule: handler_stepE) (auto simp: limits_ok_def op_defs Let_def split: op_splits)
  show "limits_ok mbps c' m (xs @ new @ ys)" if "limits_ok mbps c m (xs @ t # ys)" and "task_step env (c, t) (c', new)"
    using that(2,1)
    by (cases rule: task_stepE)
      (auto simp: limits_ok_def op_defs Let_def split: op_splits intro: limiter_keeps)
  show "limits_ok mbps c m ts \<Longrightarrow> shared_step c c' \<Longrightarrow> limits_ok mbps c' m ts"
    by (auto simp: limits_ok_def elim!: shared_stepE intro: limiter_keeps)
qed (simp_all add: limits_ok_def)

text \<open>C35. The data paths never die in the rate limiter: in every reachable state of a session with any configured limit,
  a bridge that has read up to a buffer's worth of bytes delivers them, a bridge with queued data writes it, and a
  UDP socket that received a datagram delivers it. None of the three is cut off by a panic of the limiter, at
  whatever instants the other sessions draw on the same bucket.\<close>

theorem data_paths_never_panic:
  assumes "reachable (started (config\<lparr>cfg_rate_limiter := RateLimiter_new mbps t0\<rparr>)) (session_step env) s"
  shows "(length bytes \<le> 16384 \<longrightarrow> bridge_read counted i ch (Inr bytes) now (ctx s) \<noteq> None) \<and>
    (queue_of (ctx s) ch \<noteq> [] \<longrightarrow> bridge_take counted ch now (ctx s) \<noteq> None) \<and>
    (length bytes \<le> 65536 \<longrightarrow> udp_receive bytes now (ctx s) \<noteq> None)"
proof -
  from limits_inv.good_reachable [OF assms] have "limiter_ok mbps (rl (ctx s))" by (simp add: limits_ok_def)
  then have pass: "\<exists>c'. meter limited n now c = Some c'" if "rl c = rl (ctx s)" for limited n now and c :: "'a ctx"
    using meter_ok [of mbps c] that by metis
  have "meter limited n now (ctx s) \<noteq> None" "meter limited n now ((ctx s)\<lparr>got := g\<rparr>) \<noteq> None" for limited n now g
    using pass [of "ctx s"] pass [of "(ctx s)\<lparr>got := g\<rparr>"] by simp_all
  then show ?thesis
    by (auto simp: bridge_read_def bridge_take_def udp_receive_def split: list.splits)
qed

end
