(* ===== verification/Client_Codec.thy ===== *)
theory Client_Codec
  imports Binary
begin

text \<open>
  The browser client's half of the binary protocol, from \<^verbatim>\<open>client/wasmnet-client.js\<close>: how each method
  builds its request frame and how \<^verbatim>\<open>_handleBinaryEvent\<close> takes an event frame apart. Identifiers,
  ports and lengths are JavaScript numbers, truncated by the \<^verbatim>\<open>DataView\<close> setters to the width of the
  field. \<^verbatim>\<open>TextDecoder\<close> and \<^verbatim>\<open>JSON.parse\<close> are the browser's and are arguments.
\<close>

section \<open>Requests\<close>

datatype js_msg =
    MSG_CONNECT | MSG_BIND | MSG_LISTEN | MSG_SEND | MSG_CLOSE | MSG_CONNECT_UDP | MSG_SEND_TO
  | MSG_RESOLVE | MSG_CONNECT_TLS | MSG_CONNECTED | MSG_DATA | MSG_LISTENING | MSG_ACCEPTED
  | MSG_CLOSED | MSG_ERROR | MSG_DENIED | MSG_DATA_FROM | MSG_RESOLVED | MSG_UDP_BOUND

fun js_code :: "js_msg \<Rightarrow> u8" where
  "js_code MSG_CONNECT = 0x01"
| "js_code MSG_BIND = 0x02"
| "js_code MSG_LISTEN = 0x03"
| "js_code MSG_SEND = 0x04"
| "js_code MSG_CLOSE = 0x05"
| "js_code MSG_CONNECT_UDP = 0x06"
| "js_code MSG_SEND_TO = 0x07"
| "js_code MSG_RESOLVE = 0x08"
| "js_code MSG_CONNECT_TLS = 0x09"
| "js_code MSG_CONNECTED = 0x81"
| "js_code MSG_DATA = 0x82"
| "js_code MSG_LISTENING = 0x83"
| "js_code MSG_ACCEPTED = 0x84"
| "js_code MSG_CLOSED = 0x85"
| "js_code MSG_ERROR = 0x86"
| "js_code MSG_DENIED = 0x87"
| "js_code MSG_DATA_FROM = 0x88"
| "js_code MSG_RESOLVED = 0x89"
| "js_code MSG_UDP_BOUND = 0x8a"

definition BINARY_HEADER :: nat where
  "BINARY_HEADER = 9"

definition setUint16 :: "nat \<Rightarrow> u8 list" where
  "setUint16 n = to_be_bytes_u16 (of_nat n)"

definition setUint32 :: "nat \<Rightarrow> u8 list" where
  "setUint32 n = to_be_bytes_u32 (of_nat n)"

definition setBigUint64 :: "nat \<Rightarrow> u8 list" where
  "setBigUint64 n = to_be_bytes_u64 (of_nat n)"

definition sendBinary :: "js_msg \<Rightarrow> nat \<Rightarrow> u8 list \<Rightarrow> u8 list" where
  "sendBinary ty i payload = js_code ty # setBigUint64 i @ payload"

definition addrPortPayload :: "str \<Rightarrow> nat \<Rightarrow> u8 list" where
  "addrPortPayload addr port = setUint16 port @ as_bytes addr"

definition js_connect :: "nat \<Rightarrow> str \<Rightarrow> nat \<Rightarrow> u8 list" where
  "js_connect i addr port = sendBinary MSG_CONNECT i (addrPortPayload addr port)"

definition js_connectTls :: "nat \<Rightarrow> str \<Rightarrow> nat \<Rightarrow> u8 list" where
  "js_connectTls i addr port = sendBinary MSG_CONNECT_TLS i (addrPortPayload addr port)"

definition js_connectUdp :: "nat \<Rightarrow> str \<Rightarrow> nat \<Rightarrow> u8 list" where
  "js_connectUdp i addr port = sendBinary MSG_CONNECT_UDP i (addrPortPayload addr port)"

definition js_bind :: "nat \<Rightarrow> str \<Rightarrow> nat \<Rightarrow> u8 list" where
  "js_bind i addr port = sendBinary MSG_BIND i (addrPortPayload addr port)"

definition js_listen :: "nat \<Rightarrow> nat \<Rightarrow> u8 list" where
  "js_listen i backlog = sendBinary MSG_LISTEN i (setUint32 backlog)"

definition js_send :: "nat \<Rightarrow> u8 list \<Rightarrow> u8 list" where
  "js_send i bytes = sendBinary MSG_SEND i bytes"

definition js_sendTo :: "nat \<Rightarrow> str \<Rightarrow> nat \<Rightarrow> u8 list \<Rightarrow> u8 list" where
  "js_sendTo i addr port raw =
     sendBinary MSG_SEND_TO i (setUint16 port @ setUint16 (length (as_bytes addr)) @ as_bytes addr @ raw)"

definition js_resolve :: "nat \<Rightarrow> str \<Rightarrow> u8 list" where
  "js_resolve i name = sendBinary MSG_RESOLVE i (as_bytes name)"

definition js_close :: "nat \<Rightarrow> u8 list" where
  "js_close i = sendBinary MSG_CLOSE i []"

lemma sendBinary_frame: "sendBinary ty i payload = frame (js_code ty) (of_nat i) payload"
  by (simp add: sendBinary_def frame_def setBigUint64_def)

lemmas js_requests = js_connect_def js_connectTls_def js_connectUdp_def js_bind_def js_listen_def
  js_send_def js_sendTo_def js_resolve_def js_close_def sendBinary_frame addrPortPayload_def
  setUint16_def setUint32_def

lemma js_request_codes:
  "js_code MSG_CONNECT = CONNECT" "js_code MSG_CONNECT_TLS = CONNECT_TLS"
  "js_code MSG_CONNECT_UDP = CONNECT_UDP" "js_code MSG_BIND = BIND" "js_code MSG_LISTEN = LISTEN"
  "js_code MSG_SEND = SEND" "js_code MSG_SEND_TO = SEND_TO" "js_code MSG_RESOLVE = RESOLVE"
  "js_code MSG_CLOSE = CLOSE"
  by (simp_all add: request_types)

lemma decode_js_host_port:
  assumes "js_code m = mt" and "mt \<in> {CONNECT, BIND, CONNECT_UDP, CONNECT_TLS}" and "is_utf8 addr"
  shows "decode_request lib (sendBinary m i (addrPortPayload addr port)) =
    Some (Inr (host_port_request mt (of_nat i) addr (of_nat port)))"
  using assms
  by (simp add: sendBinary_frame decode_host_port addrPortPayload_def setUint16_def codec_simps)

lemma decode_js_send_to:
  assumes "is_utf8 addr" and "length addr < 65536"
  shows "decode_request lib (js_sendTo i addr port raw) =
    Some (Inr (SendTo (of_nat i) addr (of_nat port) (b64_encode lib raw)))"
proof -
  have "unat (of_nat (length addr) :: u16) = length addr"
    using assms(2) by (simp add: unat_of_nat)
  then show ?thesis
    using assms by (simp add: js_sendTo_def sendBinary_frame js_request_codes decode_send_to
        setUint16_def codec_simps Let_def del: js_code.simps)
qed

lemma decode_client_frames:
  assumes "is_utf8 addr" and "length addr < 65536"
  shows "decode_request lib (js_connect i addr port) = Some (Inr (Connect (of_nat i) addr (of_nat port))) \<and>
    decode_request lib (js_connectTls i addr port) = Some (Inr (ConnectTls (of_nat i) addr (of_nat port))) \<and>
    decode_request lib (js_connectUdp i addr port) = Some (Inr (ConnectUdp (of_nat i) addr (of_nat port))) \<and>
    decode_request lib (js_bind i addr port) = Some (Inr (Bind (of_nat i) addr (of_nat port))) \<and>
    decode_request lib (js_listen i backlog) = Some (Inr (Listen (of_nat i) (of_nat backlog))) \<and>
    decode_request lib (js_send i raw) = Some (Inr (Send (of_nat i) (b64_encode lib raw))) \<and>
    decode_request lib (js_sendTo i addr port raw) =
      Some (Inr (SendTo (of_nat i) addr (of_nat port) (b64_encode lib raw))) \<and>
    decode_request lib (js_resolve i addr) = Some (Inr (Resolve (of_nat i) addr)) \<and>
    decode_request lib (js_close i) = Some (Inr (Close (of_nat i)))"
proof (intro conjI)
  show "decode_request lib (js_connect i addr port) = Some (Inr (Connect (of_nat i) addr (of_nat port)))"
    unfolding js_connect_def using assms(1) by (subst decode_js_host_port [OF js_request_codes(1)]) auto
  show "decode_request lib (js_connectTls i addr port) = Some (Inr (ConnectTls (of_nat i) addr (of_nat port)))"
    unfolding js_connectTls_def using assms(1)
    by (subst decode_js_host_port [OF js_request_codes(2)]) (auto simp: request_types)
  show "decode_request lib (js_connectUdp i addr port) = Some (Inr (ConnectUdp (of_nat i) addr (of_nat port)))"
    unfolding js_connectUdp_def using assms(1)
    by (subst decode_js_host_port [OF js_request_codes(3)]) (auto simp: request_types)
  show "decode_request lib (js_bind i addr port) = Some (Inr (Bind (of_nat i) addr (of_nat port)))"
    unfolding js_bind_def using assms(1)
    by (subst decode_js_host_port [OF js_request_codes(4)]) (auto simp: request_types)
  show "decode_request lib (js_listen i backlog) = Some (Inr (Listen (of_nat i) (of_nat backlog)))"
    by (simp add: js_listen_def sendBinary_frame js_request_codes decode_listen setUint32_def codec_simps
        del: js_code.simps)
  show "decode_request lib (js_send i raw) = Some (Inr (Send (of_nat i) (b64_encode lib raw)))"
    by (simp add: js_send_def sendBinary_frame js_request_codes decode_send del: js_code.simps)
  show "decode_request lib (js_sendTo i addr port raw) =
      Some (Inr (SendTo (of_nat i) addr (of_nat port) (b64_encode lib raw)))"
    using assms by (rule decode_js_send_to)
  show "decode_request lib (js_resolve i addr) = Some (Inr (Resolve (of_nat i) addr))"
    using assms(1) by (simp add: js_resolve_def sendBinary_frame js_request_codes decode_resolve del: js_code.simps)
  show "decode_request lib (js_close i) = Some (Inr (Close (of_nat i)))"
    by (simp add: js_close_def sendBinary_frame js_request_codes decode_close del: js_code.simps)
qed

text \<open>C3. What the browser client writes is what the server reads: for each of the nine request methods,
  decoding the client's frame gives back the request with the client's arguments, numbers taken modulo the width of
  their field, and payload bytes handed over as base64. The host name of a datagram has to fit its two-byte
  length.\<close>

theorem server_decodes_client_requests:
  assumes "is_utf8 addr" and "length addr < 65536"
  shows "decode_request lib (js_connect i addr port) = Some (Inr (Connect (of_nat i) addr (of_nat port))) \<and>
    decode_request lib (js_connectTls i addr port) = Some (Inr (ConnectTls (of_nat i) addr (of_nat port))) \<and>
    decode_request lib (js_connectUdp i addr port) = Some (Inr (ConnectUdp (of_nat i) addr (of_nat port))) \<and>
    decode_request lib (js_bind i addr port) = Some (Inr (Bind (of_nat i) addr (of_nat port))) \<and>
    decode_request lib (js_listen i backlog) = Some (Inr (Listen (of_nat i) (of_nat backlog))) \<and>
    decode_request lib (js_send i raw) = Some (Inr (Send (of_nat i) (b64_encode lib raw))) \<and>
    decode_request lib (js_sendTo i addr port raw) =
      Some (Inr (SendTo (of_nat i) addr (of_nat port) (b64_encode lib raw))) \<and>
    decode_request lib (js_resolve i addr) = Some (Inr (Resolve (of_nat i) addr)) \<and>
    decode_request lib (js_close i) = Some (Inr (Close (of_nat i)))"
  using assms by (rule decode_client_frames)


text \<open>Base64 and JSON for the witnesses: each byte as one character, JSON as text.\<close>

definition demo_lib :: codec_lib where
  "demo_lib = \<lparr>b64_encode = str_of_bytes, b64_decode = (\<lambda>s. Some (as_bytes s)),
     json_to_vec = (\<lambda>xs. Some (as_bytes (concat xs))), json_request = (\<lambda>_. Inl ''no json''),
     json_event = (\<lambda>_. [])\<rparr>"

lemma demo_lib_roundtrip: "b64_roundtrip demo_lib"
  by (simp add: b64_roundtrip_def demo_lib_def)

theorem server_decodes_client_requests_witness:
  "decode_request demo_lib (js_connect 7 ''example.com'' 443) = Some (Inr (Connect 7 ''example.com'' 443)) \<and>
   decode_request demo_lib (js_sendTo 7 ''example.com'' 53 [1, 2]) =
     Some (Inr (SendTo 7 ''example.com'' 53 (b64_encode demo_lib [1, 2])))"
proof -
  have "is_utf8 ''example.com''" by code_simp
  moreover have "length ''example.com'' < 65536" by simp
  ultimately show ?thesis
    using server_decodes_client_requests [of "''example.com''" demo_lib 7 443]
      server_decodes_client_requests [of "''example.com''" demo_lib 7 53 _ "[1, 2]"]
    by simp
qed

section \<open>Events\<close>

datatype js_ev =
    EvConnected
  | EvData "u8 list"
  | EvListening nat
  | EvAccepted nat str
  | EvClosed
  | EvError str
  | EvDenied str
  | EvDataFrom str nat "u8 list"
  | EvUdpBound nat

datatype js_call = Dispatch nat js_ev | DispatchResolve nat "str list"

text \<open>A frame is ignored, handed to one of the two dispatchers, or makes the handler throw.\<close>

datatype js_result = Ignored | Called js_call | Thrown

record js_lib =
  text_decode :: "u8 list \<Rightarrow> str"
  json_parse :: "str \<Rightarrow> str list option"

text \<open>\<^verbatim>\<open>Number(x)\<close> of a 64-bit \<^verbatim>\<open>BigInt\<close>: the nearest double, ties to even.\<close>

definition js_number :: "u64 \<Rightarrow> nat" where
  "js_number w =
     (let n = unat w; sh = bit_length n - 53 in
      if sh = 0 then n
      else let q = n div 2 ^ sh; r = n mod 2 ^ sh; half = 2 ^ (sh - 1) in
        (if half < r \<or> (r = half \<and> odd q) then q + 1 else q) * 2 ^ sh)"

text \<open>The \<^verbatim>\<open>DataView\<close> getters throw when the field runs past the end of the view.\<close>

definition getUint16 :: "u8 list \<Rightarrow> nat \<Rightarrow> nat option" where
  "getUint16 p off = map_option (\<lambda>bs. unat (from_be_bytes_u16 bs)) (slice p off (off + 2))"

definition getBigUint64 :: "u8 list \<Rightarrow> nat \<Rightarrow> u64 option" where
  "getBigUint64 p off = map_option from_be_bytes_u64 (slice p off (off + 8))"

definition or_throw :: "js_call option \<Rightarrow> js_result" where
  "or_throw r = (case r of Some c \<Rightarrow> Called c | None \<Rightarrow> Thrown)"

definition handleBinaryEvent :: "js_lib \<Rightarrow> u8 list \<Rightarrow> js_result" where
  "handleBinaryEvent js data =
     (if length data < BINARY_HEADER then Ignored
      else let ty = data ! 0; i = js_number (from_be_bytes_u64 (take 8 (drop 1 data)));
               payload = drop BINARY_HEADER data in
        if ty = js_code MSG_CONNECTED then Called (Dispatch i EvConnected)
        else if ty = js_code MSG_DATA then Called (Dispatch i (EvData payload))
        else if ty = js_code MSG_LISTENING then
          or_throw (map_option (\<lambda>port. Dispatch i (EvListening port)) (getUint16 payload 0))
        else if ty = js_code MSG_ACCEPTED then
          or_throw (map_option (\<lambda>c. Dispatch i (EvAccepted (js_number c) (text_decode js (drop 8 payload))))
            (getBigUint64 payload 0))
        else if ty = js_code MSG_CLOSED then Called (Dispatch i EvClosed)
        else if ty = js_code MSG_ERROR then Called (Dispatch i (EvError (text_decode js payload)))
        else if ty = js_code MSG_DENIED then Called (Dispatch i (EvDenied (text_decode js payload)))
        else if ty = js_code MSG_DATA_FROM then
          or_throw (Option.bind (getUint16 payload 0) (\<lambda>port.
            map_option (\<lambda>addrLen. Dispatch i (EvDataFrom (text_decode js (take addrLen (drop 4 payload))) port
              (drop (4 + addrLen) payload))) (getUint16 payload 2)))
        else if ty = js_code MSG_RESOLVED then
          or_throw (map_option (DispatchResolve i) (json_parse js (text_decode js payload)))
        else if ty = js_code MSG_UDP_BOUND then
          or_throw (map_option (\<lambda>port. Dispatch i (EvUdpBound port)) (getUint16 payload 0))
        else Ignored)"

text \<open>Identifiers below \<^verbatim>\<open>Number.MAX_SAFE_INTEGER\<close> survive the conversion.\<close>

lemma js_number_exact: "unat w < 2 ^ 53 \<Longrightarrow> js_number w = unat w"
  using bit_length_bound [of "unat w" 53] by (simp add: js_number_def)

lemma getUint16_field [simp]:
  "getUint16 (to_be_bytes_u16 w @ rest) 0 = Some (unat w)"
  "getUint16 (to_be_bytes_u16 v @ to_be_bytes_u16 w @ rest) 2 = Some (unat w)"
  by (simp_all add: getUint16_def slice_def codec_simps)

lemma getUint16_whole [simp]: "getUint16 (to_be_bytes_u16 w) 0 = Some (unat w)"
  using getUint16_field(1) [of w "[]"] by simp

lemma getBigUint64_field [simp]: "getBigUint64 (to_be_bytes_u64 w @ rest) 0 = Some w"
  by (simp add: getBigUint64_def slice_def codec_simps)

text \<open>What the client is meant to see of an event.\<close>

fun client_view :: "codec_lib \<Rightarrow> event \<Rightarrow> js_call" where
  "client_view lib (Connected i) = Dispatch (unat i) EvConnected"
| "client_view lib (Data i data) = Dispatch (unat i) (EvData (the (b64_decode lib data)))"
| "client_view lib (DataFrom i data addr port) =
     Dispatch (unat i) (EvDataFrom addr (unat port) (the (b64_decode lib data)))"
| "client_view lib (Listening i port) = Dispatch (unat i) (EvListening (unat port))"
| "client_view lib (UdpBound i port) = Dispatch (unat i) (EvUdpBound (unat port))"
| "client_view lib (Accepted i conn_id remote) = Dispatch (unat i) (EvAccepted (unat conn_id) remote)"
| "client_view lib (Closed i) = Dispatch (unat i) EvClosed"
| "client_view lib (Error i msg) = Dispatch (unat i) (EvError msg)"
| "client_view lib (Denied i msg) = Dispatch (unat i) (EvDenied msg)"
| "client_view lib (Resolved i addrs) = DispatchResolve (unat i) addrs"

text \<open>
  The events the codecs can carry: identifiers a double represents, texts the browser decodes to
  themselves, payloads that are base64, an address that fits its length field, and a JSON array
  that the browser reads back.
\<close>

fun carried :: "codec_lib \<Rightarrow> js_lib \<Rightarrow> event \<Rightarrow> bool" where
  "carried lib js (Data i data) \<longleftrightarrow> b64_decode lib data \<noteq> None"
| "carried lib js (DataFrom i data addr port) \<longleftrightarrow>
     b64_decode lib data \<noteq> None \<and> text_decode js (as_bytes addr) = addr \<and> length addr < 65536"
| "carried lib js (Accepted i conn_id remote) \<longleftrightarrow>
     unat conn_id < 2 ^ 53 \<and> text_decode js (as_bytes remote) = remote"
| "carried lib js (Error i msg) \<longleftrightarrow> text_decode js (as_bytes msg) = msg"
| "carried lib js (Denied i msg) \<longleftrightarrow> text_decode js (as_bytes msg) = msg"
| "carried lib js (Resolved i addrs) \<longleftrightarrow>
     (case json_to_vec lib addrs of
        None \<Rightarrow> False
      | Some bs \<Rightarrow> json_parse js (text_decode js bs) = Some addrs)"
| "carried lib js _ \<longleftrightarrow> True"

lemma handle_frame:
  assumes "unat i < 2 ^ 53"
  shows "js_number (from_be_bytes_u64 (take 8 (drop 1 (frame mt i payload)))) = unat i"
  using assms by (simp add: codec_simps js_number_exact)

lemma handle_event_frame:
  assumes "carried lib js ev" and "unat (event_id ev) < 2 ^ 53"
  shows "handleBinaryEvent js (encode_event lib ev) = Called (client_view lib ev)"
proof -
  have len: "unat (of_nat (length addr) :: u16) = length addr" if "length addr < 65536" for addr :: str
    using that by (simp add: unat_of_nat)
  show ?thesis
    using assms
    by (cases ev)
      (auto simp: handleBinaryEvent_def BINARY_HEADER_def Let_def handle_frame [unfolded One_nat_def]
        event_types or_throw_def unwrap_or_empty_def codec_simps js_number_exact len split: option.splits)
qed

text \<open>What the server writes is what the browser client sees: every event, encoded by the server and taken
  apart by \<^verbatim>\<open>_handleBinaryEvent\<close>, reaches the dispatcher with its identifier and fields unchanged and its payload
  as the raw bytes.\<close>

lemma client_reads_server_events:
  assumes "carried lib js ev" and "unat (event_id ev) < 2 ^ 53"
  shows "handleBinaryEvent js (encode_event lib ev) = Called (client_view lib ev)"
  using assms by (rule handle_event_frame)

definition demo_js :: js_lib where
  "demo_js = \<lparr>text_decode = str_of_bytes, json_parse = (\<lambda>s. Some [s])\<rparr>"

end
