(* ===== verification/Session_Runs.thy ===== *)
theory Session_Runs
  imports Session Client_Codec "HOL-Library.Sublist"
begin

text \<open>
  Behaviour of whole sessions: the order of the events on the wire, and runs that show what the connection
  counter and the bridges do when sockets are closed or the client hangs up.
\<close>

section \<open>Building runs\<close>

text \<open>The parts of some reachable state.\<close>

definition visits :: "'net env \<Rightarrow> 'net session_config \<Rightarrow> 'net ctx \<Rightarrow> main_state \<Rightarrow> task list \<Rightarrow> bool" where
  "visits env config c m ts \<longleftrightarrow>
     (\<exists>s. reachable (started config) (session_step env) s \<and> ctx s = c \<and> main s = m \<and> tasks s = ts)"

lemma visits_new: "visits env config (Ctx_new config) Ready []"
  unfolding visits_def
  by (rule exI [of _ "session_new config"]) (simp add: started_def session_new_def reachable.start)

lemma visits_message:
  assumes "visits env config c Ready ts" and "receive (codec env) msg = Request r"
    and "dispatch env r c = (c', m', new)"
  shows "visits env config c' m' (ts @ new)"
proof -
  from assms(1) obtain s where s: "reachable (started config) (session_step env) s" "ctx s = c" "main s = Ready"
      "tasks s = ts" by (auto simp: visits_def)
  have "reachable (started config) (session_step env) (on_message env msg s)"
    using s(1) session_step.message [OF s(3)] by (rule reachable.move)
  moreover have "ctx (on_message env msg s) = c' \<and> main (on_message env msg s) = m' \<and> tasks (on_message env msg s) = ts @ new"
    using s assms(2,3) by (simp add: on_message_def Let_def)
  ultimately show ?thesis unfolding visits_def by blast
qed

lemma visits_invalid:
  assumes "visits env config c Ready ts" and "receive (codec env) msg = Invalid e"
  shows "visits env config (notify (event_error 0 e) c) Ready ts"
proof -
  from assms(1) obtain s where s: "reachable (started config) (session_step env) s" "ctx s = c" "main s = Ready"
      "tasks s = ts" by (auto simp: visits_def)
  have "reachable (started config) (session_step env) (on_message env msg s)"
    using s(1) session_step.message [OF s(3)] by (rule reachable.move)
  moreover have "ctx (on_message env msg s) = notify (event_error 0 e) c \<and> main (on_message env msg s) = Ready \<and>
      tasks (on_message env msg s) = ts"
    using s assms(2) by (simp add: on_message_def Let_def)
  ultimately show ?thesis unfolding visits_def by blast
qed

lemma visits_shared:
  assumes "visits env config c m ts" and "shared_step c c'"
  shows "visits env config c' m ts"
proof -
  from assms(1) obtain s where s: "reachable (started config) (session_step env) s" "ctx s = c" "main s = m"
      "tasks s = ts" by (auto simp: visits_def)
  from s assms(2) have "session_step env s (s\<lparr>ctx := c'\<rparr>)" by (intro session_step.shared) simp
  with s show ?thesis unfolding visits_def by (intro exI [of _ "s\<lparr>ctx := c'\<rparr>"]) (auto intro: reachable.move)
qed

lemma visits_hang_up:
  assumes "visits env config c Ready ts"
  shows "visits env config c CleaningUp ts"
proof -
  from assms obtain s where s: "reachable (started config) (session_step env) s" "ctx s = c" "main s = Ready"
      "tasks s = ts" by (auto simp: visits_def)
  from reachable.move [OF s(1) session_step.hang_up [OF s(3)]] s show ?thesis
    unfolding visits_def by (intro exI [of _ "s\<lparr>main := CleaningUp\<rparr>"]) simp
qed

lemma visits_handler:
  assumes "visits env config c m ts" and "handler_step env (c, m) (c', m', new)"
  shows "visits env config c' m' (ts @ new)"
proof -
  from assms(1) obtain s where s: "reachable (started config) (session_step env) s" "ctx s = c" "main s = m"
      "tasks s = ts" by (auto simp: visits_def)
  from s assms(2) have "session_step env s (s\<lparr>ctx := c', main := m', tasks := tasks s @ new\<rparr>)"
    by (intro session_step.handler) simp
  with s show ?thesis
    unfolding visits_def
    by (intro exI [of _ "s\<lparr>ctx := c', main := m', tasks := tasks s @ new\<rparr>"]) (auto intro: reachable.move)
qed

lemma visits_task:
  assumes "visits env config c m (xs @ t # ys)" and "task_step env (c, t) (c', new)"
  shows "visits env config c' m (xs @ new @ ys)"
proof -
  from assms(1) obtain s where s: "reachable (started config) (session_step env) s" "ctx s = c" "main s = m"
      "tasks s = xs @ t # ys" by (auto simp: visits_def)
  from s assms(2) have "session_step env s (s\<lparr>ctx := c', tasks := xs @ new @ ys\<rparr>)"
    by (intro session_step.task) simp_all
  with s show ?thesis
    unfolding visits_def
    by (intro exI [of _ "s\<lparr>ctx := c', tasks := xs @ new @ ys\<rparr>"]) (auto intro: reachable.move)
qed

section \<open>Events on the wire\<close>

lemma task_step_tx: "task_step env (c, t) (c', ts) \<Longrightarrow> prefix (tx c) (tx c')"
  by (cases rule: task_stepE)
    (auto simp: op_defs Let_def split: op_splits elim!: bridge_read_cases bridge_take_cases udp_receive_cases)

lemma handler_step_tx: "handler_step env (c, m) (c', m', ts) \<Longrightarrow> prefix (tx c) (tx c')"
  by (cases rule: handler_stepE) (auto simp: op_defs Let_def split: op_splits)

lemma dispatch_tx: "dispatch env r c = (c', m', ts) \<Longrightarrow> prefix (tx c) (tx c')"
  by (cases r) (auto simp: op_defs Let_def split: op_splits)

lemma shared_step_tx: "shared_step c c' \<Longrightarrow> tx c' = tx c"
  by (auto elim: shared_stepE)

lemma on_message_tx: "prefix (tx (ctx s)) (tx (ctx (on_message env msg s)))"
proof (cases "receive (codec env) msg")
  case (Request r)
  obtain c m ts where d: "dispatch env r (ctx s) = (c, m, ts)" by (cases "dispatch env r (ctx s)")
  from dispatch_tx [OF d] Request d show ?thesis by (simp add: on_message_def Let_def)
qed (simp_all add: on_message_def Let_def)

definition written :: "codec_lib \<Rightarrow> bool list \<Rightarrow> event list \<Rightarrow> message list" where
  "written lib modes evs = map2 (encode_message lib) modes evs"

definition wire_ok :: "'net env \<Rightarrow> 'net session \<Rightarrow> bool" where
  "wire_ok env s \<longleftrightarrow>
     sent s \<le> length (tx (ctx s)) \<and> (sink_open s \<longrightarrow> length (wire s) = sent s) \<and> length (wire s) \<le> sent s \<and>
     (\<exists>modes. length modes = length (wire s) \<and> wire s = written (codec env) modes (tx (ctx s)))"

lemma written_prefix:
  assumes "prefix evs evs'" and "length modes \<le> length evs"
  shows "written lib modes evs' = written lib modes evs"
  using assms by (auto simp: written_def prefix_def zip_append1 zip_append2)

lemma written_snoc:
  "length modes < length evs \<Longrightarrow>
    written lib (modes @ [b]) evs = written lib modes evs @ [encode_message lib b (evs ! length modes)]"
proof (induction modes arbitrary: evs)
  case Nil
  then show ?case by (cases evs) (auto simp: written_def)
next
  case (Cons m modes)
  then show ?case by (cases evs) (auto simp: written_def)
qed

lemma wire_ok_extend:
  assumes "wire_ok env s" and "prefix (tx (ctx s)) (tx (ctx s'))"
    and "sent s' = sent s" "wire s' = wire s" "sink_open s' = sink_open s"
  shows "wire_ok env s'"
  using assms prefix_length_le [OF assms(2)] written_prefix [OF assms(2)]
  unfolding wire_ok_def by (metis le_trans)

lemma on_message_wire:
  "sent (on_message env msg s) = sent s" "wire (on_message env msg s) = wire s"
  "sink_open (on_message env msg s) = sink_open s"
  by (simp_all add: on_message_def Let_def split: received.splits prod.splits)

lemma wire_ok_send:
  assumes "wire_ok env s"
  shows "wire_ok env (send_next env ok s)"
proof (cases "sent s < length (tx (ctx s)) \<and> sink_open s")
  case False
  then show ?thesis using assms by (simp only: send_next_def if_False)
next
  case True
  from assms obtain modes where m: "length modes = length (wire s)" "wire s = written (codec env) modes (tx (ctx s))"
    unfolding wire_ok_def by blast
  from True assms have len: "length (wire s) = sent s" by (simp add: wire_ok_def)
  from True have "written (codec env) (modes @ [b]) (tx (ctx s)) =
      wire s @ [encode_message (codec env) b (tx (ctx s) ! sent s)]" for b
    by (simp add: written_snoc m(1) len flip: m(2))
  with True assms m len show ?thesis
    by (auto simp: send_next_def wire_ok_def Let_def intro!: exI [of _ "if ok then modes @ [binary_mode s] else modes"])
qed

lemma wire_ok_step:
  assumes "wire_ok env s" and "session_step env s s'"
  shows "wire_ok env s'"
  using assms(2)
proof (cases rule: session_step.cases)
  case (message msg)
  then show ?thesis using assms(1) by (auto intro!: wire_ok_extend [of env s] simp: on_message_tx on_message_wire)
next
  case (send ok)
  then show ?thesis using assms(1) by (simp add: wire_ok_send)
qed (use assms(1) in \<open>auto intro!: wire_ok_extend [of env s] simp: task_step_tx handler_step_tx shared_step_tx\<close>)

interpretation wire_inv: inductive_invariant "started config" "session_step env" "wire_ok env"
  for env :: "'net env" and config
proof
  fix s s'
  show "started config s \<Longrightarrow> wire_ok env s"
    by (simp add: started_def session_new_def wire_ok_def written_def Ctx_new_def)
  show "wire_ok env s \<Longrightarrow> session_step env s s' \<Longrightarrow> wire_ok env s'" by (rule wire_ok_step)
qed

text \<open>C25. Events reach the client in the order they were raised: what has been written to the socket is the encoding of
  the first events of the session, one message each, none lost, repeated or overtaken, each in the mode (text or
  binary) in force when it was written.\<close>

theorem events_are_written_in_order:
  assumes "reachable (started config) (session_step env) s"
  shows "\<exists>modes. length modes = length (wire s) \<and> length (wire s) \<le> length (tx (ctx s)) \<and>
    wire s = map2 (encode_message (codec env)) modes (tx (ctx s))"
  using wire_inv.inv_reachable [OF assms] unfolding wire_ok_def written_def by (metis le_trans)

section \<open>Closing a socket\<close>

text \<open>A UDP socket that is opened, closed by the client, and whose receive task has noticed.\<close>

lemma udp_open_and_close:
  assumes "max_connections (cfg_policy config) \<noteq> 0"
    and "receive (codec env) open_msg = Request (ConnectUdp i addr port)"
    and "receive (codec env) close_msg = Request (Close i)"
    and "resolve_and_check (net env) (cfg_policy config) lookup addr port = Inr t"
  shows "\<exists>c. visits env config c Ready [] \<and> sockets c = [] \<and> active c = - 1 \<and> policy c = cfg_policy config"
proof -
  define c1 where "c1 = Ctx_new config"
  define c2 where "c2 = (emit (UdpConnect t) c1)\<lparr>active := 1, next_chan := 1\<rparr>"
  define c3 where "c3 = notify (UdpBound i 0) (c2\<lparr>sockets := [(i, Udp 0 (Some (print_sa t)) 0)]\<rparr>)"
  define c4 where "c4 = c3\<lparr>sockets := [], active := 0, closes := 1\<rparr>"
  have new: "active c1 = 0" "next_chan c1 = 0" "sockets c1 = []" "policy c1 = cfg_policy config" "closes c1 = 0"
    by (simp_all add: c1_def Ctx_new_def)
  have "dispatch env (ConnectUdp i addr port) c1 = (c1, UdpApproving i addr port, [])"
    using assms(1) by (simp add: op_defs new)
  then have v: "visits env config c1 (UdpApproving i addr port) []"
    using visits_message [OF visits_new assms(2)] c1_def by fastforce
  have "handler_step env (c1, UdpApproving i addr port) (c1, UdpBinding i t, [])"
    using handler_step.udp_approve [of env c1 i addr port lookup] assms(4) by (simp add: op_defs new)
  from visits_handler [OF v this] have v: "visits env config c1 (UdpBinding i t) []" by simp
  have "handler_step env (c1, UdpBinding i t) (c1, UdpConnecting i t 0, [])"
    using handler_step.udp_bind [of env c1 i t "Inr 0"] by (simp add: op_defs)
  from visits_handler [OF v this] have v: "visits env config c1 (UdpConnecting i t 0) []" by simp
  have "handler_step env (c1, UdpConnecting i t 0) (c2, UdpRegistering i t 0 0 0, [])"
    using handler_step.udp_connect [of env c1 i t 0 "Inr ()" None] by (simp add: op_defs Let_def c2_def new)
  from visits_handler [OF v this] have v: "visits env config c2 (UdpRegistering i t 0 0 0) []" by simp
  have "handler_step env (c2, UdpRegistering i t 0 0 0) (c3, Ready, [UdpReceiving i 0 0 None])"
    using handler_step.udp_register [of env c2 i t 0 0 0] by (simp add: op_defs c2_def c3_def new hm_insert_def)
  from visits_handler [OF v this] have v: "visits env config c3 Ready [UdpReceiving i 0 0 None]" by simp
  have "dispatch env (Close i) c3 = (c4, Ready, [])"
    by (simp add: op_defs Let_def c3_def c4_def c2_def new hm_get_def hm_remove_def notify_def emit_def)
  from visits_message [OF v assms(3) this] have v: "visits env config c4 Ready [UdpReceiving i 0 0 None]" by simp
  have "task_step env (c4, UdpReceiving i 0 0 None) (udp_end c4, [UdpUnregistering i])"
    by (rule task_step.udp_cancel) (simp add: sender_dropped_def c4_def)
  with v have v: "visits env config (udp_end c4) Ready [UdpUnregistering i]"
    using visits_task [of env config c4 Ready "[]" "UdpReceiving i 0 0 None" "[]"] by fastforce
  have "task_step env (udp_end c4, UdpUnregistering i) (notify (Closed i) (unregister i (udp_end c4)), [])"
    by (rule task_step.udp_unregister)
  with v have "visits env config (notify (Closed i) (unregister i (udp_end c4))) Ready []"
    using visits_task [of env config "udp_end c4" Ready "[]" "UdpUnregistering i" "[]"] by fastforce
  then show ?thesis
    by (intro exI [of _ "notify (Closed i) (unregister i (udp_end c4))"])
      (simp add: op_defs c4_def c3_def c2_def new hm_remove_def)
qed

text \<open>C16. One closed socket can lock the session out. With any limit on connections, there is a run in which the client
  opens one UDP socket and closes it again, after which nothing is open and yet every further request for a
  connection (plain, TLS or UDP, to any target) is answered with \<^verbatim>\<open>max connections reached\<close>: the close request and
  the socket's own task both decremented the counter, which wrapped to its largest value.\<close>

theorem closing_a_socket_locks_the_session:
  assumes "max_connections (cfg_policy config) \<noteq> 0"
    and "receive (codec env) open_msg = Request (ConnectUdp i addr port)"
    and "receive (codec env) close_msg = Request (Close i)"
    and "resolve_and_check (net env) (cfg_policy config) lookup addr port = Inr t"
  shows "\<exists>s. reachable (started config) (session_step env) s \<and> main s = Ready \<and> tasks s = [] \<and> sockets (ctx s) = [] \<and>
    (\<forall>j a p r. r \<in> {Connect j a p, ConnectTls j a p, ConnectUdp j a p} \<longrightarrow>
      dispatch env r (ctx s) = (notify (event_error j ''max connections reached'') (ctx s), Ready, []))"
proof -
  from udp_open_and_close [OF assms] obtain s where s: "reachable (started config) (session_step env) s"
      "main s = Ready" "tasks s = []" "sockets (ctx s) = []" "active (ctx s) = - 1"
    by (auto simp: visits_def)
  have "max_connections (policy (ctx s)) \<le> - 1" by (rule word_order.extremum)
  with s show ?thesis
    by (intro exI [of _ s]) (auto simp: handle_connect_def handle_connect_tls_def handle_connect_udp_def at_connection_limit_def)
qed

section \<open>Connections that are never released\<close>

text \<open>A session that has ended while one bridge is left whose entry was inserted after the cleanup.\<close>

definition orphaned :: "u64 \<Rightarrow> conn \<Rightarrow> chan \<Rightarrow> 'net session \<Rightarrow> bool" where
  "orphaned i x ch s \<longleftrightarrow>
     main s = Ended \<and> (\<exists>rd. tasks s = [Bridging i x ch True rd Waiting]) \<and>
     queue_of (ctx s) ch = [] \<and> hm_get (sockets (ctx s)) i = Some (Tcp ch)"

lemma orphaned_task:
  assumes "task_step env (c, Bridging i x ch True rd Waiting) (c', ts)"
    and "hm_get (sockets c) i = Some (Tcp ch)" and "queue_of c ch = []"
  shows "(\<exists>rd'. ts = [Bridging i x ch True rd' Waiting]) \<and> sockets c' = sockets c \<and> queue_of c' ch = []"
proof -
  have "\<not> sender_dropped c ch" using hm_get_SomeD [OF assms(2)] by (force simp: sender_dropped_def list_ex_iff)
  with assms(1,3) show ?thesis
    by (cases rule: task_stepE) (auto simp: op_defs queue_of_def bridge_take_def elim!: bridge_read_cases)
qed

lemma orphaned_step:
  assumes "session_step env s s'" and "orphaned i x ch s"
  shows "orphaned i x ch s'"
  using assms(1)
proof (cases rule: session_step.cases)
  case (handler c' m' ts)
  with assms(2) show ?thesis by (auto simp: orphaned_def elim: handler_step.cases)
next
  case (task xs t ys c' ts)
  with assms(2) obtain rd where "xs = []" "ys = []" "t = Bridging i x ch True rd Waiting"
    by (auto simp: orphaned_def append_eq_Cons_conv)
  with task assms(2) orphaned_task [of env "ctx s" i x ch rd c' ts] show ?thesis
    by (auto simp: orphaned_def)
next
  case (shared c')
  with assms(2) show ?thesis by (auto simp: orphaned_def queue_of_def elim: shared_stepE)
qed (use assms(2) in \<open>auto simp: orphaned_def\<close>)

interpretation orphan_inv: inductive_invariant "orphaned i x ch" "session_step env" "orphaned i x ch"
  for env :: "'net env" and i x ch
  by unfold_locales (auto intro: orphaned_step)

text \<open>Connect requests that arrive together: each is checked against the limit when it arrives, then approved and dialled.\<close>

lemma dial_empty_pool:
  assumes "\<forall>p. pool c = Some p \<longrightarrow> idle p = []"
  shows "try_pool_or_connect t clk outcome c = (tcp_connect outcome, emit (TcpDial t) c)"
proof (cases "pool c")
  case (Some p)
  with assms have "idle p = []" by simp
  moreover have "c\<lparr>pool := Some p\<rparr> = c" using Some by simp
  ultimately show ?thesis using Some by (simp add: try_pool_or_connect_def empty_pool_get)
qed (simp add: try_pool_or_connect_def)

lemma visits_connect:
  assumes "visits env config c m (xs @ Connecting i addr port None # ys)"
    and "resolve_and_check (net env) (policy c) lookup addr port = Inr t" and "\<forall>p. pool c = Some p \<longrightarrow> idle p = []"
  shows "visits env config ((notify (Connected i) ((emit (TcpDial t) c)\<lparr>active := active c + 1\<rparr>))\<lparr>next_chan := Suc (next_chan c)\<rparr>)
    m (xs @ Registering i 0 (next_chan c) # ys)"
proof -
  have "task_step env (c, Connecting i addr port None) (c, [Dialing i t None])"
    using task_step.approve [of env c i addr port None lookup] assms(2)
    by (simp add: connect_approve_def approved_target_def)
  from visits_task [OF assms(1) this] have v: "visits env config c m (xs @ Dialing i t None # ys)" by simp
  have "task_step env (c, Dialing i t None)
      ((notify (Connected i) ((emit (TcpDial t) c)\<lparr>active := active c + 1\<rparr>))\<lparr>next_chan := Suc (next_chan c)\<rparr>,
       [Registering i 0 (next_chan c)])"
    using task_step.dial [of env c i t "\<lambda>_. 0" "Established 0"] dial_empty_pool [OF assms(3)]
    by (simp add: connect_dial_def established_def channel_def Let_def)
  from visits_task [OF v this] show ?thesis by simp
qed

lemma visits_requests:
  assumes "max_connections (cfg_policy config) \<noteq> 0"
    and "\<And>k. receive (codec env) (msg k) = Request (Connect (ids k) addr port)"
  shows "visits env config (Ctx_new config) Ready (map (\<lambda>k. Connecting (ids k) addr port None) [0..<n])"
proof (induction n)
  case 0
  show ?case by (simp add: visits_new)
next
  case (Suc n)
  have "dispatch env (Connect (ids n) addr port) (Ctx_new config) = (Ctx_new config, Ready, [Connecting (ids n) addr port None])"
    using assms(1) by (simp add: handle_connect_def at_connection_limit_def Ctx_new_def)
  from visits_message [OF Suc.IH assms(2) this] show ?case by simp
qed

definition dialled :: "(nat \<Rightarrow> u64) \<Rightarrow> socket_addr \<Rightarrow> nat \<Rightarrow> 'net session_config \<Rightarrow> 'net ctx \<Rightarrow> bool" where
  "dialled ids t n config c \<longleftrightarrow>
     effects c = replicate n (TcpDial t) \<and> tx c = map (\<lambda>k. Connected (ids k)) [0..<n] \<and> active c = of_nat n \<and>
     next_chan c = n \<and> sockets c = [] \<and> queued c = [] \<and> closes c = 0 \<and> pushed c = [] \<and> got c = [] \<and> closed_rx c = [] \<and> given c = [] \<and>
     rl c = cfg_rate_limiter config \<and> pool c = cfg_pool config \<and> policy c = cfg_policy config"

lemma connects_run:
  assumes "max_connections (cfg_policy config) \<noteq> 0" and "\<forall>p. cfg_pool config = Some p \<longrightarrow> idle p = []"
    and "\<And>k. receive (codec env) (msg k) = Request (Connect (ids k) addr port)"
    and "resolve_and_check (net env) (cfg_policy config) lookup addr port = Inr t"
  shows "\<exists>c. visits env config c Ready (map (\<lambda>k. Registering (ids k) 0 k) [0..<n]) \<and> dialled ids t n config c"
proof -
  have "\<exists>c. visits env config c Ready
      (map (\<lambda>k. Registering (ids k) 0 k) [0..<k] @ map (\<lambda>k. Connecting (ids k) addr port None) [k..<n]) \<and>
      dialled ids t k config c" if "k \<le> n" for k
    using that
  proof (induction k)
    case 0
    show ?case
      using visits_requests [OF assms(1,3), where n = n]
      by (intro exI [of _ "Ctx_new config"]) (simp add: dialled_def Ctx_new_def)
  next
    case (Suc k)
    then obtain c where c: "dialled ids t k config c" and v: "visits env config c Ready
        (map (\<lambda>k. Registering (ids k) 0 k) [0..<k] @ Connecting (ids k) addr port None #
          map (\<lambda>k. Connecting (ids k) addr port None) [Suc k..<n])"
      by (auto simp: upt_conv_Cons)
    from visits_connect [OF v, of lookup t] c assms(2,4) show ?case
      by (intro exI conjI) (auto simp: dialled_def replicate_append_same)
  qed
  from this [of n] show ?thesis by simp
qed

text \<open>The run: a connect request, its approval and its dialling; the client hangs up and the session cleans up; then the
  connection task enters its socket into the map.\<close>

lemma in_flight_run:
  assumes "max_connections (cfg_policy config) \<noteq> 0" and "\<forall>p. cfg_pool config = Some p \<longrightarrow> idle p = []"
    and "receive (codec env) msg = Request (Connect i addr port)"
    and "resolve_and_check (net env) (cfg_policy config) lookup addr port = Inr t"
  shows "\<exists>c. visits env config c Ended [Bridging i 0 0 True Reading Waiting] \<and> effects c = [TcpDial t] \<and>
    tx c = [Connected i] \<and> queue_of c 0 = [] \<and> sockets c = [(i, Tcp 0)] \<and> closes c = 0 \<and> rl c = cfg_rate_limiter config"
proof -
  from connects_run [OF assms(1,2), of env "\<lambda>_. msg" "\<lambda>_. i" addr port lookup t 1] assms(3,4)
  obtain c2 where v: "visits env config c2 Ready [Registering i 0 0]" and c2: "dialled (\<lambda>_. i) t 1 config c2" by auto
  from visits_handler [OF visits_hang_up [OF v] handler_step.cleaning]
  have v: "visits env config (cleanup c2) Ended [Registering i 0 0]" by simp
  have "task_step env (cleanup c2, Registering i 0 0) (register_tcp i 0 (cleanup c2), [Bridging i 0 0 True Reading Waiting])"
    by (rule task_step.register)
  with v have "visits env config (register_tcp i 0 (cleanup c2)) Ended [Bridging i 0 0 True Reading Waiting]"
    using visits_task [of env config "cleanup c2" Ended "[]" "Registering i 0 0" "[]"] by fastforce
  then show ?thesis
    using c2 by (intro exI [of _ "register_tcp i 0 (cleanup c2)"])
      (simp add: op_defs dialled_def queue_of_def hm_insert_def hm_get_def)
qed

text \<open>C18. A connection that is being set up when the client hangs up is never released: there is a run after which the
  session has ended, the connection is open and counted, and in every continuation it stays so, whatever the peer
  does. Its entry in the socket map keeps its own writer waiting.\<close>

theorem connection_in_flight_at_hang_up_leaks:
  assumes "max_connections (cfg_policy config) \<noteq> 0" and "\<forall>p. cfg_pool config = Some p \<longrightarrow> idle p = []"
    and "receive (codec env) msg = Request (Connect i addr port)"
    and "resolve_and_check (net env) (cfg_policy config) lookup addr port = Inr t"
  shows "\<exists>s. reachable (started config) (session_step env) s \<and> main s = Ended \<and> effects (ctx s) = [TcpDial t] \<and>
    (\<forall>s'. reachable (\<lambda>s0. s0 = s) (session_step env) s' \<longrightarrow> main s' = Ended \<and> live (main s') (tasks s') = 1)"
proof -
  from in_flight_run [OF assms] obtain s where s: "reachable (started config) (session_step env) s"
      "orphaned i 0 0 s" "effects (ctx s) = [TcpDial t]"
    by (fastforce simp: visits_def orphaned_def hm_get_def)
  have "main s' = Ended \<and> live (main s') (tasks s') = 1" if "orphaned i 0 0 s'" for s' :: "'a session"
    using that by (auto simp: orphaned_def live_def)
  moreover have "main s = Ended" using s(2) by (simp add: orphaned_def)
  ultimately show ?thesis using s orphan_inv.inv_from by blast
qed

text \<open>C17. The connection limit does not limit the number of open connections: it is read when a request arrives and the counter is
  raised only once the connection is made, so for every limit but zero and every number \<open>n\<close> there is a run in which
  \<open>n\<close> connections are open at once, all of them reported to the client.\<close>

theorem connection_limit_can_be_overrun:
  assumes "max_connections (cfg_policy config) \<noteq> 0" and "\<forall>p. cfg_pool config = Some p \<longrightarrow> idle p = []"
    and "\<forall>k. receive (codec env) (msg k) = Request (Connect (of_nat k) addr port)"
    and "resolve_and_check (net env) (cfg_policy config) lookup addr port = Inr t"
  shows "\<exists>s. reachable (started config) (session_step env) s \<and> live (main s) (tasks s) = n \<and>
    tx (ctx s) = map (\<lambda>k. Connected (of_nat k)) [0..<n] \<and> closes (ctx s) = 0 \<and> policy (ctx s) = cfg_policy config"
proof -
  from connects_run [OF assms(1,2), of env msg of_nat addr port lookup t n] assms(3,4)
  obtain c where "visits env config c Ready (map (\<lambda>k. Registering (of_nat k) 0 k) [0..<n])" "dialled of_nat t n config c"
    by auto
  then show ?thesis by (auto simp: visits_def dialled_def live_def comp_def sum_list_triv)
qed

section \<open>Witnesses\<close>

definition demo_env :: "(ip_addr \<times> nat) env" where
  "demo_env = \<lparr>net = demo_net, codec = demo_lib, server_name = (\<lambda>_. Inr ())\<rparr>"

definition demo_config :: "(ip_addr \<times> nat) session_config" where
  "demo_config = \<lparr>cfg_policy = Policy_new demo_net network_policy_default, cfg_rate_limiter = RateLimiter_new 10 0,
     cfg_pool = map_option (\<lambda>(secs, n). ConnectionPool_new secs n) (Some (30, 8))\<rparr>"

lemma demo_policy: "max_connections (cfg_policy demo_config) \<noteq> 0"
  by (simp add: demo_config_def Policy_new_def network_policy_default_def default_max_connections_def split: prod.splits)

lemma demo_idle: "\<forall>p. cfg_pool demo_config = Some p \<longrightarrow> idle p = []"
  by (simp add: demo_config_def ConnectionPool_new_def)

lemma demo_messages:
  "receive (codec demo_env) (BinaryMsg (js_connect 1 ''8.8.8.8'' 53)) = Request (Connect 1 ''8.8.8.8'' 53)"
  "receive (codec demo_env) (BinaryMsg (js_connectUdp 1 ''8.8.8.8'' 53)) = Request (ConnectUdp 1 ''8.8.8.8'' 53)"
  "receive (codec demo_env) (BinaryMsg (js_close 1)) = Request (Close 1)"
  by code_simp+

lemma demo_approved:
  "resolve_and_check (net demo_env) (cfg_policy demo_config) (\<lambda>_. Inl []) ''8.8.8.8'' 53 = Inr (SockV4 0x08080808 53)"
  by code_simp

lemma demo_run:
  "\<exists>s. reachable (started demo_config) (session_step demo_env) s \<and> effects (ctx s) = [TcpDial (SockV4 0x08080808 53)] \<and>
    tx (ctx s) = [Connected 1] \<and> closes (ctx s) = 0 \<and> live (main s) (tasks s) = 1"
  using in_flight_run [OF demo_policy demo_idle demo_messages(1) demo_approved]
  by (fastforce simp: visits_def live_def)

theorem session_respects_policy_witness:
  "\<exists>s. reachable (started demo_config) (session_step demo_env) s \<and>
    effects (ctx s) = [TcpDial (SockV4 0x08080808 53)] \<and>
    \<not> ip_denied demo_net (Policy_new demo_net network_policy_default) (V4 0x08080808) 53"
proof -
  from demo_run obtain s where s: "reachable (started demo_config) (session_step demo_env) s"
    "effects (ctx s) = [TcpDial (SockV4 0x08080808 53)]" by blast
  from session_respects_policy [OF s(1)] s show ?thesis
    by (intro exI [of _ s]) (simp add: demo_config_def demo_env_def)
qed

theorem active_is_open_less_closed_witness:
  "\<exists>s. reachable (started demo_config) (session_step demo_env) s \<and> active (ctx s) = 1"
proof -
  from demo_run obtain s where s: "reachable (started demo_config) (session_step demo_env) s"
    "closes (ctx s) = 0" "live (main s) (tasks s) = 1" by blast
  from active_is_open_less_closed [OF s(1)] s show ?thesis by (intro exI [of _ s]) simp
qed

lemma demo_config_pool:
  "demo_config = demo_config\<lparr>cfg_pool := map_option (\<lambda>(secs, n). ConnectionPool_new secs n) (Some (30, 8))\<rparr>"
  by (simp add: demo_config_def)

lemma demo_config_limit: "demo_config = demo_config\<lparr>cfg_rate_limiter := RateLimiter_new 10 0\<rparr>"
  by (simp add: demo_config_def)

theorem pool_is_never_filled_witness:
  "\<exists>s. reachable (started demo_config) (session_step demo_env) s \<and>
    effects (ctx s) = [TcpDial (SockV4 0x08080808 53)] \<and> (\<forall>p. pool (ctx s) = Some p \<longrightarrow> pool_size p = 0)"
proof -
  from demo_run obtain s where s: "reachable (started demo_config) (session_step demo_env) s"
    "effects (ctx s) = [TcpDial (SockV4 0x08080808 53)]" by blast
  note r = s(1)
  from r have "reachable (started (demo_config\<lparr>cfg_pool := map_option (\<lambda>(secs, n). ConnectionPool_new secs n) (Some (30, 8))\<rparr>))
    (session_step demo_env) s" by (simp only: demo_config_pool [symmetric])
  from pool_is_never_filled [OF this] s show ?thesis by blast
qed

theorem data_paths_never_panic_witness:
  "\<exists>s. reachable (started demo_config) (session_step demo_env) s \<and>
    bridge_read True 1 0 (Inr (replicate 16384 0)) 5 (ctx s) \<noteq> None"
proof -
  from demo_run obtain s where s: "reachable (started demo_config) (session_step demo_env) s" by blast
  then have "reachable (started (demo_config\<lparr>cfg_rate_limiter := RateLimiter_new 10 0\<rparr>)) (session_step demo_env) s"
    by (simp only: demo_config_limit [symmetric])
  from data_paths_never_panic [OF this, of "replicate 16384 0" True 1 0 5] s show ?thesis by auto
qed

theorem events_are_written_in_order_witness:
  "\<exists>s modes. reachable (started demo_config) (session_step demo_env) s \<and> tx (ctx s) = [Connected 1] \<and>
    wire s = map2 (encode_message demo_lib) modes [Connected 1]"
proof -
  from demo_run obtain s where s: "reachable (started demo_config) (session_step demo_env) s"
    "tx (ctx s) = [Connected 1]" by blast
  from events_are_written_in_order [OF s(1)] s show ?thesis by (auto simp: demo_env_def)
qed

theorem closing_a_socket_locks_the_session_witness:
  "\<exists>s. reachable (started demo_config) (session_step demo_env) s \<and> sockets (ctx s) = [] \<and>
    dispatch demo_env (Connect 2 ''1.1.1.1'' 443) (ctx s) =
      (notify (event_error 2 ''max connections reached'') (ctx s), Ready, [])"
  using closing_a_socket_locks_the_session [OF demo_policy demo_messages(2,3) demo_approved] by blast

theorem connection_in_flight_at_hang_up_leaks_witness:
  "\<exists>s. reachable (started demo_config) (session_step demo_env) s \<and> main s = Ended \<and>
    (\<forall>s'. reachable (\<lambda>s0. s0 = s) (session_step demo_env) s' \<longrightarrow> live (main s') (tasks s') = 1)"
  using connection_in_flight_at_hang_up_leaks [OF demo_policy demo_idle demo_messages(1) demo_approved] by blast

theorem connection_limit_can_be_overrun_witness:
  "\<exists>s. reachable (started demo_config) (session_step demo_env) s \<and> live (main s) (tasks s) = 1000 \<and>
    max_connections (policy (ctx s)) = 50"
proof -
  have "is_utf8 ''8.8.8.8''" by code_simp
  then have "\<forall>k. receive (codec demo_env) (BinaryMsg (js_connect k ''8.8.8.8'' 53)) = Request (Connect (of_nat k) ''8.8.8.8'' 53)"
    by (simp add: js_connect_def decode_js_host_port [OF js_request_codes(1)])
  from connection_limit_can_be_overrun [OF demo_policy demo_idle this demo_approved, of 1000] show ?thesis
    by (auto simp: demo_config_def Policy_new_def network_policy_default_def default_max_connections_def split: prod.splits)
qed

end
