(* ===== verification/Webtransport.thy ===== *)
theory Webtransport
  imports Session_Runs
begin

text \<open>
  \<^verbatim>\<open>src/webtransport.rs\<close> and the WebTransport half of the browser client: length-prefixed frames on one byte
  stream, and the session that runs on them. A stream is the list of its bytes up to the end or the first
  error; \<^verbatim>\<open>read_exact\<close> sees no chunk boundaries, the client's \<^verbatim>\<open>_readLoop\<close> does.
\<close>

section \<open>Framing\<close>

definition MAX_FRAME :: u32 where
  "MAX_FRAME = 16 * 1024 * 1024"

text \<open>The two \<^verbatim>\<open>write_all\<close> calls of the send task.\<close>

definition wt_write :: "u8 list \<Rightarrow> u8 list" where
  "wt_write body = to_be_bytes_u32 (of_nat (length body)) @ body"

text \<open>One turn of the server's read loop: \<^const>\<open>None\<close> ends it (end of stream, or a length that is zero or too large).\<close>

definition wt_next :: "u8 list \<Rightarrow> (u8 list \<times> u8 list) option" where
  "wt_next bs =
     (if length bs < 4 then None
      else let len = from_be_bytes_u32 (take 4 bs); rest = drop 4 bs in
        if len = 0 \<or> MAX_FRAME < len then None
        else if length rest < unat len then None
        else Some (take (unat len) rest, drop (unat len) rest))"

text \<open>The client: \<^verbatim>\<open>sendBinaryFrame\<close> and the inner loop of \<^verbatim>\<open>_readLoop\<close>.\<close>

definition WT_LENGTH_PREFIX :: nat where
  "WT_LENGTH_PREFIX = 4"

definition sendBinaryFrame :: "u8 list \<Rightarrow> u8 list" where
  "sendBinaryFrame frm = setUint32 (length frm) @ frm"

definition js_next :: "u8 list \<Rightarrow> (u8 list \<times> u8 list) option" where
  "js_next bs =
     (if length bs < WT_LENGTH_PREFIX then None
      else let len = unat (from_be_bytes_u32 (take WT_LENGTH_PREFIX bs)); rest = drop WT_LENGTH_PREFIX bs in
        if length rest < len then None else Some (take len rest, drop len rest))"

lemma wt_next_shorter: "wt_next bs = Some (f, rest) \<Longrightarrow> length rest < length bs"
  by (auto simp: wt_next_def Let_def split: if_splits)

lemma js_next_shorter: "js_next bs = Some (f, rest) \<Longrightarrow> length rest < length bs"
  by (auto simp: js_next_def WT_LENGTH_PREFIX_def Let_def split: if_splits)

function wt_frames :: "u8 list \<Rightarrow> u8 list list \<times> u8 list" where
  "wt_frames bs =
     (case wt_next bs of
        None \<Rightarrow> ([], bs)
      | Some (f, rest) \<Rightarrow> (case wt_frames rest of (fs, tail) \<Rightarrow> (f # fs, tail)))"
  by auto
termination by (relation "measure length") (auto dest: wt_next_shorter)

function js_frames :: "u8 list \<Rightarrow> u8 list list \<times> u8 list" where
  "js_frames bs =
     (case js_next bs of
        None \<Rightarrow> ([], bs)
      | Some (f, rest) \<Rightarrow> (case js_frames rest of (fs, tail) \<Rightarrow> (f # fs, tail)))"
  by auto
termination by (relation "measure length") (auto dest: js_next_shorter)

declare wt_frames.simps [simp del] js_frames.simps [simp del]

text \<open>\<^verbatim>\<open>_readLoop\<close>: each chunk is appended to what is left over and the complete frames are handed over.\<close>

fun readLoop :: "u8 list list \<Rightarrow> u8 list \<Rightarrow> u8 list list \<times> u8 list" where
  "readLoop [] buf = ([], buf)"
| "readLoop (chunk # chunks) buf =
     (case js_frames (buf @ chunk) of
        (fs, buf') \<Rightarrow> (case readLoop chunks buf' of (gs, tail) \<Rightarrow> (fs @ gs, tail)))"

text \<open>
  The interface of a framing: how one frame is written, how the first one is taken off a stream, and the loop
  that takes all of them.
\<close>

locale framing =
  fixes put :: "u8 list \<Rightarrow> u8 list"
    and get :: "u8 list \<Rightarrow> (u8 list \<times> u8 list) option"
    and frames :: "u8 list \<Rightarrow> u8 list list \<times> u8 list"
    and fits :: "u8 list \<Rightarrow> bool"
  assumes get_put: "fits f \<Longrightarrow> get (put f @ rest) = Some (f, rest)"
    and get_more: "get bs = Some (f, rest) \<Longrightarrow> get (bs @ ext) = Some (f, rest @ ext)"
    and get_shorter: "get bs = Some (f, rest) \<Longrightarrow> length rest < length bs"
    and frames_unfold: "frames bs =
      (case get bs of None \<Rightarrow> ([], bs) | Some (f, rest) \<Rightarrow> (case frames rest of (fs, tail) \<Rightarrow> (f # fs, tail)))"
begin

lemma frames_None: "get bs = None \<Longrightarrow> frames bs = ([], bs)"
  by (subst frames_unfold) simp

lemma frames_Some: "get bs = Some (f, rest) \<Longrightarrow> frames bs = (f # fst (frames rest), snd (frames rest))"
  by (subst frames_unfold) (simp split: prod.splits)

lemma frames_put: "list_all fits fs \<Longrightarrow> frames (concat (map put fs) @ rest) = (fs @ fst (frames rest), snd (frames rest))"
proof (induction fs)
  case (Cons f fs)
  then have "get (put f @ (concat (map put fs) @ rest)) = Some (f, concat (map put fs) @ rest)"
    by (intro get_put) simp
  from frames_Some [OF this] Cons show ?case by simp
qed simp

lemma frames_more: "frames (bs @ ext) = (fst (frames bs) @ fst (frames (snd (frames bs) @ ext)), snd (frames (snd (frames bs) @ ext)))"
proof (induction "length bs" arbitrary: bs rule: less_induct)
  case less
  show ?case
  proof (cases "get bs")
    case None
    then show ?thesis by (simp add: frames_None)
  next
    case (Some p)
    obtain f rest where p: "p = (f, rest)" by (cases p)
    with Some have g: "get bs = Some (f, rest)" by simp
    from less [OF get_shorter [OF g]] show ?thesis
      by (simp add: frames_Some [OF g] frames_Some [OF get_more [OF g]])
  qed
qed

end

lemma from_be_take4: "from_be_bytes_u32 (take 4 (to_be_bytes_u32 w @ rest)) = w"
  by (rule be32.read_field)

interpretation wt: framing wt_write wt_next wt_frames "\<lambda>f. f \<noteq> [] \<and> length f \<le> unat MAX_FRAME"
proof
  fix f rest bs ext :: "u8 list"
  assume f: "f \<noteq> [] \<and> length f \<le> unat MAX_FRAME"
  define w where "w = (of_nat (length f) :: u32)"
  have w: "unat w = length f" using f by (simp add: w_def MAX_FRAME_def unat_of_nat)
  moreover from w f have "w \<noteq> 0" by auto
  moreover have "\<not> MAX_FRAME < w" using f w by (simp add: word_less_nat_alt)
  ultimately show "wt_next (wt_write f @ rest) = Some (f, rest)"
    by (simp add: wt_next_def wt_write_def from_be_take4 codec_simps Let_def flip: w_def)
next
  fix f rest bs ext
  show "wt_next bs = Some (f, rest) \<Longrightarrow> wt_next (bs @ ext) = Some (f, rest @ ext)"
    by (auto simp: wt_next_def Let_def split: if_splits)
qed (rule wt_next_shorter wt_frames.simps; assumption?)+

interpretation js: framing sendBinaryFrame js_next js_frames "\<lambda>f. length f < 2 ^ 32"
proof
  fix f rest bs ext :: "u8 list"
  assume f: "length f < 2 ^ 32"
  define w where "w = (of_nat (length f) :: u32)"
  have "unat w = length f" using f by (simp add: w_def unat_of_nat)
  then show "js_next (sendBinaryFrame f @ rest) = Some (f, rest)"
    by (simp add: js_next_def sendBinaryFrame_def setUint32_def WT_LENGTH_PREFIX_def from_be_take4 codec_simps
        Let_def flip: w_def)
next
  fix f rest bs ext
  show "js_next bs = Some (f, rest) \<Longrightarrow> js_next (bs @ ext) = Some (f, rest @ ext)"
    by (auto simp: js_next_def WT_LENGTH_PREFIX_def Let_def split: if_splits)
qed (rule js_next_shorter js_frames.simps; assumption?)+

section \<open>The session\<close>

text \<open>\<^verbatim>\<open>run_session\<close>: the same shared state, handlers and tasks as a WebSocket session. \<open>inbox\<close> is the part of the
  client's stream not yet read; the loop ends when no frame can be taken from it. The send task writes every event
  in binary.\<close>

record 'net wt_session =
  wt_ctx :: "'net ctx"
  wt_main :: main_state
  wt_tasks :: "task list"
  inbox :: "u8 list"
  wt_sent :: nat
  outbox :: "u8 list"
  wt_open :: bool

definition wt_new :: "'net session_config \<Rightarrow> u8 list \<Rightarrow> 'net wt_session" where
  "wt_new config bytes =
     \<lparr>wt_ctx = Ctx_new config, wt_main = Ready, wt_tasks = [], inbox = bytes, wt_sent = 0, outbox = [],
      wt_open = True\<rparr>"

definition wt_started :: "'net session_config \<Rightarrow> 'net wt_session \<Rightarrow> bool" where
  "wt_started config w \<longleftrightarrow> (\<exists>bytes. w = wt_new config bytes)"

definition wt_turn :: "'net env \<Rightarrow> 'net wt_session \<Rightarrow> 'net wt_session" where
  "wt_turn env w =
     (case wt_next (inbox w) of
        None \<Rightarrow> w\<lparr>wt_main := CleaningUp\<rparr>
      | Some (f, rest) \<Rightarrow>
          (let w = w\<lparr>inbox := rest\<rparr> in
           case decode_request (codec env) f of
             Some (Inr r) \<Rightarrow>
               (case dispatch env r (wt_ctx w) of
                  (c, m, ts) \<Rightarrow> w\<lparr>wt_ctx := c, wt_main := m, wt_tasks := wt_tasks w @ ts\<rparr>)
           | Some (Inl e) \<Rightarrow> w\<lparr>wt_ctx := notify (event_error 0 (''invalid binary frame: '' @ e)) (wt_ctx w)\<rparr>
           | None \<Rightarrow> w\<lparr>wt_main := CleaningUp\<rparr>))"

text \<open>One turn of the send task: an event is taken and written. A write that fails after some bytes ends the task.\<close>

definition wt_send :: "'net env \<Rightarrow> nat option \<Rightarrow> 'net wt_session \<Rightarrow> 'net wt_session" where
  "wt_send env failed w =
     (if wt_sent w < length (tx (wt_ctx w)) \<and> wt_open w then
        let body = wt_write (encode_event (codec env) (tx (wt_ctx w) ! wt_sent w)); w = w\<lparr>wt_sent := Suc (wt_sent w)\<rparr> in
        case failed of
          None \<Rightarrow> w\<lparr>outbox := outbox w @ body\<rparr>
        | Some n \<Rightarrow> w\<lparr>outbox := outbox w @ take n body, wt_open := False\<rparr>
      else w)"

inductive wt_step :: "'net env \<Rightarrow> 'net wt_session \<Rightarrow> 'net wt_session \<Rightarrow> bool" for env where
  turn: "wt_main w = Ready \<Longrightarrow> wt_step env w (wt_turn env w)"
| handler: "handler_step env (wt_ctx w, wt_main w) (c', m', ts) \<Longrightarrow>
    wt_step env w (w\<lparr>wt_ctx := c', wt_main := m', wt_tasks := wt_tasks w @ ts\<rparr>)"
| task: "wt_tasks w = xs @ t # ys \<Longrightarrow> task_step env (wt_ctx w, t) (c', ts) \<Longrightarrow>
    wt_step env w (w\<lparr>wt_ctx := c', wt_tasks := xs @ ts @ ys\<rparr>)"
| send: "wt_step env w (wt_send env failed w)"
| shared: "shared_step (wt_ctx w) c' \<Longrightarrow> wt_step env w (w\<lparr>wt_ctx := c'\<rparr>)"

section \<open>WebTransport sessions behave as WebSocket sessions\<close>

definition simulated :: "'net env \<Rightarrow> 'net session_config \<Rightarrow> 'net wt_session \<Rightarrow> bool" where
  "simulated env config w \<longleftrightarrow> visits env config (wt_ctx w) (wt_main w) (wt_tasks w)"

lemma simulated_turn:
  assumes "simulated env config w" and "wt_main w = Ready"
  shows "simulated env config (wt_turn env w)"
proof (cases "wt_next (inbox w)")
  case None
  with assms visits_hang_up show ?thesis by (simp add: simulated_def wt_turn_def)
next
  case (Some p)
  obtain f rest where p: "p = (f, rest)" by (cases p)
  have v: "visits env config (wt_ctx w) Ready (wt_tasks w)" using assms by (simp add: simulated_def)
  show ?thesis
  proof (cases "receive (codec env) (BinaryMsg f)")
    case (Request r)
    obtain c m ts where d: "dispatch env r (wt_ctx w) = (c, m, ts)" by (cases "dispatch env r (wt_ctx w)")
    from Request have "decode_request (codec env) f = Some (Inr r)" by (simp split: option.splits sum.splits)
    with visits_message [OF v Request d] Some d show ?thesis by (simp add: simulated_def wt_turn_def p Let_def)
  next
    case (Invalid e)
    from visits_invalid [OF v Invalid] Invalid Some show ?thesis
      by (auto simp: simulated_def wt_turn_def p assms(2) Let_def split: option.splits sum.splits)
  next
    case Stop
    with visits_hang_up [OF v] Some show ?thesis
      by (auto simp: simulated_def wt_turn_def p Let_def split: option.splits sum.splits)
  qed (simp split: option.splits sum.splits)
qed

lemma wt_send_parts [simp]:
  "wt_ctx (wt_send env failed w) = wt_ctx w" "wt_main (wt_send env failed w) = wt_main w"
  "wt_tasks (wt_send env failed w) = wt_tasks w"
  by (simp_all add: wt_send_def Let_def split: option.splits)

interpretation wt_sim: inductive_invariant "wt_started config" "wt_step env" "simulated env config"
  for env :: "'net env" and config
proof
  fix w w'
  show "wt_started config w \<Longrightarrow> simulated env config w"
    by (auto simp: wt_started_def wt_new_def simulated_def visits_new)
  assume sim: "simulated env config w" and "wt_step env w w'"
  from this(2) show "simulated env config w'"
    by cases (use sim in \<open>auto simp: simulated_turn, auto simp: simulated_def visits_handler visits_task visits_shared\<close>)
qed

section \<open>Properties\<close>

text \<open>C10. Both transports are one machine: whatever a WebTransport client sends, the shared state, the point the loop is
  at and the running tasks are those of some WebSocket session with the same configuration. Everything shown of the
  states of WebSocket sessions therefore holds of WebTransport sessions.\<close>

theorem webtransport_refines_websocket:
  assumes "reachable (wt_started config) (wt_step env) w"
  shows "\<exists>s. reachable (started config) (session_step env) s \<and>
    ctx s = wt_ctx w \<and> main s = wt_main w \<and> tasks s = wt_tasks w"
  using wt_sim.inv_reachable [OF assms] by (simp add: simulated_def visits_def)

theorem webtransport_refines_websocket_witness:
  "\<exists>s. reachable (started demo_config) (session_step demo_env) s \<and> tasks s = [Connecting 1 ''8.8.8.8'' 53 None]"
proof -
  define w where "w = wt_turn demo_env (wt_new demo_config (sendBinaryFrame (js_connect 1 ''8.8.8.8'' 53)))"
  have "reachable (wt_started demo_config) (wt_step demo_env) w"
    unfolding w_def
    by (intro reachable.move [where step = "wt_step demo_env", OF _ wt_step.turn] reachable.start)
      (auto simp: wt_started_def wt_new_def)
  moreover have "wt_tasks w = [Connecting 1 ''8.8.8.8'' 53 None]" unfolding w_def by code_simp
  ultimately show ?thesis using webtransport_refines_websocket [of demo_config demo_env w] by fastforce
qed

lemma sendBinaryFrame_wt_write: "sendBinaryFrame = wt_write"
  by (simp add: fun_eq_iff sendBinaryFrame_def wt_write_def setUint32_def)

text \<open>Every frame the server hands to the decoder is between one byte and 16 MiB long, whatever bytes arrive.\<close>

lemma frames_are_bounded:
  "list_all (\<lambda>f. f \<noteq> [] \<and> length f \<le> 16777216) (fst (wt_frames bs))"
proof (induction bs rule: wt_frames.induct)
  case (1 bs)
  show ?case
  proof (cases "wt_next bs")
    case None
    then show ?thesis by (simp add: wt.frames_None)
  next
    case (Some p)
    obtain f rest where p: "wt_next bs = Some (f, rest)" using Some by (cases p) auto
    then have "f \<noteq> [] \<and> length f \<le> 16777216"
      by (auto simp: wt_next_def Let_def MAX_FRAME_def word_less_nat_alt unat_eq_0 split: if_splits)
    with 1 [OF p refl] show ?thesis by (simp add: wt.frames_Some [OF p])
  qed
qed

text \<open>C28. The client's frames arrive whole and in order: from the concatenation of any frames the client sends, each
  non-empty and at most 16 MiB, the server's read loop takes exactly these frames. After the first frame whose
  length prefix is zero or too large nothing more is read; and whatever bytes arrive, every frame handed to the
  decoder is between one byte and 16 MiB long.\<close>

theorem server_reads_client_frames:
  assumes "list_all (\<lambda>f. f \<noteq> [] \<and> length f \<le> unat MAX_FRAME) fs"
    and "length bad = 0 \<or> unat MAX_FRAME < length bad" and "length bad < 2 ^ 32"
  shows "wt_frames (concat (map sendBinaryFrame fs)) = (fs, []) \<and>
    fst (wt_frames (concat (map sendBinaryFrame fs) @ sendBinaryFrame bad @ rest)) = fs \<and>
    list_all (\<lambda>f. f \<noteq> [] \<and> length f \<le> 16777216) (fst (wt_frames bytes))"
proof -
  define w where "w = (of_nat (length bad) :: u32)"
  have "unat w = length bad" using assms(3) by (simp add: w_def unat_of_nat)
  with assms(2) have "w = 0 \<or> MAX_FRAME < w" by (auto simp: word_less_nat_alt unat_eq_0)
  then have "wt_next (wt_write bad @ rest) = None"
    by (auto simp: wt_next_def wt_write_def from_be_take4 codec_simps Let_def simp flip: w_def)
  moreover have "wt_next [] = None" by (simp add: wt_next_def)
  ultimately show ?thesis
    using wt.frames_put [OF assms(1), of "[]"] wt.frames_put [OF assms(1), of "wt_write bad @ rest"]
      frames_are_bounded [of bytes]
    by (simp add: sendBinaryFrame_wt_write wt.frames_None)
qed

theorem server_reads_client_frames_witness:
  "fst (wt_frames (sendBinaryFrame [1, 2] @ sendBinaryFrame [3] @ sendBinaryFrame [] @ sendBinaryFrame [4])) = [[1, 2], [3]]"
  using server_reads_client_frames [of "[[1, 2], [3]]" "[]" "sendBinaryFrame [4]"] by (simp add: MAX_FRAME_def)

lemma readLoop_concat: "readLoop chunks buf = js_frames (buf @ concat chunks)" if "js_frames buf = ([], buf)"
  using that
proof (induction chunks arbitrary: buf)
  case (Cons chunk chunks)
  define out where "out = js_frames (buf @ chunk)"
  have "js_frames (snd out) = ([], snd out)"
    using js.frames_more [of "buf @ chunk" "[]"] by (simp add: out_def prod_eq_iff)
  from Cons.IH [OF this] js.frames_more [of "buf @ chunk" "concat chunks"] show ?case
    by (simp add: out_def [symmetric] case_prod_beta')
qed simp

text \<open>The stream of a list of events, and what the client's loop makes of the beginning of it.\<close>

definition event_stream :: "codec_lib \<Rightarrow> event list \<Rightarrow> u8 list" where
  "event_stream lib evs = concat (map (\<lambda>ev. wt_write (encode_event lib ev)) evs)"

definition events_fit :: "codec_lib \<Rightarrow> event list \<Rightarrow> bool" where
  "events_fit lib evs \<longleftrightarrow> list_all (\<lambda>ev. length (encode_event lib ev) < 2 ^ 32) evs"

lemma js_frames_nil: "js_frames [] = ([], [])"
  by (rule js.frames_None) (simp add: js_next_def WT_LENGTH_PREFIX_def)

lemma js_frames_stream:
  assumes "events_fit lib evs"
  shows "js_frames (event_stream lib evs) = (map (encode_event lib) evs, [])"
proof -
  have "list_all (\<lambda>f. length f < 2 ^ 32) (map (encode_event lib) evs)"
    using assms by (simp add: events_fit_def list.pred_map comp_def)
  from js.frames_put [OF this, of "[]"] js_frames_nil show ?thesis
    by (simp add: event_stream_def sendBinaryFrame_wt_write comp_def)
qed

lemma readLoop_stream: "readLoop chunks [] = js_frames (concat chunks)"
  using readLoop_concat [OF js_frames_nil, of chunks] by simp

definition wt_wire :: "'net env \<Rightarrow> 'net wt_session \<Rightarrow> bool" where
  "wt_wire env w \<longleftrightarrow>
     wt_sent w \<le> length (tx (wt_ctx w)) \<and> prefix (outbox w) (event_stream (codec env) (tx (wt_ctx w))) \<and>
     (wt_open w \<longrightarrow> outbox w = event_stream (codec env) (take (wt_sent w) (tx (wt_ctx w))))"

lemma event_stream_append [simp]: "event_stream lib (xs @ ys) = event_stream lib xs @ event_stream lib ys"
  by (simp add: event_stream_def)

lemma wt_wire_extend:
  assumes "wt_wire env w" and "prefix (tx (wt_ctx w)) (tx (wt_ctx w'))"
    and "wt_sent w' = wt_sent w" and "outbox w' = outbox w" and "wt_open w' = wt_open w"
  shows "wt_wire env w'"
  using assms by (auto simp: wt_wire_def prefix_def)

lemma wt_wire_send:
  assumes "wt_wire env w"
  shows "wt_wire env (wt_send env failed w)"
proof (cases "wt_sent w < length (tx (wt_ctx w)) \<and> wt_open w")
  case True
  let ?evs = "tx (wt_ctx w)" and ?n = "wt_sent w"
  have out: "outbox w = event_stream (codec env) (take ?n ?evs)" using assms True by (simp add: wt_wire_def)
  have next_event: "event_stream (codec env) (take (Suc ?n) ?evs) =
      event_stream (codec env) (take ?n ?evs) @ wt_write (encode_event (codec env) (?evs ! ?n))"
    using True by (simp add: take_Suc_conv_app_nth) (simp add: event_stream_def)
  have whole: "prefix (event_stream (codec env) (take (Suc ?n) ?evs)) (event_stream (codec env) ?evs)"
    by (metis append_take_drop_id event_stream_append prefixI)
  show ?thesis
  proof (cases failed)
    case None
    with True out next_event whole show ?thesis by (simp add: wt_wire_def wt_send_def Let_def)
  next
    case (Some k)
    have "prefix (outbox w @ take k (wt_write (encode_event (codec env) (?evs ! ?n)))) (event_stream (codec env) (take (Suc ?n) ?evs))"
      unfolding out next_event by (simp add: take_is_prefix)
    with True Some whole show ?thesis by (auto simp: wt_wire_def wt_send_def Let_def dest: prefix_order.trans)
  qed
next
  case False
  then have "wt_send env failed w = w" unfolding wt_send_def by (simp only: if_False)
  with assms show ?thesis by simp
qed

lemma wt_turn_tx:
  "prefix (tx (wt_ctx w)) (tx (wt_ctx (wt_turn env w))) \<and> wt_sent (wt_turn env w) = wt_sent w \<and>
    outbox (wt_turn env w) = outbox w \<and> wt_open (wt_turn env w) = wt_open w"
  using dispatch_tx [of env _ "wt_ctx w"]
  by (auto simp: wt_turn_def Let_def split: option.splits sum.splits prod.splits)

interpretation wt_wire_inv: inductive_invariant "wt_started config" "wt_step env" "wt_wire env"
  for env :: "'net env" and config
proof
  fix w w'
  show "wt_started config w \<Longrightarrow> wt_wire env w"
    by (auto simp: wt_started_def wt_new_def wt_wire_def event_stream_def Ctx_new_def)
  assume ok: "wt_wire env w" and "wt_step env w w'"
  from this(2) show "wt_wire env w'"
  proof cases
    case turn
    with wt_turn_tx [of w env] wt_wire_extend [OF ok] show ?thesis by simp
  next
    case (handler c' m' ts)
    with handler_step_tx [OF handler(2)] show ?thesis by (auto intro: wt_wire_extend [OF ok])
  next
    case (task xs t ys c' ts)
    with task_step_tx [OF task(3)] show ?thesis by (auto intro: wt_wire_extend [OF ok])
  next
    case (send failed)
    then show ?thesis using wt_wire_send [OF ok] by simp
  next
    case (shared c')
    with shared_step_tx [OF shared(2)] show ?thesis by (auto intro: wt_wire_extend [OF ok])
  qed
qed

text \<open>C27. Over WebTransport the events of a session reach the browser in order: however the network cuts the server's stream
  into chunks, the frames the client hands to \<^verbatim>\<open>_handleBinaryEvent\<close> are the encodings of the first events raised, in
  order. As long as no write has failed they are those of exactly the events taken by the send task, with nothing
  left over; after a write that broke off in the middle of a frame, none of that frame is handed over.\<close>

theorem webtransport_events_reach_the_client:
  assumes "reachable (wt_started config) (wt_step env) w" and "concat chunks = outbox w"
    and "events_fit (codec env) (tx (wt_ctx w))"
  shows "prefix (fst (readLoop chunks [])) (map (encode_event (codec env)) (tx (wt_ctx w))) \<and>
    (wt_open w \<longrightarrow> readLoop chunks [] = (map (encode_event (codec env)) (take (wt_sent w) (tx (wt_ctx w))), []))"
proof -
  let ?evs = "tx (wt_ctx w)"
  from wt_wire_inv.inv_reachable [OF assms(1)] obtain rest where
    whole: "event_stream (codec env) ?evs = outbox w @ rest" and
    sent: "wt_open w \<Longrightarrow> outbox w = event_stream (codec env) (take (wt_sent w) ?evs)"
    by (auto simp: wt_wire_def prefix_def)
  have "prefix (fst (js_frames (outbox w))) (fst (js_frames (outbox w @ rest)))"
    using js.frames_more [of "outbox w" rest] by (simp add: prod_eq_iff)
  then have "prefix (fst (readLoop chunks [])) (map (encode_event (codec env)) ?evs)"
    using js_frames_stream [OF assms(3)] whole assms(2) by (simp add: readLoop_stream)
  moreover have "events_fit (codec env) (take (wt_sent w) ?evs)"
    using assms(3) by (auto simp: events_fit_def list_all_iff dest: in_set_takeD)
  ultimately show ?thesis using sent js_frames_stream [of "codec env"] assms(2) by (simp add: readLoop_stream)
qed

theorem webtransport_events_reach_the_client_witness:
  "\<exists>w. reachable (wt_started demo_config) (wt_step demo_env) w \<and> length (outbox w) = 57 \<and>
    readLoop [take 3 (outbox w), drop 3 (outbox w)] [] =
      ([encode_event (codec demo_env) (event_error 0 ''invalid binary frame: binary frame too short'')], [])"
proof -
  define w where "w = wt_send demo_env None (wt_turn demo_env (wt_new demo_config (sendBinaryFrame [255])))"
  have r: "reachable (wt_started demo_config) (wt_step demo_env) w"
    unfolding w_def
    by (intro reachable.move [where step = "wt_step demo_env", OF _ wt_step.send]
        reachable.move [where step = "wt_step demo_env", OF _ wt_step.turn] reachable.start)
      (auto simp: wt_started_def wt_new_def)
  let ?ev = "event_error 0 ''invalid binary frame: binary frame too short''"
  have "wt_next (sendBinaryFrame [255]) = Some ([255], [])"
    using wt.get_put [of "[255]" "[]"] by (simp add: sendBinaryFrame_wt_write MAX_FRAME_def)
  moreover have "decode_request (codec demo_env) [255] = Some (Inl ''binary frame too short'')"
    "length (wt_write (encode_event (codec demo_env) ?ev)) = 57" by code_simp+
  ultimately have w: "tx (wt_ctx w) = [?ev]" "wt_open w" "wt_sent w = 1" "length (outbox w) = 57"
    unfolding w_def by (simp_all add: wt_turn_def wt_new_def wt_send_def Ctx_new_def notify_def Let_def)
  moreover have "events_fit (codec demo_env) [?ev]" by code_simp
  ultimately show ?thesis
    using webtransport_events_reach_the_client [OF r, of "[take 3 (outbox w), drop 3 (outbox w)]"] r
    by (intro exI [of _ w]) simp
qed

section \<open>Identity\<close>

text \<open>\<^verbatim>\<open>build_identity\<close>: a key pair is loaded, or a certificate generated, or the combination refused. Loading and generating
  are the crate's.\<close>

definition build_identity :: "(str \<Rightarrow> str \<Rightarrow> 'i rresult) \<Rightarrow> (str list \<Rightarrow> 'i rresult) \<Rightarrow> str option \<Rightarrow> str option \<Rightarrow> 'i rresult" where
  "build_identity load_pemfiles self_signed cert key =
     (case (cert, key) of
        (Some cert, Some key) \<Rightarrow> load_pemfiles cert key
      | (None, None) \<Rightarrow> self_signed [''localhost'', ''127.0.0.1'', ''::1'']
      | _ \<Rightarrow> Inl ''WebTransport needs both a cert and key, or neither'')"

end
