(* ===== verification/Server.thy ===== *)
theory Server
  imports Webtransport
begin

text \<open>
  \<^verbatim>\<open>src/lib.rs\<close> and \<^verbatim>\<open>src/main.rs\<close>: how a server is put together from its options. Reading a file and parsing TOML
  are the fields of the record argument \<open>file_lib\<close>; an instant is an argument where the code reads the clock.
\<close>

section \<open>Building a server\<close>

record 'net server =
  srv_policy :: "'net policy"
  srv_rate_limiter :: rate_limiter
  srv_pool :: "conn connection_pool option"
  srv_addr :: socket_addr

record server_builder =
  b_policy :: "network_policy option"
  b_policy_config :: "policy_config option"
  b_no_policy :: bool
  b_host :: str
  b_port :: u16
  b_max_bandwidth_mbps :: "u32 option"
  b_pool_idle_secs :: "u64 option"
  b_pool_per_key :: "usize option"

record file_lib =
  read_to_string :: "str \<Rightarrow> str rresult"
  toml_from_str :: "str \<Rightarrow> policy_config rresult"

definition ServerBuilder_new :: server_builder where
  "ServerBuilder_new =
     \<lparr>b_policy = None, b_policy_config = None, b_no_policy = False, b_host = ''0.0.0.0'', b_port = 9000,
      b_max_bandwidth_mbps = None, b_pool_idle_secs = None, b_pool_per_key = None\<rparr>"

definition builder_host :: "str \<Rightarrow> server_builder \<Rightarrow> server_builder" where
  "builder_host host b = b\<lparr>b_host := host\<rparr>"

definition builder_port :: "u16 \<Rightarrow> server_builder \<Rightarrow> server_builder" where
  "builder_port port b = b\<lparr>b_port := port\<rparr>"

definition builder_addr :: "str \<Rightarrow> u16 \<Rightarrow> server_builder \<Rightarrow> server_builder" where
  "builder_addr host port b = b\<lparr>b_host := host, b_port := port\<rparr>"

definition builder_policy :: "network_policy \<Rightarrow> server_builder \<Rightarrow> server_builder" where
  "builder_policy p b = b\<lparr>b_policy := Some p\<rparr>"

definition builder_policy_config :: "policy_config \<Rightarrow> server_builder \<Rightarrow> server_builder" where
  "builder_policy_config c b = b\<lparr>b_policy_config := Some c\<rparr>"

definition load_policy_file :: "file_lib \<Rightarrow> str \<Rightarrow> policy_config rresult" where
  "load_policy_file fs path =
     (case read_to_string fs path of
        Inl e \<Rightarrow> Inl e
      | Inr content \<Rightarrow> (case toml_from_str fs content of Inl e \<Rightarrow> Inl e | Inr config \<Rightarrow> Inr config))"

definition builder_policy_file :: "file_lib \<Rightarrow> str \<Rightarrow> server_builder \<Rightarrow> server_builder rresult" where
  "builder_policy_file fs path b =
     (case read_to_string fs path of
        Inl e \<Rightarrow> Inl e
      | Inr content \<Rightarrow>
          (case toml_from_str fs content of
             Inl e \<Rightarrow> Inl e
           | Inr config \<Rightarrow> Inr (builder_policy_config config b)))"

definition builder_no_policy :: "server_builder \<Rightarrow> server_builder" where
  "builder_no_policy b = b\<lparr>b_no_policy := True\<rparr>"

definition builder_max_bandwidth_mbps :: "u32 \<Rightarrow> server_builder \<Rightarrow> server_builder" where
  "builder_max_bandwidth_mbps mbps b = b\<lparr>b_max_bandwidth_mbps := Some mbps\<rparr>"

definition builder_pool :: "u64 \<Rightarrow> usize \<Rightarrow> server_builder \<Rightarrow> server_builder" where
  "builder_pool idle_secs per_key b = b\<lparr>b_pool_idle_secs := Some idle_secs, b_pool_per_key := Some per_key\<rparr>"

definition net_policy :: "server_builder \<Rightarrow> network_policy option" where
  "net_policy b =
     (if b_no_policy b then None
      else case b_policy b of
        Some p \<Rightarrow> Some p
      | None \<Rightarrow>
          (case b_policy_config b of
             Some c \<Rightarrow> Some (network c)
           | None \<Rightarrow> Some network_policy_default))"

definition bandwidth :: "server_builder \<Rightarrow> u32" where
  "bandwidth b =
     (case b_max_bandwidth_mbps b of
        Some mbps \<Rightarrow> mbps
      | None \<Rightarrow> (case net_policy b of Some p \<Rightarrow> np_max_bandwidth_mbps p | None \<Rightarrow> 0))"

definition build :: "'net net_lib \<Rightarrow> nanos \<Rightarrow> server_builder \<Rightarrow> 'net server rresult" where
  "build lib now b =
     (case parse_sa (b_host b @ '':'' @ print_u16 (b_port b)) of
        None \<Rightarrow> Inl ''invalid socket address syntax''
      | Some addr \<Rightarrow>
          Inr \<lparr>srv_policy = (case net_policy b of Some np \<Rightarrow> Policy_new lib np | None \<Rightarrow> Policy_allow_all),
            srv_rate_limiter = (if 0 < bandwidth b then RateLimiter_new (bandwidth b) now else unlimited),
            srv_pool = (case (b_pool_idle_secs b, b_pool_per_key b) of
                (Some secs, Some per_key) \<Rightarrow> Some (ConnectionPool_new secs per_key)
              | _ \<Rightarrow> None),
            srv_addr = addr\<rparr>)"

definition Server_new :: "'net net_lib \<Rightarrow> nanos \<Rightarrow> network_policy \<Rightarrow> socket_addr \<Rightarrow> 'net server" where
  "Server_new lib now np addr =
     (let bw = np_max_bandwidth_mbps np in
      \<lparr>srv_policy = Policy_new lib np, srv_rate_limiter = (if 0 < bw then RateLimiter_new bw now else unlimited),
       srv_pool = None, srv_addr = addr\<rparr>)"

definition Server_from_config :: "'net net_lib \<Rightarrow> nanos \<Rightarrow> policy_config \<Rightarrow> socket_addr \<Rightarrow> 'net server" where
  "Server_from_config lib now config addr = Server_new lib now (network config) addr"

definition Server_allow_all :: "socket_addr \<Rightarrow> 'net server" where
  "Server_allow_all addr =
     \<lparr>srv_policy = Policy_allow_all, srv_rate_limiter = unlimited, srv_pool = None, srv_addr = addr\<rparr>"

definition server_session_config :: "'net server \<Rightarrow> 'net session_config" where
  "server_session_config srv =
     \<lparr>cfg_policy = srv_policy srv, cfg_rate_limiter = srv_rate_limiter srv, cfg_pool = srv_pool srv\<rparr>"

definition ws_upgrade_config :: "'net policy \<Rightarrow> 'net session_config" where
  "ws_upgrade_config pol = \<lparr>cfg_policy = pol, cfg_rate_limiter = unlimited, cfg_pool = None\<rparr>"

section \<open>The command line\<close>

record args =
  a_host :: str
  a_port :: u16
  a_policy :: "str option"
  a_no_policy :: bool
  a_max_bandwidth_mbps :: "u32 option"
  a_pool_idle_secs :: "u64 option"
  a_pool_per_key :: usize
  a_webtransport_port :: "u16 option"
  a_cert :: "str option"
  a_key :: "str option"

definition args_default :: args where
  "args_default =
     \<lparr>a_host = ''0.0.0.0'', a_port = 9000, a_policy = None, a_no_policy = False, a_max_bandwidth_mbps = None,
      a_pool_idle_secs = None, a_pool_per_key = 8, a_webtransport_port = None, a_cert = None, a_key = None\<rparr>"

definition main_builder :: "file_lib \<Rightarrow> args \<Rightarrow> server_builder rresult" where
  "main_builder fs args =
     (let b = builder_port (a_port args) (builder_host (a_host args) ServerBuilder_new) in
      case (if a_no_policy args then Inr (builder_no_policy b)
            else case a_policy args of
              Some path \<Rightarrow> builder_policy_file fs path b
            | None \<Rightarrow> Inr b) of
        Inl e \<Rightarrow> Inl e
      | Inr b \<Rightarrow>
          (let b = (case a_max_bandwidth_mbps args of
                Some mbps \<Rightarrow> builder_max_bandwidth_mbps mbps b | None \<Rightarrow> b) in
           Inr (case a_pool_idle_secs args of
                Some secs \<Rightarrow> builder_pool secs (a_pool_per_key args) b | None \<Rightarrow> b)))"

text \<open>\<^verbatim>\<open>main\<close> up to the point where it serves: the server, and the WebTransport endpoint if one was asked for.\<close>

definition main_setup ::
  "'net net_lib \<Rightarrow> file_lib \<Rightarrow> nanos \<Rightarrow> args \<Rightarrow> ('net server \<times> (socket_addr \<times> str option \<times> str option) option) rresult" where
  "main_setup lib fs now args =
     (case main_builder fs args of
        Inl e \<Rightarrow> Inl e
      | Inr b \<Rightarrow>
          (case build lib now b of
             Inl e \<Rightarrow> Inl e
           | Inr srv \<Rightarrow>
               (case a_webtransport_port args of
                  None \<Rightarrow> Inr (srv, None)
                | Some wt_port \<Rightarrow>
                    (case parse_sa (a_host args @ '':'' @ print_u16 wt_port) of
                       None \<Rightarrow> Inl ''invalid socket address syntax''
                     | Some wt_addr \<Rightarrow> Inr (srv, Some (wt_addr, a_cert args, a_key args))))))"

section \<open>From the options to the server\<close>

lemma print_v6_start: "\<exists>c s. print_v6 a = c # s \<and> c \<noteq> CHR ''[''"
proof -
  have "read_ipv6_addr [] = None" by code_simp
  moreover have "read_ipv6_addr (CHR ''['' # s) = None" for s
  proof -
    have "read_ipv4_addr (CHR ''['' # s) = None" by (simp add: read_ipv4_dotless dotless_def)
    moreover have "read_group (CHR ''['' # s) = None" by (simp add: read_number_def)
    ultimately have "read_groups (Suc n) True (CHR ''['' # s) = ([], False, CHR ''['' # s)" for n
      by (simp add: read_separator_def)
    from this [of 7] show ?thesis by (simp add: read_ipv6_addr_def read_char_def)
  qed
  moreover have "parse_ip (print_v6 a) = Some (V6 a)" using ip_text.parse_print [of "V6 a"] by simp
  then have "read_ipv6_addr (print_v6 a) \<noteq> None"
    by (auto simp: parse_ip_def parse_with_def read_ip_addr_def split: option.splits list.splits prod.splits)
  ultimately show ?thesis by (cases "print_v6 a") auto
qed

lemma parse_sa_unbracketed: "parse_sa (print_v6 a @ '':'' @ print_u16 p) = None"
proof -
  obtain c s where "print_v6 a = c # s" "c \<noteq> CHR ''[''" using print_v6_start by blast
  then have "read_socket_addr_v6 (print_v6 a @ '':'' @ print_u16 p) = None"
    by (simp add: read_socket_addr_v6_def read_char_def)
  moreover have "read_socket_addr_v4 (print_v6 a @ '':'' @ print_u16 p) = None"
    by (simp add: read_socket_addr_v4_def read_ipv4_dotless dotless_print_v6)
  ultimately show ?thesis by (simp add: parse_sa_def parse_with_def read_socket_addr_def)
qed

text \<open>The address a server listens on: an IPv4 host as it is printed, and an IPv6 host in brackets, give exactly that
  address and port; an IPv6 host without brackets is refused, for every address and port.\<close>

lemma build_address:
  "(\<exists>srv. build lib now (builder_addr (print_ip (V4 a)) port b) = Inr srv \<and> srv_addr srv = SockV4 a port) \<and>
   (\<exists>srv. build lib now (builder_addr (''['' @ print_ip (V6 c) @ '']'') port b) = Inr srv \<and> srv_addr srv = SockV6 c port 0) \<and>
   is_err (build lib now (builder_addr (print_ip (V6 c)) port b))"
  using sa_text.parse_print [of "SockV4 a port"] sa_text.parse_print [of "SockV6 c port 0"] parse_sa_unbracketed [of c port]
  by (simp add: build_def builder_addr_def)

lemma limiter_ok_unlimited: "limiter_ok 0 unlimited"
  by (simp add: limiter_ok_def unlimited_def)

lemma build_parts:
  "build lib now b = Inr srv \<Longrightarrow>
    srv_policy srv = (case net_policy b of Some np \<Rightarrow> Policy_new lib np | None \<Rightarrow> Policy_allow_all) \<and>
    limiter_ok (bandwidth b) (srv_rate_limiter srv)"
  by (auto simp: build_def limiter_ok_new limiter_ok_unlimited word_gt_0 split: option.splits)

text \<open>The policy a command line selects, when its file loads.\<close>

definition cli_policy :: "file_lib \<Rightarrow> args \<Rightarrow> network_policy option" where
  "cli_policy fs args =
     (if a_no_policy args then None
      else case a_policy args of
        None \<Rightarrow> Some network_policy_default
      | Some path \<Rightarrow> (case load_policy_file fs path of Inr config \<Rightarrow> Some (network config) | Inl _ \<Rightarrow> None))"

lemma main_builder_parts:
  assumes "main_builder fs args = Inr b"
  shows "net_policy b = cli_policy fs args \<and>
    b_max_bandwidth_mbps b = a_max_bandwidth_mbps args"
proof -
  have "builder_policy_file fs path c =
      (case load_policy_file fs path of Inl e \<Rightarrow> Inl e | Inr config \<Rightarrow> Inr (builder_policy_config config c))" for path c
    by (simp add: builder_policy_file_def load_policy_file_def split: sum.splits)
  with assms show ?thesis
    by (auto simp: main_builder_def cli_policy_def net_policy_def builder_port_def builder_host_def ServerBuilder_new_def
        builder_no_policy_def builder_policy_config_def builder_max_bandwidth_mbps_def builder_pool_def Let_def
        split: if_splits option.splits sum.splits)
qed

text \<open>C37. What the command line decides. With \<^verbatim>\<open>--no-policy\<close> everything is allowed and no policy file is consulted; otherwise
  the policy is that of the file, or the built-in default when none is named, and a file that cannot be read or
  parsed stops the program. The limiter holds \<^verbatim>\<open>--max-bandwidth-mbps\<close> if given (zero meaning no limit), else the
  policy's figure, and no limit without a policy.\<close>

theorem command_line_decides:
  assumes "main_setup lib fs now args = Inr (srv, wt)"
  shows "srv_policy srv = (case cli_policy fs args of Some np \<Rightarrow> Policy_new lib np | None \<Rightarrow> Policy_allow_all) \<and>
    (cli_policy fs args = None \<longleftrightarrow> a_no_policy args) \<and>
    limiter_ok (case a_max_bandwidth_mbps args of
        Some mbps \<Rightarrow> mbps
      | None \<Rightarrow> (case cli_policy fs args of Some np \<Rightarrow> np_max_bandwidth_mbps np | None \<Rightarrow> 0)) (srv_rate_limiter srv)"
proof -
  from assms obtain b where b: "main_builder fs args = Inr b" "build lib now b = Inr srv"
    by (auto simp: main_setup_def split: sum.splits option.splits)
  have "cli_policy fs args = None \<longleftrightarrow> a_no_policy args"
    using b(1) by (auto simp: cli_policy_def main_builder_def builder_policy_file_def load_policy_file_def Let_def
        split: if_splits option.splits sum.splits)
  moreover have "bandwidth b = (case a_max_bandwidth_mbps args of
        Some mbps \<Rightarrow> mbps
      | None \<Rightarrow> (case cli_policy fs args of Some np \<Rightarrow> np_max_bandwidth_mbps np | None \<Rightarrow> 0))"
    using main_builder_parts [OF b(1)] unfolding bandwidth_def by (elim conjE) (simp only:)
  ultimately show ?thesis using build_parts [OF b(2)] main_builder_parts [OF b(1)] by simp
qed

theorem command_line_decides_witness:
  "\<exists>srv. main_setup demo_net \<lparr>read_to_string = (\<lambda>_. Inl ''missing''), toml_from_str = (\<lambda>_. Inl ''bad'')\<rparr> 0
      (args_default\<lparr>a_no_policy := True, a_policy := Some ''p.toml'', a_max_bandwidth_mbps := Some 5\<rparr>) = Inr (srv, None) \<and>
    srv_policy srv = Policy_allow_all \<and> limiter_ok 5 (srv_rate_limiter srv)"
  (is "\<exists>srv. main_setup _ ?fs _ ?args = _ \<and> _")
proof -
  have "is_ok (main_setup demo_net ?fs 0 ?args)" "a_webtransport_port ?args = None" by code_simp+
  then obtain srv where srv: "main_setup demo_net ?fs 0 ?args = Inr (srv, None)"
    by (auto simp: is_ok_iff main_setup_def split: sum.splits option.splits)
  from command_line_decides [OF srv] srv show ?thesis by (intro exI [of _ srv]) (simp add: cli_policy_def)
qed

text \<open>A server without a policy admits every target, as spelled and as resolved; it may bind every port but port zero,
  the one that asks the system for any free port.\<close>

lemma no_policy_admits_everything:
  "check_connect lib Policy_allow_all addr port = Inr () \<and> check_resolved lib Policy_allow_all ip port = Inr () \<and>
   (is_ok (check_bind Policy_allow_all port) \<longleftrightarrow> port \<noteq> 0)"
proof -
  have "(1 \<le> port \<and> port \<le> (65535 :: u16)) \<longleftrightarrow> port \<noteq> 0"
  proof -
    have "port \<le> (65535 :: u16)" using unat_lt_2p [of port] by (simp add: word_le_nat_alt)
    moreover have "1 \<le> port \<longleftrightarrow> port \<noteq> 0" by (simp add: word_le_nat_alt Suc_le_eq unat_gt_0)
    ultimately show ?thesis by simp
  qed
  then show ?thesis
    by (auto simp: check_connect_def check_ip_def check_domain_def check_resolved_def check_bind_def Policy_allow_all_def
        split: option.splits)
qed

end
