(* ===== verification/Serving.thy ===== *)
theory Serving
  imports Server
begin

text \<open>
  \<^verbatim>\<open>Server::listen\<close>, \<^verbatim>\<open>listen_with_shutdown\<close> and \<^verbatim>\<open>listen_webtransport\<close> of \<^verbatim>\<open>src/lib.rs\<close>, the accept loop of
  \<^verbatim>\<open>src/webtransport.rs\<close> and the end of \<^verbatim>\<open>main\<close>: the running server, as sessions of both transports that
  share one rate limiter and one connection pool. Binding a socket, accepting a connection and the handshakes are
  calls outside the repository; their outcomes are arguments of the steps.
\<close>

section \<open>The listeners\<close>

text \<open>A call of a \<^verbatim>\<open>listen\<close> method is in its loop, or it has returned. A connection that was accepted is counted until its
  handshake is over: \<open>handshakes\<close> of WebSocket connections, \<open>incoming\<close> of WebTransport sessions.\<close>

type_synonym identity = nat

datatype listener = Listening | Returned "unit rresult"

record 'net serving =
  shared_rl :: rate_limiter
  shared_pool :: "conn connection_pool option"
  ws_listener :: "listener option"
  handshakes :: nat
  sessions :: "'net session list"
  wt_listener :: "listener option"
  incoming :: nat
  wt_sessions :: "'net wt_session list"

definition serving_new :: "'net session_config \<Rightarrow> 'net serving" where
  "serving_new config =
     \<lparr>shared_rl = cfg_rate_limiter config, shared_pool = cfg_pool config,
      ws_listener = None, handshakes = 0, sessions = [], wt_listener = None, incoming = 0, wt_sessions = []\<rparr>"

definition serving_started :: "'net session_config \<Rightarrow> 'net serving \<Rightarrow> bool" where
  "serving_started config v \<longleftrightarrow> v = serving_new config"

fun bound :: "unit rresult \<Rightarrow> listener" where
  "bound (Inr _) = Listening"
| "bound (Inl e) = Returned (Inl e)"

text \<open>\<^verbatim>\<open>listen\<close>: the socket is bound; then connections are accepted, each handed to a task of its own, until \<^verbatim>\<open>accept\<close>
  fails. The task makes the handshake and, if it succeeds, runs a session.\<close>

definition listen :: "unit rresult \<Rightarrow> 'net serving \<Rightarrow> 'net serving" where
  "listen outcome v = v\<lparr>ws_listener := Some (bound outcome)\<rparr>"

definition listen_turn :: "unit rresult \<Rightarrow> 'net serving \<Rightarrow> 'net serving" where
  "listen_turn accepted v =
     (case accepted of
        Inr _ \<Rightarrow> v\<lparr>handshakes := Suc (handshakes v)\<rparr>
      | Inl e \<Rightarrow> v\<lparr>ws_listener := Some (Returned (Inl e))\<rparr>)"

definition ws_handshake :: "'net session_config \<Rightarrow> unit rresult \<Rightarrow> 'net serving \<Rightarrow> 'net serving" where
  "ws_handshake config accepted v =
     (let v = v\<lparr>handshakes := handshakes v - 1\<rparr> in
      case accepted of
        Inr _ \<Rightarrow> v\<lparr>sessions := sessions v @ [session_new config]\<rparr>
      | Inl e \<Rightarrow> v)"

text \<open>\<^verbatim>\<open>listen_with_shutdown\<close>: the signal, or the drop of its sender, ends the loop and nothing else.\<close>

definition listen_shutdown :: "'net serving \<Rightarrow> 'net serving" where
  "listen_shutdown v = v\<lparr>ws_listener := Some (Returned (Inr ()))\<rparr>"

text \<open>\<^verbatim>\<open>listen_webtransport\<close>: the identity, the endpoint (\<^verbatim>\<open>serve\<close>), its loop, and \<^verbatim>\<open>accept_session\<close>.\<close>

definition serve :: "(socket_addr \<Rightarrow> identity \<Rightarrow> unit rresult) \<Rightarrow> socket_addr \<Rightarrow> identity \<Rightarrow> 'net serving \<Rightarrow> 'net serving" where
  "serve endpoint addr ident v = v\<lparr>wt_listener := Some (bound (endpoint addr ident))\<rparr>"

record wt_lib =
  load_pemfiles :: "str \<Rightarrow> str \<Rightarrow> identity rresult"
  self_signed :: "str list \<Rightarrow> identity rresult"
  endpoint :: "socket_addr \<Rightarrow> identity \<Rightarrow> unit rresult"

definition listen_webtransport :: "wt_lib \<Rightarrow> socket_addr \<Rightarrow> str option \<Rightarrow> str option \<Rightarrow> 'net serving \<Rightarrow> 'net serving" where
  "listen_webtransport lib addr cert key v =
     (case build_identity (load_pemfiles lib) (self_signed lib) cert key of
        Inl e \<Rightarrow> v\<lparr>wt_listener := Some (Returned (Inl e))\<rparr>
      | Inr ident \<Rightarrow> serve (endpoint lib) addr ident v)"

definition serve_turn :: "'net serving \<Rightarrow> 'net serving" where
  "serve_turn v = v\<lparr>incoming := Suc (incoming v)\<rparr>"

definition accept_session ::
  "'net session_config \<Rightarrow> unit rresult \<Rightarrow> unit rresult \<Rightarrow> u8 list rresult \<Rightarrow> 'net serving \<Rightarrow> 'net serving" where
  "accept_session config request connection bi v =
     (let v = v\<lparr>incoming := incoming v - 1\<rparr> in
      case request of
        Inl e \<Rightarrow> v
      | Inr _ \<Rightarrow>
          (case connection of
             Inl e \<Rightarrow> v
           | Inr _ \<Rightarrow>
               (case bi of
                  Inl e \<Rightarrow> v
                | Inr bytes \<Rightarrow> v\<lparr>wt_sessions := wt_sessions v @ [wt_new config bytes]\<rparr>)))"

text \<open>\<^verbatim>\<open>handle_ws_upgrade\<close>: one session on a stream of the application, with its policy and nothing shared.\<close>

definition handle_ws_upgrade :: "'net policy \<Rightarrow> unit rresult \<Rightarrow> 'net session option" where
  "handle_ws_upgrade pol accepted =
     (case accepted of
        Inr _ \<Rightarrow> Some (session_new (ws_upgrade_config pol))
      | Inl e \<Rightarrow> None)"

section \<open>The running server\<close>

text \<open>A step of a session works on the current contents of the shared parts.\<close>

definition share :: "rate_limiter \<Rightarrow> conn connection_pool option \<Rightarrow> 'net ctx \<Rightarrow> 'net ctx" where
  "share l p c = c\<lparr>rl := l, pool := p\<rparr>"

definition with_shared :: "rate_limiter \<Rightarrow> conn connection_pool option \<Rightarrow> 'net session \<Rightarrow> 'net session" where
  "with_shared l p s = s\<lparr>ctx := share l p (ctx s)\<rparr>"

definition wt_with_shared :: "rate_limiter \<Rightarrow> conn connection_pool option \<Rightarrow> 'net wt_session \<Rightarrow> 'net wt_session" where
  "wt_with_shared l p w = w\<lparr>wt_ctx := share l p (wt_ctx w)\<rparr>"

text \<open>The spawned tasks: the handshakes, the sessions of both kinds and the cleanup task of the pool.\<close>

inductive work_step :: "'net env \<Rightarrow> 'net session_config \<Rightarrow> 'net serving \<Rightarrow> 'net serving \<Rightarrow> bool" for env config where
  handshake: "0 < handshakes v \<Longrightarrow> work_step env config v (ws_handshake config accepted v)"
| run: "i < length (sessions v) \<Longrightarrow> session_step env (with_shared (shared_rl v) (shared_pool v) (sessions v ! i)) s' \<Longrightarrow>
    work_step env config v
      (v\<lparr>shared_rl := rl (ctx s'), shared_pool := pool (ctx s'), sessions := (sessions v)[i := s']\<rparr>)"
| handshake_wt: "0 < incoming v \<Longrightarrow> work_step env config v (accept_session config request connection bi v)"
| run_wt: "i < length (wt_sessions v) \<Longrightarrow>
    wt_step env (wt_with_shared (shared_rl v) (shared_pool v) (wt_sessions v ! i)) w' \<Longrightarrow>
    work_step env config v
      (v\<lparr>shared_rl := rl (wt_ctx w'), shared_pool := pool (wt_ctx w'), wt_sessions := (wt_sessions v)[i := w']\<rparr>)"
| clean: "shared_pool v = Some p \<Longrightarrow> work_step env config v (v\<lparr>shared_pool := Some (pool_cleanup clk p)\<rparr>)"

text \<open>A server as a library: the application calls the listeners, each at most once, their loops accept connections, and
  it may signal a shutdown.\<close>

inductive server_step :: "'net env \<Rightarrow> 'net session_config \<Rightarrow> 'net serving \<Rightarrow> 'net serving \<Rightarrow> bool" for env config where
  listen: "ws_listener v = None \<Longrightarrow> server_step env config v (listen outcome v)"
| accept: "ws_listener v = Some Listening \<Longrightarrow> server_step env config v (listen_turn accepted v)"
| listen_wt: "wt_listener v = None \<Longrightarrow> server_step env config v (listen_webtransport lib addr cert key v)"
| accept_wt: "wt_listener v = Some Listening \<Longrightarrow> server_step env config v (serve_turn v)"
| shutdown: "ws_listener v = Some Listening \<Longrightarrow> server_step env config v (listen_shutdown v)"
| work: "work_step env config v v' \<Longrightarrow> server_step env config v v'"

text \<open>The program: \<^verbatim>\<open>main\<close> runs the listeners its arguments ask for, in one task, and returns what the first of them returns.
  From then on neither listener runs; the spawned tasks may, until the process is gone.\<close>

definition main_returns :: "'net serving \<Rightarrow> unit rresult \<Rightarrow> bool" where
  "main_returns v r \<longleftrightarrow> ws_listener v = Some (Returned r) \<or> wt_listener v = Some (Returned r)"

fun returned :: "listener option \<Rightarrow> bool" where
  "returned (Some (Returned _)) = True"
| "returned _ = False"

inductive main_step ::
  "'net env \<Rightarrow> 'net session_config \<Rightarrow> (socket_addr \<times> str option \<times> str option) option \<Rightarrow> 'net serving \<Rightarrow> 'net serving \<Rightarrow> bool"
  for env config wt where
  listen: "\<not> returned (wt_listener v) \<Longrightarrow> ws_listener v = None \<Longrightarrow> main_step env config wt v (listen outcome v)"
| accept: "\<not> returned (wt_listener v) \<Longrightarrow> ws_listener v = Some Listening \<Longrightarrow>
    main_step env config wt v (listen_turn accepted v)"
| listen_wt: "\<not> returned (ws_listener v) \<Longrightarrow> wt_listener v = None \<Longrightarrow> wt = Some (addr, cert, key) \<Longrightarrow>
    main_step env config wt v (listen_webtransport lib addr cert key v)"
| accept_wt: "\<not> returned (ws_listener v) \<Longrightarrow> wt_listener v = Some Listening \<Longrightarrow> main_step env config wt v (serve_turn v)"
| work: "work_step env config v v' \<Longrightarrow> main_step env config wt v v'"

section \<open>Each session on its own\<close>

text \<open>What one step can do to the shared limiter and pool: nothing, one call of \<^verbatim>\<open>consume\<close>, one \<^verbatim>\<open>get\<close>, or one
  cleanup.\<close>

inductive shared_move ::
  "rate_limiter \<Rightarrow> conn connection_pool option \<Rightarrow> rate_limiter \<Rightarrow> conn connection_pool option \<Rightarrow> bool" where
  stay: "shared_move l p l p"
| consume: "consume n now l = Some (l', w) \<Longrightarrow> shared_move l p l' p"
| get: "shared_move l (Some p) l (Some (snd (pool_get t clk p)))"
| clean: "shared_move l (Some p) l (Some (pool_cleanup clk p))"

lemma meter_move: "meter limited n now c = Some c' \<Longrightarrow> shared_move (rl c) (pool c) (rl c') (pool c')"
  by (auto simp: meter_def intro: shared_move.intros split: if_splits)

lemma bridge_read_move:
  "bridge_read counted i ch r now c = Some (c', rd') \<Longrightarrow> shared_move (rl c) (pool c) (rl c') (pool c')"
  by (auto simp: bridge_read_def intro: shared_move.stay dest!: meter_move split: sum.splits if_splits)

lemma bridge_take_move:
  "bridge_take counted ch now c = Some (c', wr') \<Longrightarrow> shared_move (rl c) (pool c) (rl c') (pool c')"
proof (cases "queue_of c ch")
  case (Cons data rest)
  assume "bridge_take counted ch now c = Some (c', wr')"
  with Cons obtain d where "meter counted (length data) now c = Some d" "rl c' = rl d" "pool c' = pool d"
    by (auto simp: bridge_take_def)
  with meter_move [of counted "length data" now c d] show ?thesis by simp
qed (auto simp: bridge_take_def intro: shared_move.stay split: if_splits)

lemma udp_receive_move: "udp_receive bytes now c = Some c' \<Longrightarrow> shared_move (rl c) (pool c) (rl c') (pool c')"
  by (auto simp: udp_receive_def intro: meter_move split: if_splits)

lemma try_pool_move:
  "try_pool_or_connect t clk outcome c = (r, c') \<Longrightarrow> shared_move (rl c) (pool c) (rl c') (pool c')"
proof (cases "pool c")
  case (Some p)
  assume "try_pool_or_connect t clk outcome c = (r, c')"
  with Some have "rl c' = rl c" "pool c' = Some (snd (pool_get (print_sa t) clk p))"
    by (auto simp: try_pool_or_connect_def split: prod.splits option.splits)
  with Some show ?thesis by (simp add: shared_move.get)
qed (auto simp: try_pool_or_connect_def intro: shared_move.stay)

lemma connect_dial_move:
  "connect_dial clk outcome i t c = (c', ts) \<Longrightarrow> shared_move (rl c) (pool c) (rl c') (pool c')"
  using try_pool_move [of t clk outcome c]
  by (auto simp: connect_dial_def established_def channel_def Let_def split: prod.splits sum.splits)

lemma task_step_move:
  assumes "task_step env (c, t) (c', ts)"
  shows "shared_move (rl c) (pool c) (rl c') (pool c')"
  using assms
  by (cases rule: task_stepE)
    (auto simp: ctx_ops connect_approve_def tls_dial_def tls_handshake_def approved_target_def Let_def
      intro: shared_move.stay bridge_read_move bridge_take_move udp_receive_move connect_dial_move [OF sym]
      split: op_splits)

lemma handler_step_move:
  assumes "handler_step env (c, m) (c', m', ts)"
  shows "rl c' = rl c \<and> pool c' = pool c"
  using assms by (cases rule: handler_stepE) (auto simp: op_defs Let_def split: op_splits)

lemma dispatch_move: "dispatch env r c = (c', m', ts) \<Longrightarrow> rl c' = rl c \<and> pool c' = pool c"
  by (cases r) (auto simp: op_defs Let_def split: op_splits)

lemma on_message_move: "rl (ctx (on_message env msg s)) = rl (ctx s) \<and> pool (ctx (on_message env msg s)) = pool (ctx s)"
proof (cases "receive (codec env) msg")
  case (Request r)
  obtain c m ts where d: "dispatch env r (ctx s) = (c, m, ts)" by (cases "dispatch env r (ctx s)")
  from dispatch_move [OF d] Request d show ?thesis by (simp add: on_message_def Let_def)
qed (simp_all add: on_message_def Let_def)

lemma session_step_move:
  assumes "session_step env s s'"
  shows "shared_move (rl (ctx s)) (pool (ctx s)) (rl (ctx s')) (pool (ctx s'))"
  using assms
proof (cases rule: session_step.cases)
  case (message msg)
  then show ?thesis by (simp add: on_message_move shared_move.stay)
next
  case (handler c' m' ts)
  then show ?thesis using handler_step_move [of env "ctx s" "main s" c' m' ts] by (simp add: shared_move.stay)
next
  case (task xs t ys c' ts)
  then show ?thesis using task_step_move by simp
next
  case (shared c')
  then show ?thesis by (auto elim!: shared_stepE intro: shared_move.intros)
qed (simp_all add: shared_move.stay)

lemma wt_turn_move:
  "rl (wt_ctx (wt_turn env w)) = rl (wt_ctx w) \<and> pool (wt_ctx (wt_turn env w)) = pool (wt_ctx w)"
  using dispatch_move [of env _ "wt_ctx w"]
  by (auto simp: wt_turn_def notify_def Let_def split: option.splits sum.splits prod.splits)

lemma wt_step_move:
  assumes "wt_step env w w'"
  shows "shared_move (rl (wt_ctx w)) (pool (wt_ctx w)) (rl (wt_ctx w')) (pool (wt_ctx w'))"
  using assms
proof (cases rule: wt_step.cases)
  case turn
  then show ?thesis by (simp add: wt_turn_move shared_move.stay)
next
  case (handler c' m' ts)
  then show ?thesis using handler_step_move [of env "wt_ctx w" "wt_main w" c' m' ts] by (simp add: shared_move.stay)
next
  case (task xs t ys c' ts)
  then show ?thesis using task_step_move by simp
next
  case (shared c')
  then show ?thesis by (auto elim!: shared_stepE intro: shared_move.intros)
qed (simp add: shared_move.stay)

lemma share_simps [simp]:
  "rl (share l p c) = l" "pool (share l p c) = p" "share l' p' (share l p c) = share l' p' c"
  "share (rl c) (pool c) c = c" "effects (share l p c) = effects c"
  by (simp_all add: share_def)

lemma share_updates: "(share l p c)\<lparr>rl := l'\<rparr> = share l' p c" "(share l p c)\<lparr>pool := p'\<rparr> = share l p' c"
  by (simp_all add: share_def)

text \<open>A tenant of the server: a machine on a context, which the other users of the shared parts may move at any time and
  whose own steps move them no further than \<open>shared_move\<close> says. What such a machine can reach it can reach
  whoever moved the shared parts; so one of many behaves as one alone.\<close>

locale tenant =
  fixes init :: "'s \<Rightarrow> bool" and step :: "'s \<Rightarrow> 's \<Rightarrow> bool"
    and ctx_of :: "'s \<Rightarrow> 'net ctx" and seat :: "rate_limiter \<Rightarrow> conn connection_pool option \<Rightarrow> 's \<Rightarrow> 's"
  assumes ctx_seat: "ctx_of (seat l p s) = share l p (ctx_of s)"
    and seat_same: "seat (rl (ctx_of s)) (pool (ctx_of s)) s = s"
    and others: "shared_step (share l p (ctx_of s)) (share l' p' (ctx_of s)) \<Longrightarrow> step (seat l p s) (seat l' p' s)"
    and own: "step s s' \<Longrightarrow> shared_move (rl (ctx_of s)) (pool (ctx_of s)) (rl (ctx_of s')) (pool (ctx_of s'))"
begin

lemma reachable_move:
  assumes "reachable init step (seat l p s)" and "shared_move l p l' p'"
  shows "reachable init step (seat l' p' s)"
  using assms(2)
proof cases
  case (consume n now w)
  then have "shared_step (share l p (ctx_of s)) (share l' p' (ctx_of s))"
    using shared_step.other_consume [of n now "share l p (ctx_of s)"] by (simp add: share_updates)
  from reachable.move [OF assms(1) others [OF this]] show ?thesis .
next
  case (get q t clk)
  then have "shared_step (share l p (ctx_of s)) (share l' p' (ctx_of s))"
    using shared_step.other_get [of "share l p (ctx_of s)" q] by (simp add: share_updates)
  from reachable.move [OF assms(1) others [OF this]] show ?thesis .
next
  case (clean q clk)
  then have "shared_step (share l p (ctx_of s)) (share l' p' (ctx_of s))"
    using shared_step.pool_clean [of "share l p (ctx_of s)" q] by (simp add: share_updates)
  from reachable.move [OF assms(1) others [OF this]] show ?thesis .
qed (use assms(1) in simp)

lemma all_move:
  "\<forall>s\<in>S. reachable init step (seat l p s) \<Longrightarrow> shared_move l p l' p' \<Longrightarrow> \<forall>s\<in>S. reachable init step (seat l' p' s)"
  by (blast intro: reachable_move)

lemma run_one:
  assumes "\<forall>s\<in>S \<union> set ss. reachable init step (seat l p s)" and "i < length ss" and "step (seat l p (ss ! i)) s'"
  shows "shared_move l p (rl (ctx_of s')) (pool (ctx_of s')) \<and>
    (\<forall>s\<in>S \<union> set (ss[i := s']). reachable init step (seat (rl (ctx_of s')) (pool (ctx_of s')) s))"
proof -
  have move: "shared_move l p (rl (ctx_of s')) (pool (ctx_of s'))" using own [OF assms(3)] by (simp add: ctx_seat)
  have "reachable init step (seat l p (ss ! i))" using assms(1,2) by simp
  from reachable.move [OF this assms(3)] have "reachable init step s'" .
  with move all_move [OF assms(1) move] set_update_subset_insert [of ss i s'] show ?thesis
    by (auto simp: seat_same)
qed

end

interpretation ws_tenant: tenant "started config" "session_step env" ctx with_shared for config and env :: "'net env"
proof
  fix l l' :: rate_limiter and p p' :: "conn connection_pool option" and s s' :: "'net session"
  show "ctx (with_shared l p s) = share l p (ctx s)" "with_shared (rl (ctx s)) (pool (ctx s)) s = s"
    by (simp_all add: with_shared_def)
  show "session_step env (with_shared l p s) (with_shared l' p' s)"
    if "shared_step (share l p (ctx s)) (share l' p' (ctx s))"
    using session_step.shared [of "with_shared l p s" "share l' p' (ctx s)"] that by (simp add: with_shared_def)
qed (rule session_step_move)

interpretation wt_tenant: tenant "wt_started config" "wt_step env" wt_ctx wt_with_shared for config and env :: "'net env"
proof
  fix l l' :: rate_limiter and p p' :: "conn connection_pool option" and w w' :: "'net wt_session"
  show "wt_ctx (wt_with_shared l p w) = share l p (wt_ctx w)" "wt_with_shared (rl (wt_ctx w)) (pool (wt_ctx w)) w = w"
    by (simp_all add: wt_with_shared_def)
  show "wt_step env (wt_with_shared l p w) (wt_with_shared l' p' w)"
    if "shared_step (share l p (wt_ctx w)) (share l' p' (wt_ctx w))"
    using wt_step.shared [of "wt_with_shared l p w" "share l' p' (wt_ctx w)"] that by (simp add: wt_with_shared_def)
qed (rule wt_step_move)

definition serving_ok :: "'net env \<Rightarrow> 'net session_config \<Rightarrow> 'net serving \<Rightarrow> bool" where
  "serving_ok env config v \<longleftrightarrow>
     (\<forall>s \<in> Collect (started config) \<union> set (sessions v).
        reachable (started config) (session_step env) (with_shared (shared_rl v) (shared_pool v) s)) \<and>
     (\<forall>w \<in> Collect (wt_started config) \<union> set (wt_sessions v).
        reachable (wt_started config) (wt_step env) (wt_with_shared (shared_rl v) (shared_pool v) w))"

lemma new_started [simp]: "started config (session_new config)" "wt_started config (wt_new config bytes)"
  by (auto simp: started_def wt_started_def)

lemma serving_ok_work:
  assumes "serving_ok env config v" and "work_step env config v v'"
  shows "serving_ok env config v'"
  using assms(2)
proof cases
  case (run i s')
  have ok: "\<forall>s \<in> Collect (started config) \<union> set (sessions v).
      reachable (started config) (session_step env) (with_shared (shared_rl v) (shared_pool v) s)"
    using assms(1) unfolding serving_ok_def by (elim conjE)
  from ws_tenant.run_one [OF ok run(2,3)] run(1) assms(1) show ?thesis
    by (auto simp: serving_ok_def intro: wt_tenant.reachable_move)
next
  case (run_wt i w')
  have ok: "\<forall>w \<in> Collect (wt_started config) \<union> set (wt_sessions v).
      reachable (wt_started config) (wt_step env) (wt_with_shared (shared_rl v) (shared_pool v) w)"
    using assms(1) unfolding serving_ok_def by (elim conjE)
  from wt_tenant.run_one [OF ok run_wt(2,3)] run_wt(1) assms(1) show ?thesis
    by (auto simp: serving_ok_def intro: ws_tenant.reachable_move)
next
  case (clean p clk)
  have "shared_move (shared_rl v) (shared_pool v) (shared_rl v) (Some (pool_cleanup clk p))"
    using clean(2) by (simp add: shared_move.clean)
  with assms(1) clean(1) show ?thesis
    by (auto simp: serving_ok_def intro: ws_tenant.reachable_move wt_tenant.reachable_move)
qed (use assms(1) in \<open>auto simp: serving_ok_def ws_handshake_def accept_session_def Let_def split: sum.splits\<close>)

interpretation serving_inv: inductive_invariant "serving_started config" "server_step env config" "serving_ok env config"
  for env :: "'net env" and config
proof
  fix v v'
  show "serving_started config v \<Longrightarrow> serving_ok env config v"
    by (auto simp: serving_started_def serving_new_def serving_ok_def with_shared_def wt_with_shared_def share_def
        session_new_def wt_new_def Ctx_new_def started_def wt_started_def intro!: reachable.start)
  assume ok: "serving_ok env config v" and "server_step env config v v'"
  from this(2) show "serving_ok env config v'"
  proof cases
    case work
    with ok show ?thesis by (rule serving_ok_work)
  qed (use ok in \<open>auto simp: serving_ok_def listen_def listen_turn_def listen_shutdown_def listen_webtransport_def
      serve_def serve_turn_def split: sum.splits\<close>)
qed

text \<open>C8. A server is its sessions: however many sessions of both transports a server runs at once on one rate limiter and one
  pool, the state of each is one that a single session of the same transport and configuration can reach by itself.
  So what is shown of every session, that it sends no traffic to a denied address among it, holds of every session
  of a running server.\<close>

theorem server_runs_independent_sessions:
  assumes "reachable (serving_started config) (server_step env config) v"
  shows "(\<forall>s \<in> set (sessions v).
      reachable (started config) (session_step env) (with_shared (shared_rl v) (shared_pool v) s)) \<and>
    (\<forall>w \<in> set (wt_sessions v).
      reachable (wt_started config) (wt_step env) (wt_with_shared (shared_rl v) (shared_pool v) w))"
  using serving_inv.inv_reachable [OF assms] by (simp add: serving_ok_def)

text \<open>A run of the listeners that ends in a session of each kind.\<close>

lemma accept_both:
  "\<exists>v. reachable (serving_started config) (server_step env config) v \<and>
    sessions v = [session_new config] \<and> wt_sessions v = [wt_new config bytes] \<and>
    shared_rl v = cfg_rate_limiter config \<and> shared_pool v = cfg_pool config"
proof -
  define lib where "lib = \<lparr>load_pemfiles = (\<lambda>_ _. Inr 0), self_signed = (\<lambda>_. Inr 0), endpoint = (\<lambda>_ _. Inr ())\<rparr>"
  define v0 where "v0 = listen_webtransport lib (SockV4 0 0) None None (listen (Inr ()) (serving_new config))"
  define v1 where "v1 = ws_handshake config (Inr ()) (listen_turn (Inr ()) v0)"
  define v2 where "v2 = accept_session config (Inr ()) (Inr ()) (Inr bytes) (serve_turn v1)"
  let ?R = "reachable (serving_started config) (server_step env config)"
  have simps: "bound (Inr ()) = Listening" by simp
  note defs = v0_def listen_def listen_webtransport_def build_identity_def serve_def lib_def serving_new_def
  have "?R (serving_new config)" by (rule reachable.start) (simp add: serving_started_def)
  then have "?R (listen (Inr ()) (serving_new config))"
    by (rule reachable.move) (intro server_step.listen, simp add: serving_new_def)
  then have "?R v0" unfolding v0_def
    by (rule reachable.move) (intro server_step.listen_wt, simp add: serving_new_def listen_def)
  then have "?R (listen_turn (Inr ()) v0)"
    by (rule reachable.move) (intro server_step.accept, simp add: defs)
  then have "?R v1" unfolding v1_def
    by (rule reachable.move) (intro server_step.work work_step.handshake, simp add: listen_turn_def)
  then have "?R (serve_turn v1)"
    by (rule reachable.move) (intro server_step.accept_wt, simp add: v1_def ws_handshake_def listen_turn_def defs Let_def)
  then have "?R v2" unfolding v2_def
    by (rule reachable.move) (intro server_step.work work_step.handshake_wt, simp add: serve_turn_def)
  then show ?thesis
    by (intro exI [of _ v2])
      (simp add: v2_def accept_session_def serve_turn_def v1_def ws_handshake_def listen_turn_def defs Let_def)
qed

theorem server_runs_independent_sessions_witness:
  "\<exists>v. reachable (serving_started demo_config) (server_step demo_env demo_config) v \<and>
    sessions v = [session_new demo_config] \<and> wt_sessions v = [wt_new demo_config [1]] \<and>
    reachable (started demo_config) (session_step demo_env)
      (with_shared (RateLimiter_new 10 0) (Some (ConnectionPool_new 30 8)) (session_new demo_config)) \<and>
    reachable (wt_started demo_config) (wt_step demo_env)
      (wt_with_shared (RateLimiter_new 10 0) (Some (ConnectionPool_new 30 8)) (wt_new demo_config [1]))"
proof -
  from accept_both [of demo_config demo_env "[1]"] obtain v where
    v: "reachable (serving_started demo_config) (server_step demo_env demo_config) v"
      "sessions v = [session_new demo_config]" "wt_sessions v = [wt_new demo_config [1]]"
      "shared_rl v = cfg_rate_limiter demo_config" "shared_pool v = cfg_pool demo_config" by auto
  from server_runs_independent_sessions [OF v(1)] v show ?thesis
    by (intro exI [of _ v]) (simp add: demo_config_def)
qed

section \<open>How it ends\<close>

text \<open>Once the listener has returned, by a shutdown or an error, no connection is accepted any more; the handshakes
  under way still become sessions, and no session is ended.\<close>

definition settled :: "nat \<Rightarrow> nat \<Rightarrow> unit rresult \<Rightarrow> 'net serving \<Rightarrow> bool" where
  "settled n k r v \<longleftrightarrow> ws_listener v = Some (Returned r) \<and> n \<le> length (sessions v) \<and> length (sessions v) + handshakes v \<le> n + k"

interpretation after_listen: inductive_invariant "settled n k r" "server_step env config" "settled n k r"
  for env :: "'net env" and config n k r
proof
  fix v v'
  assume "settled n k r v" and "server_step env config v v'"
  from this(2,1) show "settled n k r v'"
    by (auto elim!: server_step.cases work_step.cases simp: settled_def listen_turn_def ws_handshake_def serve_turn_def
        accept_session_def listen_webtransport_def serve_def Let_def split: sum.splits)
qed

lemma shutdown_keeps_sessions:
  assumes "reachable (\<lambda>u. u = listen_shutdown v) (server_step env config) v'"
  shows "ws_listener v' = Some (Returned (Inr ())) \<and> length (sessions v) \<le> length (sessions v') \<and>
    length (sessions v') \<le> length (sessions v) + handshakes v"
proof -
  have "settled (length (sessions v)) (handshakes v) (Inr ()) (listen_shutdown v)"
    by (simp add: settled_def listen_shutdown_def)
  from after_listen.inv_from [OF assms this] show ?thesis by (simp add: settled_def)
qed

text \<open>The steps of the program are steps of the server.\<close>

lemma main_step_server: "main_step env config wt v v' \<Longrightarrow> server_step env config v v'"
  by (auto elim!: main_step.cases intro: server_step.intros)

definition main_ok :: "(socket_addr \<times> str option \<times> str option) option \<Rightarrow> 'net serving \<Rightarrow> bool" where
  "main_ok wt v \<longleftrightarrow>
     (\<forall>r. main_returns v r \<longrightarrow> is_err r) \<and> \<not> (returned (ws_listener v) \<and> returned (wt_listener v)) \<and>
     (\<forall>addr cert key. wt = Some (addr, cert, key) \<and> (cert = None) \<noteq> (key = None) \<longrightarrow>
        wt_listener v \<noteq> Some Listening \<and> incoming v = 0 \<and> wt_sessions v = []) \<and>
     (wt = None \<longrightarrow> wt_listener v = None)"

lemma bound_returns: "bound outcome = Returned r \<Longrightarrow> is_err r"
  by (cases outcome) auto

lemma build_identity_half: "(cert = None) \<noteq> (key = None) \<Longrightarrow> is_err (build_identity load gen cert key)"
  by (auto simp: build_identity_def split: option.splits)

lemma work_step_keeps:
  assumes "work_step env config v v'"
  shows "ws_listener v' = ws_listener v \<and> wt_listener v' = wt_listener v \<and>
    length (sessions v') + handshakes v' \<le> length (sessions v) + handshakes v \<and>
    length (wt_sessions v') + incoming v' \<le> length (wt_sessions v) + incoming v"
  using assms by cases (auto simp: ws_handshake_def accept_session_def Let_def split: sum.splits)

interpretation main_inv: inductive_invariant "serving_started config" "main_step env config wt" "main_ok wt"
  for env :: "'net env" and config wt
proof
  fix v v'
  show "serving_started config v \<Longrightarrow> main_ok wt v"
    by (simp add: serving_started_def serving_new_def main_ok_def main_returns_def)
  assume ok: "main_ok wt v" and "main_step env config wt v v'"
  from this(2) show "main_ok wt v'"
  proof cases
    case (listen outcome)
    with ok show ?thesis by (auto simp: main_ok_def main_returns_def listen_def dest: bound_returns)
  next
    case (accept accepted)
    with ok show ?thesis by (auto simp: main_ok_def main_returns_def listen_turn_def split: sum.splits)
  next
    case (listen_wt addr cert key lib)
    with ok build_identity_half [of cert key "load_pemfiles lib" "self_signed lib"] show ?thesis
      by (auto simp: main_ok_def main_returns_def listen_webtransport_def serve_def dest: bound_returns split: sum.splits)
  next
    case accept_wt
    with ok show ?thesis by (auto simp: main_ok_def main_returns_def serve_turn_def)
  next
    case work
    with ok work_step_keeps [OF work] show ?thesis by (auto simp: main_ok_def main_returns_def)
  qed
qed

text \<open>After the return: the result stands and no connection is accepted.\<close>

definition main_over :: "unit rresult \<Rightarrow> nat \<Rightarrow> 'net serving \<Rightarrow> bool" where
  "main_over r n v \<longleftrightarrow> (\<forall>r'. main_returns v r' \<longleftrightarrow> r' = r) \<and>
     length (sessions v) + handshakes v + length (wt_sessions v) + incoming v \<le> n"

interpretation main_after: inductive_invariant "main_over r n" "main_step env config wt" "main_over r n"
  for env :: "'net env" and config wt r n
proof
  fix v v'
  assume over: "main_over r n v" and "main_step env config wt v v'"
  from over have "main_returns v r" by (simp add: main_over_def)
  then have "ws_listener v = Some (Returned r) \<or> wt_listener v = Some (Returned r)" by (simp add: main_returns_def)
  with \<open>main_step env config wt v v'\<close> have "work_step env config v v'" by cases auto
  from work_step_keeps [OF this] over show "main_over r n v'" by (auto simp: main_over_def main_returns_def)
qed

lemma main_returns_once: "main_ok wt v \<Longrightarrow> main_returns v r \<Longrightarrow> main_returns v r' \<longleftrightarrow> r' = r"
  by (auto simp: main_ok_def main_returns_def)

text \<open>C39. The program ends only in failure: in every state of a run of \<^verbatim>\<open>main\<close>, what it returns, if anything, is an error, that of
  a listener which could not start or whose \<^verbatim>\<open>accept\<close> failed; in all later states the result is the same and no
  connection was accepted in addition. Without \<^verbatim>\<open>--webtransport-port\<close> only the WebSocket listener can cause that. With it,
  and a certificate without its key or a key without its certificate, no WebTransport session is ever run, and
  starting that listener ends the program, however many WebSocket sessions it is running.\<close>

theorem main_ends_only_in_failure:
  assumes "reachable (serving_started config) (main_step env config wt) v"
  shows "(\<forall>r. main_returns v r \<longrightarrow> is_err r \<and> (\<forall>v'. reachable (\<lambda>u. u = v) (main_step env config wt) v' \<longrightarrow>
      (\<forall>r'. main_returns v' r' \<longleftrightarrow> r' = r) \<and>
      length (sessions v') + length (wt_sessions v') \<le> length (sessions v) + handshakes v + length (wt_sessions v) + incoming v)) \<and>
    (wt = None \<longrightarrow> wt_listener v = None) \<and>
    (\<forall>addr cert key. wt = Some (addr, cert, key) \<and> (cert = None) \<noteq> (key = None) \<longrightarrow> wt_sessions v = [] \<and>
      (\<forall>lib. main_returns (listen_webtransport lib addr cert key v) (Inl ''WebTransport needs both a cert and key, or neither'')))"
proof -
  let ?n = "length (sessions v) + handshakes v + length (wt_sessions v) + incoming v"
  have ok: "main_ok wt v" by (rule main_inv.inv_reachable [OF assms])
  have "main_over r ?n v'" if "main_returns v r" and "reachable (\<lambda>u. u = v) (main_step env config wt) v'" for r v'
    using main_returns_once [OF ok that(1)] by (intro main_after.inv_from [OF that(2)]) (simp add: main_over_def)
  then have after: "(\<forall>r'. main_returns v' r' \<longleftrightarrow> r' = r) \<and> length (sessions v') + length (wt_sessions v') \<le> ?n"
    if "main_returns v r" and "reachable (\<lambda>u. u = v) (main_step env config wt) v'" for r v'
    using that by (fastforce simp: main_over_def)
  have half: "main_returns (listen_webtransport lib addr cert key v) (Inl ''WebTransport needs both a cert and key, or neither'')"
    if "(cert = None) \<noteq> (key = None)" for lib addr cert key
    using that by (auto simp: main_returns_def listen_webtransport_def build_identity_def split: option.splits)
  from ok after half show ?thesis unfolding main_ok_def by blast
qed

theorem main_ends_only_in_failure_witness:
  "\<exists>v lib. reachable (serving_started demo_config)
      (main_step demo_env demo_config (Some (SockV4 0 4433, Some ''cert.pem'', None))) v \<and>
    sessions v = [session_new demo_config] \<and>
    main_returns (listen_webtransport lib (SockV4 0 4433) (Some ''cert.pem'') None v)
      (Inl ''WebTransport needs both a cert and key, or neither'')"
proof -
  let ?wt = "Some (SockV4 0 4433, Some ''cert.pem'', None)"
  let ?R = "reachable (serving_started demo_config) (main_step demo_env demo_config ?wt)"
  define v where "v = ws_handshake demo_config (Inr ()) (listen_turn (Inr ()) (listen (Inr ()) (serving_new demo_config)))"
  note defs = listen_def listen_turn_def serving_new_def
  have "?R (serving_new demo_config)" by (rule reachable.start) (simp add: serving_started_def)
  then have "?R (listen (Inr ()) (serving_new demo_config))"
    by (rule reachable.move) (intro main_step.listen; simp add: defs)
  then have "?R (listen_turn (Inr ()) (listen (Inr ()) (serving_new demo_config)))"
    by (rule reachable.move) (intro main_step.accept; simp add: defs)
  then have r: "?R v" unfolding v_def
    by (rule reachable.move) (intro main_step.work work_step.handshake; simp add: defs)
  have "sessions v = [session_new demo_config]" by (simp add: v_def ws_handshake_def defs Let_def)
  with main_ends_only_in_failure [OF r] r show ?thesis by (intro exI [of _ v]) auto
qed

text \<open>A session on a stream of the application starts as every session of its configuration does.\<close>

lemma handle_ws_upgrade_started: "handle_ws_upgrade pol accepted = Some s \<Longrightarrow> started (ws_upgrade_config pol) s"
  by (auto simp: handle_ws_upgrade_def split: sum.splits)

end
