(* ===== verification/Streams.thy ===== *)
theory Streams
  imports Session_Runs
begin

text \<open>
  The data path from the client to a TCP peer: what \<^verbatim>\<open>handle_send\<close> puts into a writer channel is what the writer of
  \<^verbatim>\<open>run_bridge\<close> writes, in order. A channel belongs to one connection; the invariant says so and accounts for every
  message as written, being written or still queued, or, after a failed write, as cut short or discarded. The second half is
  the way back, from the reads of a bridge to the data events.
\<close>

section \<open>Accounting\<close>

definition pushed_to :: "chan \<Rightarrow> 'net ctx \<Rightarrow> u8 list list" where
  "pushed_to ch c = map snd (filter (\<lambda>(k, _). k = ch) (pushed c))"

text \<open>What was written completely, and what was written of a message when its write failed.\<close>

fun written_by :: "chan \<Rightarrow> effect list \<Rightarrow> u8 list list" where
  "written_by ch [] = []"
| "written_by ch (TcpWrite _ k data # es) = (if k = ch then data # written_by ch es else written_by ch es)"
| "written_by ch (_ # es) = written_by ch es"

fun broken_by :: "chan \<Rightarrow> effect list \<Rightarrow> u8 list list" where
  "broken_by ch [] = []"
| "broken_by ch (TcpBroken _ k part # es) = (if k = ch then part # broken_by ch es else broken_by ch es)"
| "broken_by ch (_ # es) = broken_by ch es"

text \<open>The connections a channel's data went to.\<close>

fun fed_by :: "chan \<Rightarrow> effect list \<Rightarrow> conn set" where
  "fed_by ch [] = {}"
| "fed_by ch (TcpWrite x k _ # es) = (if k = ch then insert x (fed_by ch es) else fed_by ch es)"
| "fed_by ch (TcpBroken x k _ # es) = (if k = ch then insert x (fed_by ch es) else fed_by ch es)"
| "fed_by ch (_ # es) = fed_by ch es"

fun writer_flight :: "writer_half \<Rightarrow> u8 list list" where
  "writer_flight (Writing data) = [data]"
| "writer_flight _ = []"

fun flight :: "chan \<Rightarrow> task \<Rightarrow> u8 list list" where
  "flight ch (Bridging _ _ k _ _ wr) = (if k = ch then writer_flight wr else [])"
| "flight ch _ = []"

definition in_flight :: "chan \<Rightarrow> task list \<Rightarrow> u8 list list" where
  "in_flight ch ts = concat (map (flight ch) ts)"

text \<open>The connection and the writer channel a task holds.\<close>

fun holder :: "task \<Rightarrow> (conn \<times> chan) list" where
  "holder (Registering _ x ch) = [(x, ch)]"
| "holder (Bridging _ x ch _ _ _) = [(x, ch)]"
| "holder (AcceptRegistering _ _ _ _ _ x ch) = [(x, ch)]"
| "holder _ = []"

definition holders :: "task list \<Rightarrow> (conn \<times> chan) list" where
  "holders ts = concat (map holder ts)"

text \<open>The channels whose writer has not ended.\<close>

fun writer :: "task \<Rightarrow> chan list" where
  "writer (Registering _ _ ch) = [ch]"
| "writer (Bridging _ _ ch _ _ wr) = (if wr = WriterDone then [] else [ch])"
| "writer (AcceptRegistering _ _ _ _ _ _ ch) = [ch]"
| "writer _ = []"

definition writers :: "task list \<Rightarrow> chan list" where
  "writers ts = concat (map writer ts)"

text \<open>A channel whose receiver was dropped had exactly one failed write, of the message after those written; until then all is
  accounted for.\<close>

definition flow :: "chan \<Rightarrow> 'net ctx \<Rightarrow> task list \<Rightarrow> bool" where
  "flow ch c ts \<longleftrightarrow>
     (if ch \<in> set (closed_rx c) then
        in_flight ch ts = [] \<and> queue_of c ch = [] \<and>
        (\<exists>part data lost. broken_by ch (effects c) = [part] \<and> strict_prefix part data \<and>
          pushed_to ch c = written_by ch (effects c) @ data # lost)
      else
        broken_by ch (effects c) = [] \<and>
        pushed_to ch c = written_by ch (effects c) @ in_flight ch ts @ queue_of c ch)"

definition accounted :: "'net ctx \<Rightarrow> task list \<Rightarrow> bool" where
  "accounted c ts \<longleftrightarrow> (\<forall>ch. flow ch c ts)"

text \<open>A writer ends only with its receiver dropped or with nothing left to write.\<close>

definition served :: "'net ctx \<Rightarrow> task list \<Rightarrow> bool" where
  "served c ts \<longleftrightarrow>
     (\<forall>ch. ch \<in> set (closed_rx c) \<longrightarrow> ch < next_chan c \<and> ch \<notin> set (writers ts)) \<and>
     (\<forall>i ch. hm_get (sockets c) i = Some (Tcp ch) \<longrightarrow> ch \<in> set (closed_rx c) \<or> ch \<in> set (writers ts)) \<and>
     (\<forall>ch. queue_of c ch \<noteq> [] \<longrightarrow> ch \<in> set (writers ts))"

definition bounded :: "'net ctx \<Rightarrow> bool" where
  "bounded c \<longleftrightarrow>
     (\<forall>(ch, _) \<in> set (pushed c). ch < next_chan c) \<and>
     (\<forall>i ch. hm_get (sockets c) i = Some (Tcp ch) \<longrightarrow> ch < next_chan c)"

definition owned :: "'net ctx \<Rightarrow> task list \<Rightarrow> bool" where
  "owned c ts \<longleftrightarrow>
     distinct (map snd (holders ts)) \<and> (\<forall>(x, ch) \<in> set (holders ts). ch < next_chan c) \<and>
     (\<forall>x ch. x \<in> fed_by ch (effects c) \<longrightarrow>
        ch < next_chan c \<and>
        (\<forall>y. (y, ch) \<in> set (holders ts) \<longrightarrow> y = x) \<and>
        (\<forall>y. y \<in> fed_by ch (effects c) \<longrightarrow> y = x))"

definition streams_ok :: "'net ctx \<Rightarrow> main_state \<Rightarrow> task list \<Rightarrow> bool" where
  "streams_ok c m ts \<longleftrightarrow> accounted c ts \<and> served c ts \<and> bounded c \<and> owned c ts"

lemma effects_append [simp]:
  "written_by ch (xs @ ys) = written_by ch xs @ written_by ch ys"
  "broken_by ch (xs @ ys) = broken_by ch xs @ broken_by ch ys"
  "fed_by ch (xs @ ys) = fed_by ch xs \<union> fed_by ch ys"
proof -
  show "written_by ch (xs @ ys) = written_by ch xs @ written_by ch ys"
    by (induction ch xs rule: written_by.induct) auto
  show "broken_by ch (xs @ ys) = broken_by ch xs @ broken_by ch ys"
    by (induction ch xs rule: broken_by.induct) auto
  show "fed_by ch (xs @ ys) = fed_by ch xs \<union> fed_by ch ys"
    by (induction ch xs rule: fed_by.induct) auto
qed

lemma in_flight_simps [simp]:
  "in_flight ch [] = []" "in_flight ch (t # ts) = flight ch t @ in_flight ch ts"
  "in_flight ch (xs @ ys) = in_flight ch xs @ in_flight ch ys"
  by (simp_all add: in_flight_def)

lemma holders_simps [simp]:
  "holders [] = []" "holders (t # ts) = holder t @ holders ts" "holders (xs @ ys) = holders xs @ holders ys"
  by (simp_all add: holders_def)

lemma writers_simps [simp]:
  "writers [] = []" "writers (t # ts) = writer t @ writers ts" "writers (xs @ ys) = writers xs @ writers ys"
  by (simp_all add: writers_def)

lemma flight_holder: "ch \<notin> snd ` set (holder t) \<Longrightarrow> flight ch t = []"
  by (cases t) auto

lemma in_flight_holders: "ch \<notin> snd ` set (holders ts) \<Longrightarrow> in_flight ch ts = []"
  by (induction ts) (auto simp: flight_holder image_Un)

lemma writer_holder: "ch \<in> set (writer t) \<Longrightarrow> ch \<in> snd ` set (holder t)"
  by (cases t) (auto split: if_splits)

lemma writers_holders: "ch \<in> set (writers ts) \<Longrightarrow> ch \<in> snd ` set (holders ts)"
  by (induction ts) (auto dest: writer_holder simp: image_Un)

lemma flight_writer: "ch \<notin> set (writer t) \<Longrightarrow> flight ch t = []"
proof (cases t)
  case (Bridging i x k counted rd wr)
  then show "ch \<notin> set (writer t) \<Longrightarrow> flight ch t = []" by (cases wr) auto
qed simp_all

lemma in_flight_writers: "ch \<notin> set (writers ts) \<Longrightarrow> in_flight ch ts = []"
  by (induction ts) (auto simp: flight_writer)

section \<open>Closed channels\<close>

lemma hm_insert_entry: "p \<in> set (hm_insert k v m) \<Longrightarrow> p = (k, v) \<or> p \<in> set m"
  unfolding hm_insert_def by (induction m) (auto split: if_splits)

lemma hm_remove_entry: "p \<in> set (hm_remove k m) \<Longrightarrow> p \<in> set m"
  by (auto simp: hm_remove_def AList.delete_eq)

definition free :: "chan \<Rightarrow> (u64, socket_entry) hmap \<Rightarrow> bool" where
  "free ch m \<longleftrightarrow> (\<forall>p \<in> set m. sender (snd p) \<noteq> ch)"

lemma dropped_iff: "sender_dropped c ch \<longleftrightarrow> free ch (sockets c)"
  by (auto simp: sender_dropped_def list_ex_iff free_def)

lemma free_simps [simp]:
  "free ch m \<Longrightarrow> ch \<noteq> sender e \<Longrightarrow> free ch (hm_insert i e m)" "free ch m \<Longrightarrow> free ch (hm_remove i m)" "free ch []"
  unfolding free_def using hm_insert_entry hm_remove_entry by fastforce+

lemma dropped_no_entry: "sender_dropped c ch \<Longrightarrow> hm_get (sockets c) i \<noteq> Some (Tcp ch)"
  by (auto simp: dropped_iff free_def dest!: hm_get_SomeD)

section \<open>Steps of a task\<close>

text \<open>A task works on the channel it holds only; a new holder takes a fresh channel.\<close>

lemmas task_cases = bridge_read_cases bridge_take_cases udp_receive_cases

lemma task_step_frame:
  assumes "task_step env (c, t) (c', new)"
  shows "pushed c' = pushed c \<and>
    (ch \<notin> snd ` set (holder t) \<longrightarrow>
      written_by ch (effects c') = written_by ch (effects c) \<and> broken_by ch (effects c') = broken_by ch (effects c) \<and>
      (ch \<in> set (closed_rx c') \<longleftrightarrow> ch \<in> set (closed_rx c)) \<and>
      queue_of c' ch = queue_of c ch \<and> in_flight ch new = [])"
  using assms
proof (cases rule: task_step.cases)
  case (wrote data failed_at s k wr' i counted rd)
  then show ?thesis by (cases failed_at) (auto simp: bridge_write_def queue_of_def)
qed (auto simp: op_defs Let_def queue_of_def split: op_splits elim!: task_cases)

text \<open>On the channel it holds, a step moves a message on or breaks off its write.\<close>

lemma task_step_moves:
  assumes "task_step env (c, t) (c', new)"
  shows "((ch \<in> set (closed_rx c') \<longleftrightarrow> ch \<in> set (closed_rx c)) \<and> broken_by ch (effects c') = broken_by ch (effects c) \<and>
      written_by ch (effects c') @ in_flight ch new @ queue_of c' ch =
        written_by ch (effects c) @ flight ch t @ queue_of c ch \<and>
      (flight ch t @ queue_of c ch = [] \<longrightarrow> written_by ch (effects c') = written_by ch (effects c))) \<or>
    (\<exists>data part. flight ch t = [data] \<and> in_flight ch new = [] \<and> ch \<in> set (closed_rx c') \<and> queue_of c' ch = [] \<and>
      broken_by ch (effects c') = broken_by ch (effects c) @ [part] \<and> strict_prefix part data \<and>
      written_by ch (effects c') = written_by ch (effects c))"
  using assms
proof (cases rule: task_step.cases)
  case (wrote data failed_at s k wr' i counted rd)
  show ?thesis
  proof (cases failed_at)
    case None
    with wrote show ?thesis by (auto simp: bridge_write_def queue_of_def)
  next
    case (Some n)
    with wrote have "n < length data" by simp
    then have "take n data \<noteq> data" by (metis length_take min.absorb4 nat_neq_iff)
    then have "strict_prefix (take n data) data" by (simp add: strict_prefix_def take_is_prefix)
    with wrote Some show ?thesis by (cases "k = ch") (auto simp: bridge_write_def queue_of_def)
  qed
qed (auto simp: op_defs Let_def queue_of_def split: op_splits elim!: task_cases)

lemma task_step_flow:
  assumes "task_step env (c, t) (c', new)"
  obtains (kept) "ch \<in> set (closed_rx c') \<longleftrightarrow> ch \<in> set (closed_rx c)" "broken_by ch (effects c') = broken_by ch (effects c)"
      "written_by ch (effects c') @ in_flight ch new @ queue_of c' ch =
        written_by ch (effects c) @ flight ch t @ queue_of c ch"
      "flight ch t @ queue_of c ch = [] \<Longrightarrow> written_by ch (effects c') = written_by ch (effects c)"
  | (broke) data part where "flight ch t = [data]" "in_flight ch new = []" "ch \<in> set (closed_rx c')" "queue_of c' ch = []"
      "broken_by ch (effects c') = broken_by ch (effects c) @ [part]" "strict_prefix part data"
      "written_by ch (effects c') = written_by ch (effects c)"
  using task_step_moves [OF assms, of ch] by (elim disjE conjE exE) blast+

lemma task_step_holder:
  assumes "task_step env (c, t) (c', new)"
  shows "next_chan c \<le> next_chan c' \<and>
    (holders new = [] \<or> holders new = holder t \<or>
      (\<exists>x. holders new = [(x, next_chan c)] \<and> next_chan c' = Suc (next_chan c))) \<and>
    (\<forall>x ch. x \<in> fed_by ch (effects c') \<longrightarrow> x \<in> fed_by ch (effects c) \<or> (x, ch) \<in> set (holder t)) \<and>
    (\<forall>i ch. hm_get (sockets c') i = Some (Tcp ch) \<longrightarrow>
      hm_get (sockets c) i = Some (Tcp ch) \<or> ch \<in> snd ` set (holder t))"
  using assms
proof (cases rule: task_step.cases)
  case (wrote data failed_at s k wr' i counted rd)
  then show ?thesis by (cases failed_at) (auto simp: bridge_write_def split: if_splits)
qed (auto simp: op_defs Let_def split: op_splits elim!: task_cases)

text \<open>What becomes of the writers.\<close>

lemma task_step_writer:
  assumes "task_step env (c, t) (c', new)"
  shows "(ch \<in> set (writers new) \<longrightarrow> ch \<in> set (writer t) \<or> ch = next_chan c) \<and>
    (ch \<in> set (closed_rx c') \<longrightarrow> ch \<in> set (closed_rx c) \<or> ch \<in> set (writer t) \<and> ch \<notin> set (writers new)) \<and>
    (ch \<in> set (closed_rx c) \<longrightarrow> ch \<in> set (closed_rx c')) \<and>
    (hm_get (sockets c') i = Some (Tcp ch) \<longrightarrow>
      ch \<in> set (closed_rx c') \<or> ch \<in> set (writers new) \<or> hm_get (sockets c) i = Some (Tcp ch) \<and> ch \<notin> set (writer t)) \<and>
    (queue_of c' ch \<noteq> [] \<longrightarrow> ch \<in> set (writers new) \<or> queue_of c ch \<noteq> [] \<and> ch \<notin> set (writer t))"
  using assms
proof (cases rule: task_step.cases)
  case (take counted k now wr' j s rd)
  then show ?thesis using dropped_no_entry [of c ch i] by (auto simp: queue_of_def elim!: bridge_take_cases)
next
  case (wrote data failed_at s k wr' i counted rd)
  then show ?thesis by (cases failed_at) (auto simp: bridge_write_def queue_of_def)
qed (auto simp: op_defs Let_def queue_of_def split: op_splits elim!: bridge_read_cases udp_receive_cases)

lemma owned_bound: "owned c ts \<Longrightarrow> (x, ch) \<in> set (holders ts) \<Longrightarrow> ch < next_chan c"
  by (auto simp: owned_def)

lemma owned_unique: "owned c ts \<Longrightarrow> (x, ch) \<in> set (holders ts) \<Longrightarrow> (y, ch) \<in> set (holders ts) \<Longrightarrow> x = y"
  unfolding owned_def distinct_map by (elim conjE) (metis inj_onD prod.inject snd_conv)

lemma owned_apart:
  assumes "owned c (xs @ t # ys)" and "ch \<in> snd ` set (holder t)"
  shows "ch \<notin> snd ` set (holders xs)" "ch \<notin> snd ` set (holders ys)"
  using assms by (auto simp: owned_def)

lemma owned_fed:
  assumes "owned c ts" and "x \<in> fed_by ch (effects c)"
  shows "ch < next_chan c" and "(y, ch) \<in> set (holders ts) \<Longrightarrow> y = x" and "y \<in> fed_by ch (effects c) \<Longrightarrow> y = x"
  using assms unfolding owned_def by blast+

lemma flow_task:
  assumes "flow ch c (xs @ t # ys)" and "owned c (xs @ t # ys)" and "task_step env (c, t) (c', new)"
  shows "flow ch c' (xs @ new @ ys)"
proof -
  have same: "pushed_to ch c' = pushed_to ch c" using task_step_frame [OF assms(3)] by (simp add: pushed_to_def)
  show ?thesis
  proof (cases "ch \<in> snd ` set (holder t)")
    case False
    with task_step_frame [OF assms(3), of ch] assms(1) same show ?thesis by (auto simp: flow_def flight_holder split: if_splits)
  next
    case True
    have alone: "in_flight ch xs = []" "in_flight ch ys = []"
      using owned_apart [OF assms(2) True] by (simp_all add: in_flight_holders)
    from assms(3) show ?thesis
    proof (cases rule: task_step_flow [of _ _ _ _ _ ch])
      case kept
      show ?thesis
      proof (cases "ch \<in> set (closed_rx c)")
        case True
        with assms(1) alone have "flight ch t @ queue_of c ch = []" by (simp add: flow_def)
        with True kept assms(1) alone same show ?thesis by (simp add: flow_def)
      next
        case False
        with kept assms(1) alone same show ?thesis by (simp add: flow_def)
      qed
    next
      case (broke data part)
      with assms(1) alone have "ch \<notin> set (closed_rx c)" by (auto simp: flow_def)
      with broke assms(1) alone same show ?thesis by (auto simp: flow_def)
    qed
  qed
qed

lemma accounted_task:
  "accounted c (xs @ t # ys) \<Longrightarrow> owned c (xs @ t # ys) \<Longrightarrow> task_step env (c, t) (c', new) \<Longrightarrow> accounted c' (xs @ new @ ys)"
  unfolding accounted_def using flow_task by blast

lemma served_task:
  assumes "served c (xs @ t # ys)" and "owned c (xs @ t # ys)" and "task_step env (c, t) (c', new)"
  shows "served c' (xs @ new @ ys)"
proof -
  note step = task_step_writer [OF assms(3)]
  have mono: "next_chan c \<le> next_chan c'" using task_step_holder [OF assms(3)] by blast
  have apart: "ch \<notin> set (writers xs) \<and> ch \<notin> set (writers ys) \<and> ch < next_chan c" if "ch \<in> set (writer t)" for ch
  proof -
    note held = writer_holder [OF that]
    then obtain x where "(x, ch) \<in> set (holders (xs @ t # ys))" by force
    from owned_bound [OF assms(2) this] owned_apart [OF assms(2) held] show ?thesis by (blast dest: writers_holders)
  qed
  have dead: "ch < next_chan c \<and> ch \<notin> set (writers (xs @ t # ys))" if "ch \<in> set (closed_rx c)" for ch
    using assms(1) that unfolding served_def by blast
  have "ch < next_chan c' \<and> ch \<notin> set (writers (xs @ new @ ys))" if "ch \<in> set (closed_rx c')" for ch
  proof -
    have "ch \<in> set (writers new) \<Longrightarrow> ch \<in> set (writer t) \<or> ch = next_chan c" using step [of ch] by blast
    moreover from that step [of ch] have "ch \<in> set (closed_rx c) \<or> ch \<in> set (writer t) \<and> ch \<notin> set (writers new)" by blast
    ultimately show ?thesis using dead [of ch] apart [of ch] mono by auto
  qed
  moreover have "ch \<in> set (closed_rx c') \<or> ch \<in> set (writers (xs @ new @ ys))"
    if "hm_get (sockets c') i = Some (Tcp ch)" for i ch
  proof -
    have "hm_get (sockets c) i = Some (Tcp ch) \<Longrightarrow> ch \<in> set (closed_rx c) \<or> ch \<in> set (writers (xs @ t # ys))"
      using assms(1) unfolding served_def by blast
    with that step [of ch i] show ?thesis by auto
  qed
  moreover have "ch \<in> set (writers (xs @ new @ ys))" if "queue_of c' ch \<noteq> []" for ch
  proof -
    have "queue_of c ch \<noteq> [] \<Longrightarrow> ch \<in> set (writers (xs @ t # ys))" using assms(1) unfolding served_def by blast
    with that step [of ch] show ?thesis by auto
  qed
  ultimately show ?thesis unfolding served_def by blast
qed

lemma bounded_task:
  assumes "bounded c" and "owned c (xs @ t # ys)" and "task_step env (c, t) (c', new)"
  shows "bounded c'"
proof -
  note step = task_step_holder [OF assms(3)]
  have mono: "next_chan c \<le> next_chan c'" using step by blast
  have "ch < next_chan c'" if "hm_get (sockets c') i = Some (Tcp ch)" for i ch
  proof -
    from that step consider "hm_get (sockets c) i = Some (Tcp ch)" | "ch \<in> snd ` set (holder t)" by blast
    then have "ch < next_chan c"
    proof cases
      case 1
      with assms(1) show ?thesis by (auto simp: bounded_def)
    next
      case 2
      then obtain x where "(x, ch) \<in> set (holders (xs @ t # ys))" by force
      then show ?thesis by (rule owned_bound [OF assms(2)])
    qed
    with mono show ?thesis by simp
  qed
  moreover have "pushed c' = pushed c" using task_step_frame [OF assms(3)] by blast
  ultimately show ?thesis using assms(1) mono unfolding bounded_def by fastforce
qed

lemma owned_task:
  assumes "owned c (xs @ t # ys)" and "task_step env (c, t) (c', new)"
  shows "owned c' (xs @ new @ ys)"
proof -
  let ?old = "holders (xs @ t # ys)" and ?new = "holders (xs @ new @ ys)"
  note step = task_step_holder [OF assms(2)]
  have mono: "next_chan c \<le> next_chan c'" using step by blast
  have old: "(x, ch) \<in> set ?old" if "(x, ch) \<in> set ?new" "ch < next_chan c" for x ch
    using that step by auto
  have bound: "ch < next_chan c'" if "(x, ch) \<in> set ?new" for x ch
    using that step owned_bound [OF assms(1)] by fastforce
  have fed: "x \<in> fed_by ch (effects c) \<or> (x, ch) \<in> set ?old" if "x \<in> fed_by ch (effects c')" for x ch
    using that step by auto
  have known: "ch < next_chan c \<and> (\<forall>y. (y, ch) \<in> set ?old \<longrightarrow> y = x)" if "x \<in> fed_by ch (effects c')" for x ch
    using fed [OF that] owned_fed [OF assms(1)] owned_bound [OF assms(1)] owned_unique [OF assms(1)] by blast
  have one: "y = x" if "x \<in> fed_by ch (effects c')" "y \<in> fed_by ch (effects c')" for x y ch
    using fed [OF that(1)] fed [OF that(2)] known [OF that(2)] owned_fed [OF assms(1)] by blast
  have "distinct (map snd ?new)"
  proof -
    have d: "distinct (map snd ?old)" using assms(1) by (simp add: owned_def)
    have fresh: "next_chan c \<notin> snd ` set ?old" using owned_bound [OF assms(1)] by fastforce
    from step consider "holders new = []" | "holders new = holder t" | x where "holders new = [(x, next_chan c)]" by blast
    then show ?thesis by cases (use d fresh in auto)
  qed
  moreover have "\<forall>(x, ch) \<in> set ?new. ch < next_chan c'" using bound by auto
  moreover have "ch < next_chan c' \<and> (\<forall>y. (y, ch) \<in> set ?new \<longrightarrow> y = x)" if "x \<in> fed_by ch (effects c')" for x ch
    using known [OF that] old mono by (meson less_le_trans)
  ultimately show ?thesis using one unfolding owned_def by blast
qed

section \<open>Steps of the session loop\<close>

text \<open>The handlers write nothing; \<^verbatim>\<open>handle_send\<close> appends to the log of the socket's channel, and to the channel while it has a
  receiver.\<close>

definition quiet :: "'net ctx \<Rightarrow> 'net ctx \<Rightarrow> task list \<Rightarrow> bool" where
  "quiet c c' new \<longleftrightarrow>
     holders new = [] \<and> next_chan c \<le> next_chan c' \<and> closed_rx c' = closed_rx c \<and>
     (\<forall>ch. fed_by ch (effects c') = fed_by ch (effects c) \<and> written_by ch (effects c') = written_by ch (effects c) \<and>
        broken_by ch (effects c') = broken_by ch (effects c)) \<and>
     (\<forall>i ch. hm_get (sockets c') i = Some (Tcp ch) \<longrightarrow> hm_get (sockets c) i = Some (Tcp ch)) \<and>
     ((pushed c' = pushed c \<and> queued c' = queued c) \<or>
      (\<exists>i ch bytes. hm_get (sockets c) i = Some (Tcp ch) \<and> pushed c' = pushed c @ [(ch, bytes)] \<and>
        queued c' = (if ch \<in> set (closed_rx c) then queued c else hm_insert ch (queue_of c ch @ [bytes]) (queued c))))"

lemma handler_step_quiet: "handler_step env (c, m) (c', m', new) \<Longrightarrow> quiet c c' new"
  by (cases rule: handler_stepE) (auto simp: op_defs Let_def quiet_def split: op_splits)

lemma dispatch_quiet: "dispatch env r c = (c', m', new) \<Longrightarrow> quiet c c' new"
proof (cases r)
  case (Send i data)
  then show "dispatch env r c = (c', m', new) \<Longrightarrow> quiet c c' new"
    by (fastforce simp: handle_send_def Let_def quiet_def split: op_splits)
qed (auto simp: op_defs Let_def quiet_def split: op_splits)

lemma quiet_tasks: "quiet c c' new \<Longrightarrow> in_flight ch (ts @ new) = in_flight ch ts \<and> set (writers (ts @ new)) = set (writers ts)"
  using in_flight_holders [of ch new] writers_holders [of _ new] by (auto simp: quiet_def)

lemma quiet_pushed:
  assumes "quiet c c' new"
  obtains (same) "pushed c' = pushed c" "queued c' = queued c"
  | (lost) i ch bytes where "hm_get (sockets c) i = Some (Tcp ch)" "pushed c' = pushed c @ [(ch, bytes)]" "queued c' = queued c"
      "ch \<in> set (closed_rx c)"
  | (push) i ch bytes where "hm_get (sockets c) i = Some (Tcp ch)" "pushed c' = pushed c @ [(ch, bytes)]"
      "\<And>k. queue_of c' k = (if k = ch then queue_of c ch @ [bytes] else queue_of c k)" "ch \<notin> set (closed_rx c)"
  using assms unfolding quiet_def by (elim conjE disjE exE) (fastforce simp: queue_of_def split: if_splits)+

lemma flow_quiet:
  assumes "flow ch c ts" and "quiet c c' new"
  shows "flow ch c' (ts @ new)"
proof -
  note eff = conjunct1 [OF quiet_tasks [OF assms(2), of ch ts]]
  have fields: "closed_rx c' = closed_rx c" "written_by ch (effects c') = written_by ch (effects c)"
      "broken_by ch (effects c') = broken_by ch (effects c)"
    using assms(2) unfolding quiet_def by blast+
  from assms(2) show ?thesis
  proof (cases rule: quiet_pushed)
    case same
    then have "pushed_to ch c' = pushed_to ch c" "queue_of c' ch = queue_of c ch"
      by (auto simp: pushed_to_def queue_of_def)
    with assms(1) show ?thesis unfolding flow_def eff fields by (simp only:)
  next
    case (lost i k bytes)
    then have "pushed_to ch c' = pushed_to ch c @ (if ch = k then [bytes] else [])" "queue_of c' ch = queue_of c ch"
      by (auto simp: pushed_to_def queue_of_def)
    with assms(1) lost(4) show ?thesis unfolding flow_def eff fields by auto
  next
    case (push i k bytes)
    then have "pushed_to ch c' = pushed_to ch c @ (if ch = k then [bytes] else [])" by (auto simp: pushed_to_def)
    with assms(1) push(3,4) show ?thesis unfolding flow_def eff fields by auto
  qed
qed

lemma served_quiet:
  assumes "served c ts" and "quiet c c' new"
  shows "served c' (ts @ new)"
proof -
  have fields: "closed_rx c' = closed_rx c" "next_chan c \<le> next_chan c'"
      "\<And>i ch. hm_get (sockets c') i = Some (Tcp ch) \<Longrightarrow> hm_get (sockets c) i = Some (Tcp ch)"
    using assms(2) unfolding quiet_def by blast+
  have known: "ch \<in> set (closed_rx c) \<or> ch \<in> set (writers ts)" if "hm_get (sockets c) i = Some (Tcp ch)" for i ch
    using assms(1) that unfolding served_def by blast
  have "ch \<in> set (writers ts)" if "queue_of c' ch \<noteq> []" for ch
  proof -
    have old: "queue_of c ch \<noteq> [] \<Longrightarrow> ch \<in> set (writers ts)" using assms(1) unfolding served_def by blast
    from assms(2) show ?thesis
    proof (cases rule: quiet_pushed)
      case (push i k bytes)
      with known [OF push(1)] old that show ?thesis by (auto split: if_splits)
    qed (use old that in \<open>simp_all add: queue_of_def\<close>)
  qed
  with assms(1) fields known show ?thesis
    unfolding served_def using quiet_tasks [OF assms(2), of _ ts] by (metis less_le_trans)
qed

lemma bounded_quiet:
  assumes "bounded c" and "quiet c c' new"
  shows "bounded c'"
proof -
  have fields: "next_chan c \<le> next_chan c'" "\<And>i ch. hm_get (sockets c') i = Some (Tcp ch) \<Longrightarrow> hm_get (sockets c) i = Some (Tcp ch)"
    using assms(2) unfolding quiet_def by blast+
  have entry: "ch < next_chan c" if "hm_get (sockets c) i = Some (Tcp ch)" for i ch
    using assms(1) that unfolding bounded_def by blast
  from assms(2) have "\<forall>(ch, _) \<in> set (pushed c'). ch < next_chan c"
    by (cases rule: quiet_pushed) (use assms(1) entry in \<open>auto simp: bounded_def\<close>)
  with fields entry show ?thesis unfolding bounded_def by fastforce
qed

lemma streams_quiet:
  assumes "streams_ok c m ts" and "quiet c c' new"
  shows "streams_ok c' m' (ts @ new)"
proof -
  have "owned c' (ts @ new)"
  proof -
    have "holders new = []" and le: "next_chan c \<le> next_chan c'" and fed: "fed_by ch (effects c') = fed_by ch (effects c)" for ch
      using assms(2) unfolding quiet_def by blast+
    then have same: "holders (ts @ new) = holders ts" by simp
    have "owned c ts" using assms(1) by (simp add: streams_ok_def)
    then have "\<forall>(x, ch) \<in> set (holders ts). ch < next_chan c'"
      using le by (auto dest: owned_bound)
    moreover have "ch < next_chan c'" if "x \<in> fed_by ch (effects c)" for x ch
      using owned_fed(1) [OF \<open>owned c ts\<close> that] le by simp
    ultimately show ?thesis using \<open>owned c ts\<close> unfolding owned_def same fed by blast
  qed
  with assms flow_quiet [OF _ assms(2)] served_quiet [OF _ assms(2)] bounded_quiet [OF _ assms(2)] show ?thesis
    by (simp add: streams_ok_def accounted_def)
qed

lemma streams_same:
  "streams_ok c m ts \<Longrightarrow> pushed c' = pushed c \<Longrightarrow> queued c' = queued c \<Longrightarrow> sockets c' = sockets c \<Longrightarrow>
    effects c' = effects c \<Longrightarrow> next_chan c' = next_chan c \<Longrightarrow> closed_rx c' = closed_rx c \<Longrightarrow> streams_ok c' m' ts"
proof -
  assume eqs: "pushed c' = pushed c" "queued c' = queued c" "sockets c' = sockets c" "effects c' = effects c"
    "next_chan c' = next_chan c" "closed_rx c' = closed_rx c"
  have "pushed_to ch c' = pushed_to ch c" "queue_of c' ch = queue_of c ch" for ch
    by (simp_all add: pushed_to_def queue_of_def eqs)
  then have "streams_ok c' m' ts = streams_ok c m ts"
    unfolding streams_ok_def accounted_def flow_def served_def bounded_def owned_def eqs by (simp only:)
  then show "streams_ok c m ts \<Longrightarrow> streams_ok c' m' ts" by simp
qed

interpretation streams_inv: session_invariant env config streams_ok
  for env :: "'net env" and config
proof
  show "streams_ok (Ctx_new config) Ready []"
    by (simp add: streams_ok_def accounted_def flow_def served_def bounded_def owned_def Ctx_new_def pushed_to_def queue_of_def)
  fix c c' :: "'net ctx" and m m' xs t ys ts new r e
  show "streams_ok c' m' (ts @ new)" if "streams_ok c Ready ts" and "dispatch env r c = (c', m', new)"
    by (rule streams_quiet [OF that(1) dispatch_quiet [OF that(2)]])
  show "streams_ok c' m' (ts @ new)" if "streams_ok c m ts" and "handler_step env (c, m) (c', m', new)"
    by (rule streams_quiet [OF that(1) handler_step_quiet [OF that(2)]])
  show "streams_ok c' m (xs @ new @ ys)" if "streams_ok c m (xs @ t # ys)" and "task_step env (c, t) (c', new)"
    using that by (auto simp: streams_ok_def intro: accounted_task served_task bounded_task owned_task)
  show "streams_ok c m ts \<Longrightarrow> shared_step c c' \<Longrightarrow> streams_ok c' m ts"
    by (erule shared_stepE) (auto elim: streams_same)
  show "streams_ok c Ready ts \<Longrightarrow> streams_ok (notify (event_error 0 e) c) Ready ts"
    by (auto elim: streams_same)
  show "streams_ok c Ready ts \<Longrightarrow> streams_ok c CleaningUp ts" by (simp add: streams_ok_def)
qed

text \<open>C6. The data a client sends over a TCP connection is written to the peer in order, over every interleaving. As long as no
  write of a channel has failed, what was put into it is exactly what was written, followed by what is being
  written, followed by what is queued, and once its writer has ended all of it was written. After a failed write the peer
  got the messages before it, whole and in order, and a proper prefix of the next one, and no other write is tried: this
  message and all later ones are lost. One channel feeds one connection only.\<close>

theorem sent_data_is_written_in_order:
  assumes "reachable (started config) (session_step env) s"
  shows "(case broken_by ch (effects (ctx s)) of
      [] \<Rightarrow> pushed_to ch (ctx s) = written_by ch (effects (ctx s)) @ in_flight ch (tasks s) @ queue_of (ctx s) ch \<and>
        (ch \<notin> set (writers (tasks s)) \<longrightarrow> pushed_to ch (ctx s) = written_by ch (effects (ctx s)))
    | [part] \<Rightarrow> ch \<notin> set (writers (tasks s)) \<and>
        (\<exists>data lost. strict_prefix part data \<and> pushed_to ch (ctx s) = written_by ch (effects (ctx s)) @ data # lost)
    | _ \<Rightarrow> False) \<and>
    (x \<in> fed_by ch (effects (ctx s)) \<and> y \<in> fed_by ch (effects (ctx s)) \<longrightarrow> x = y)"
proof -
  have inv: "flow ch (ctx s) (tasks s)" "served (ctx s) (tasks s)" "owned (ctx s) (tasks s)"
    using streams_inv.good_reachable [OF assms] by (simp_all add: streams_ok_def accounted_def)
  have "in_flight ch (tasks s) @ queue_of (ctx s) ch = []" if "ch \<notin> set (writers (tasks s))"
    using that inv(2) by (auto simp: in_flight_writers served_def)
  moreover have "ch \<in> set (closed_rx (ctx s)) \<Longrightarrow> ch \<notin> set (writers (tasks s))"
    using inv(2) unfolding served_def by blast
  moreover have "x \<in> fed_by ch (effects (ctx s)) \<and> y \<in> fed_by ch (effects (ctx s)) \<longrightarrow> x = y"
    using owned_fed(3) [OF inv(3)] by blast
  ultimately show ?thesis using inv(1) by (cases "ch \<in> set (closed_rx (ctx s))") (auto simp: flow_def)
qed

text \<open>A run that writes: one connection is made and registered, a message is sent on it, taken and written, or broken off.\<close>

lemma write_run:
  assumes "max_connections (cfg_policy config) \<noteq> 0" and "\<forall>p. cfg_pool config = Some p \<longrightarrow> idle p = []"
    and "receive (codec env) msg = Request (Connect i addr port)"
    and "resolve_and_check (net env) (cfg_policy config) lookup addr port = Inr t"
    and "receive (codec env) msg' = Request (Send i data)" and "b64_decode (codec env) data = Some bytes"
    and "consume (of_nat (length bytes)) now (cfg_rate_limiter config) = Some (l, w)"
    and "pred_option (\<lambda>n. n < length bytes) failed_at"
  shows "\<exists>c wr. visits env config c Ready [Bridging i 0 0 True Reading wr] \<and> pushed c = [(0, bytes)] \<and>
    effects c = [TcpDial t, case failed_at of None \<Rightarrow> TcpWrite 0 0 bytes | Some n \<Rightarrow> TcpBroken 0 0 (take n bytes)]"
proof -
  from connects_run [OF assms(1,2), of env "\<lambda>_. msg" "\<lambda>_. i" addr port lookup t 1] assms(3,4)
  obtain c0 where v: "visits env config c0 Ready ([] @ Registering i 0 0 # [])" and c0: "dialled (\<lambda>_. i) t 1 config c0" by auto
  define c1 where "c1 = register_tcp i 0 c0"
  define c2 where "c2 = c1\<lparr>queued := hm_insert 0 [bytes] (queued c1), pushed := [(0, bytes)]\<rparr>"
  define c3 where "c3 = c2\<lparr>rl := l, queued := hm_insert 0 [] (queued c2)\<rparr>"
  have c1: "hm_get (sockets c1) i = Some (Tcp 0)" "queued c1 = []" "pushed c1 = []" "rl c1 = cfg_rate_limiter config"
    "effects c1 = [TcpDial t]" "closed_rx c1 = []"
    using c0 by (simp_all add: c1_def register_tcp_def dialled_def)
  from visits_task [OF v task_step.register]
  have v: "visits env config c1 Ready [Bridging i 0 0 True Reading Waiting]" by (simp add: c1_def)
  have "dispatch env (Send i data) c1 = (c2, Ready, [])"
    using assms(6) c1 by (simp add: handle_send_def c2_def queue_of_def Let_def)
  from visits_message [OF v assms(5) this]
  have v: "visits env config c2 Ready ([] @ Bridging i 0 0 True Reading Waiting # [])" by simp
  have "bridge_take True 0 now c2 = Some (c3, Writing bytes)"
    using assms(7) c1 by (simp add: bridge_take_def queue_of_def meter_def c2_def c3_def)
  from visits_task [OF v task_step.take [OF this]]
  have v: "visits env config c3 Ready ([] @ Bridging i 0 0 True Reading (Writing bytes) # [])" by simp
  obtain c4 wr where wrote: "bridge_write 0 0 bytes failed_at c3 = (c4, wr)" by (cases "bridge_write 0 0 bytes failed_at c3")
  from visits_task [OF v task_step.wrote [OF assms(8) this]] wrote c1 show ?thesis
    by (intro exI [of _ c4] exI [of _ wr]) (auto simp: bridge_write_def c2_def c3_def split: option.splits)
qed

theorem sent_data_is_written_in_order_witness:
  "\<exists>s s'. reachable (started demo_config) (session_step demo_env) s \<and>
    effects (ctx s) = [TcpDial (SockV4 0x08080808 53), TcpWrite 0 0 [104, 105]] \<and>
    pushed_to 0 (ctx s) = written_by 0 (effects (ctx s)) @ in_flight 0 (tasks s) @ queue_of (ctx s) 0 \<and>
    reachable (started demo_config) (session_step demo_env) s' \<and>
    effects (ctx s') = [TcpDial (SockV4 0x08080808 53), TcpBroken 0 0 [104]] \<and>
    0 \<notin> set (writers (tasks s')) \<and> (\<exists>data lost. strict_prefix [104] data \<and> pushed_to 0 (ctx s') = data # lost)"
proof -
  have msg: "receive (codec demo_env) (BinaryMsg (js_send 1 [104, 105])) = Request (Send 1 ''hi'')"
    and data: "b64_decode (codec demo_env) ''hi'' = Some [104, 105]" by code_simp+
  obtain l w where "consume (of_nat (length [104 :: u8, 105])) 0 (cfg_rate_limiter demo_config) = Some (l, w)"
    using consume_ok [OF limiter_ok_new] by (fastforce simp: demo_config_def)
  note run = write_run [OF demo_policy demo_idle demo_messages(1) demo_approved msg data this]
  from run [of None] obtain s where s: "reachable (started demo_config) (session_step demo_env) s"
      "effects (ctx s) = [TcpDial (SockV4 0x08080808 53), TcpWrite 0 0 [104, 105]]"
    unfolding visits_def by auto
  from run [of "Some 1"] obtain s' where s': "reachable (started demo_config) (session_step demo_env) s'"
      "effects (ctx s') = [TcpDial (SockV4 0x08080808 53), TcpBroken 0 0 [104]]"
    unfolding visits_def by auto
  from sent_data_is_written_in_order [OF s(1), of 0] sent_data_is_written_in_order [OF s'(1), of 0] s s' show ?thesis
    by (intro exI [of _ s] exI [of _ s']) simp
qed

section \<open>From the peer to the client\<close>

text \<open>The payloads of the data events of a socket, and what has been read for it but not yet raised as an event.\<close>

fun data_events :: "u64 \<Rightarrow> event list \<Rightarrow> str list" where
  "data_events i [] = []"
| "data_events i (Data k data # evs) = (if k = i then data # data_events i evs else data_events i evs)"
| "data_events i (_ # evs) = data_events i evs"

fun reader_flight :: "reader_half \<Rightarrow> u8 list list" where
  "reader_flight (Delivering bytes) = [bytes]"
| "reader_flight _ = []"

fun pend_of :: "task \<Rightarrow> (u64 \<times> chan \<times> u8 list) list" where
  "pend_of (Bridging k _ ch _ rd _) = map (\<lambda>bytes. (k, ch, bytes)) (reader_flight rd)"
| "pend_of _ = []"

definition pend :: "task list \<Rightarrow> (u64 \<times> chan \<times> u8 list) list" where
  "pend ts = concat (map pend_of ts)"

definition bytes_of :: "u64 \<Rightarrow> (u64 \<times> chan \<times> u8 list) list \<Rightarrow> u8 list list" where
  "bytes_of i hist = map (snd \<circ> snd) (filter (\<lambda>p. fst p = i) hist)"

text \<open>All that was read under the identifier came over one connection.\<close>

definition one_source :: "u64 \<Rightarrow> (u64 \<times> chan \<times> u8 list) list \<Rightarrow> bool" where
  "one_source i hist \<longleftrightarrow> (\<exists>ch. \<forall>(k, ch', bytes) \<in> set hist. k = i \<longrightarrow> ch' = ch)"

definition reads_ok :: "'net env \<Rightarrow> 'net ctx \<Rightarrow> task list \<Rightarrow> bool" where
  "reads_ok env c ts \<longleftrightarrow>
     set (pend ts) \<subseteq> set (got c) \<and>
     (\<forall>i. one_source i (got c) \<longrightarrow>
        map (b64_encode (codec env)) (bytes_of i (got c)) =
          data_events i (tx c) @ map (b64_encode (codec env)) (bytes_of i (pend ts)))"

lemma data_events_append [simp]: "data_events i (xs @ ys) = data_events i xs @ data_events i ys"
  by (induction i xs rule: data_events.induct) auto

lemma bytes_of_simps [simp]:
  "bytes_of i [] = []" "bytes_of i (xs @ ys) = bytes_of i xs @ bytes_of i ys"
  "bytes_of i (p # xs) = (if fst p = i then snd (snd p) # bytes_of i xs else bytes_of i xs)"
  by (simp_all add: bytes_of_def)

lemma pend_simps [simp]:
  "pend [] = []" "pend (t # ts) = pend_of t @ pend ts" "pend (xs @ ys) = pend xs @ pend ys"
  by (simp_all add: pend_def)

lemma pend_holder: "(k, ch, bytes) \<in> set (pend ts) \<Longrightarrow> ch \<in> snd ` set (holders ts)"
proof (induction ts)
  case (Cons t ts)
  then show ?case by (cases t) (auto simp: image_Un)
qed simp

lemma task_step_reads:
  assumes "task_step env (c, t) (c', new)"
  obtains (other) "got c' = got c" "\<And>i. data_events i (tx c') = data_events i (tx c)" "pend new = pend_of t"
  | (read) k x ch counted wr bytes where "t = Bridging k x ch counted Reading wr" "pend new = [(k, ch, bytes)]"
      "got c' = got c @ [(k, ch, bytes)]" "tx c' = tx c"
  | (deliver) k x ch counted wr bytes where "t = Bridging k x ch counted (Delivering bytes) wr" "pend new = []"
      "got c' = got c" "tx c' = tx c @ [Data k (b64_encode (codec env) bytes)]"
  using assms
  by (cases rule: task_stepE)
    (auto simp: op_defs Let_def event_error_def event_denied_def split: op_splits
      elim!: bridge_read_cases bridge_take_cases udp_receive_cases)

text \<open>If all of the identifier's data comes over the channel a task holds, no other task has some pending.\<close>

lemma lonely:
  assumes "distinct (map snd (holders (xs @ t # ys)))" and "ch \<in> snd ` set (holder t)" and "one_source i hist"
    and "(i, ch, bytes) \<in> set hist" and "set (pend xs) \<subseteq> set hist" and "set (pend ys) \<subseteq> set hist"
  shows "bytes_of i (pend xs) = [] \<and> bytes_of i (pend ys) = []"
proof -
  have "p \<notin> set (pend xs) \<and> p \<notin> set (pend ys)" if "fst p = i" for p
  proof -
    obtain ch' b where p: "p = (i, ch', b)" by (metis prod.collapse \<open>fst p = i\<close>)
    have "ch' \<notin> snd ` set (holders xs) \<and> ch' \<notin> snd ` set (holders ys)" if "p \<in> set (pend xs @ pend ys)"
    proof -
      have "p \<in> set hist" using that assms(5,6) by auto
      moreover from assms(3) obtain k where "\<And>ch' b. (i, ch', b) \<in> set hist \<Longrightarrow> ch' = k"
        unfolding one_source_def by blast
      ultimately have "ch' = ch" using assms(4) p by metis
      with assms(1,2) show ?thesis by auto
    qed
    with p pend_holder [of i ch' b xs] pend_holder [of i ch' b ys] show ?thesis by auto
  qed
  then show ?thesis by (auto simp: bytes_of_def filter_empty_conv)
qed

lemma one_source_mono: "one_source i (hist @ later) \<Longrightarrow> one_source i hist"
  unfolding one_source_def by (metis Un_iff set_append)

lemma reads_task:
  assumes "reads_ok env c (xs @ t # ys)" and "owned c (xs @ t # ys)" and "task_step env (c, t) (c', new)"
  shows "reads_ok env c' (xs @ new @ ys)"
  using assms(3)
proof (cases rule: task_step_reads)
  case other
  with assms(1) show ?thesis by (simp add: reads_ok_def)
next
  case (read k x ch counted wr bytes)
  have sub: "set (pend xs) \<subseteq> set (got c')" "set (pend ys) \<subseteq> set (got c')"
    using assms(1) read by (auto simp: reads_ok_def)
  have "map (b64_encode (codec env)) (bytes_of i (got c')) =
      data_events i (tx c') @ map (b64_encode (codec env)) (bytes_of i (pend (xs @ new @ ys)))" if "one_source i (got c')" for i
  proof -
    have before: "map (b64_encode (codec env)) (bytes_of i (got c)) =
        data_events i (tx c) @ map (b64_encode (codec env)) (bytes_of i (pend (xs @ t # ys)))"
      using assms(1) one_source_mono [of i "got c"] that read by (simp add: reads_ok_def)
    show ?thesis
    proof (cases "k = i")
      case True
      from lonely [OF _ _ that _ sub, of t ch bytes] assms(2) read True before show ?thesis by (simp add: owned_def)
    next
      case False
      with before read show ?thesis by simp
    qed
  qed
  with sub read show ?thesis unfolding reads_ok_def by auto
next
  case (deliver k x ch counted wr bytes)
  have sub: "set (pend xs) \<subseteq> set (got c)" "set (pend ys) \<subseteq> set (got c)" "(k, ch, bytes) \<in> set (got c)"
    using assms(1) deliver by (auto simp: reads_ok_def)
  have "map (b64_encode (codec env)) (bytes_of i (got c')) =
      data_events i (tx c') @ map (b64_encode (codec env)) (bytes_of i (pend (xs @ new @ ys)))" if "one_source i (got c')" for i
  proof -
    have before: "map (b64_encode (codec env)) (bytes_of i (got c)) =
        data_events i (tx c) @ map (b64_encode (codec env)) (bytes_of i (pend (xs @ t # ys)))"
      using assms(1) that deliver by (simp add: reads_ok_def)
    show ?thesis
    proof (cases "k = i")
      case True
      from lonely [OF _ _ _ _ sub(1,2), of t ch i bytes] that assms(2) sub(3) deliver True before show ?thesis
        by (simp add: owned_def)
    next
      case False
      with before deliver show ?thesis by simp
    qed
  qed
  with sub deliver show ?thesis unfolding reads_ok_def by auto
qed

lemma handler_step_reads:
  "handler_step env (c, m) (c', m', new) \<Longrightarrow> got c' = got c \<and> data_events i (tx c') = data_events i (tx c) \<and> pend new = []"
  by (cases rule: handler_stepE)
    (auto simp: op_defs Let_def event_error_def event_denied_def split: op_splits)

lemma dispatch_reads:
  "dispatch env r c = (c', m', new) \<Longrightarrow> got c' = got c \<and> data_events i (tx c') = data_events i (tx c) \<and> pend new = []"
  by (cases r) (auto simp: op_defs Let_def event_error_def event_denied_def split: op_splits)

lemma reads_same:
  "reads_ok env c ts \<Longrightarrow> got c' = got c \<Longrightarrow> (\<And>i. data_events i (tx c') = data_events i (tx c)) \<Longrightarrow> pend new = [] \<Longrightarrow>
    reads_ok env c' (ts @ new)"
  by (simp add: reads_ok_def)

definition flows_ok :: "'net env \<Rightarrow> 'net ctx \<Rightarrow> main_state \<Rightarrow> task list \<Rightarrow> bool" where
  "flows_ok env c m ts \<longleftrightarrow> streams_ok c m ts \<and> reads_ok env c ts"

interpretation flows_inv: session_invariant env config "flows_ok env"
  for env :: "'net env" and config
proof
  show "flows_ok env (Ctx_new config) Ready []"
    using streams_inv.good_new [of config] by (simp add: flows_ok_def reads_ok_def Ctx_new_def)
  fix c c' :: "'net ctx" and m m' xs t ys ts new r e
  show "flows_ok env c' m' (ts @ new)" if "flows_ok env c Ready ts" and "dispatch env r c = (c', m', new)"
    using that streams_inv.good_dispatch [OF _ that(2)] dispatch_reads [OF that(2)] by (auto simp: flows_ok_def intro: reads_same)
  show "flows_ok env c' m' (ts @ new)" if "flows_ok env c m ts" and "handler_step env (c, m) (c', m', new)"
    using that streams_inv.good_handler [OF _ that(2)] handler_step_reads [OF that(2)] by (auto simp: flows_ok_def intro: reads_same)
  show "flows_ok env c' m (xs @ new @ ys)" if "flows_ok env c m (xs @ t # ys)" and "task_step env (c, t) (c', new)"
    using that streams_inv.good_task [OF _ that(2)] reads_task [OF _ _ that(2)] by (auto simp: flows_ok_def streams_ok_def)
  show "flows_ok env c m ts \<Longrightarrow> shared_step c c' \<Longrightarrow> flows_ok env c' m ts"
    using streams_inv.good_shared [of c m ts c'] by (auto simp: flows_ok_def reads_ok_def elim!: shared_stepE)
  show "flows_ok env c Ready ts \<Longrightarrow> flows_ok env (notify (event_error 0 e) c) Ready ts"
    using streams_inv.good_error [of c ts e] by (auto simp: flows_ok_def reads_ok_def event_error_def)
  show "flows_ok env c Ready ts \<Longrightarrow> flows_ok env c CleaningUp ts"
    using streams_inv.good_stop [of c ts] by (simp add: flows_ok_def)
qed

text \<open>C7. What a peer sends reaches the client in order: for an identifier under which one connection was read, the data events
  raised so far, followed by the bytes just read and not yet raised as an event, are exactly what was read from
  the peer, read by read. Nothing is lost, repeated or reordered.\<close>

theorem peer_data_is_raised_in_order:
  assumes "reachable (started config) (session_step env) s" and "one_source i (got (ctx s))"
  shows "map (b64_encode (codec env)) (bytes_of i (got (ctx s))) =
    data_events i (tx (ctx s)) @ map (b64_encode (codec env)) (bytes_of i (pend (tasks s)))"
  using flows_inv.good_reachable [OF assms(1)] assms(2) by (simp add: flows_ok_def reads_ok_def)

text \<open>A run that reads: one connection is made and registered, the peer sends, and the event is raised.\<close>

lemma read_run:
  assumes "max_connections (cfg_policy config) \<noteq> 0" and "\<forall>p. cfg_pool config = Some p \<longrightarrow> idle p = []"
    and "receive (codec env) msg = Request (Connect i addr port)"
    and "resolve_and_check (net env) (cfg_policy config) lookup addr port = Inr t"
    and "bytes \<noteq> []" and "length bytes \<le> 16384"
    and "consume (of_nat (length bytes)) now (cfg_rate_limiter config) = Some (l, w)"
  shows "\<exists>c. visits env config c Ready [Bridging i 0 0 True Reading Waiting] \<and> got c = [(i, 0, bytes)] \<and>
    tx c = [Connected i, Data i (b64_encode (codec env) bytes)]"
proof -
  from connects_run [OF assms(1,2), of env "\<lambda>_. msg" "\<lambda>_. i" addr port lookup t 1] assms(3,4)
  obtain c0 where v: "visits env config c0 Ready ([] @ Registering i 0 0 # [])" and c0: "dialled (\<lambda>_. i) t 1 config c0" by auto
  define c1 where "c1 = register_tcp i 0 c0"
  define c2 where "c2 = c1\<lparr>got := [(i, 0, bytes)], rl := l\<rparr>"
  have c1: "got c1 = []" "rl c1 = cfg_rate_limiter config" "tx c1 = [Connected i]"
    using c0 by (simp_all add: c1_def register_tcp_def dialled_def)
  from visits_task [OF v task_step.register]
  have v: "visits env config c1 Ready ([] @ Bridging i 0 0 True Reading Waiting # [])" by (simp add: c1_def)
  have "bridge_read True i 0 (Inr bytes) now c1 = Some (c2, Delivering bytes)"
    using assms(5-7) c1 by (simp add: bridge_read_def meter_def c2_def)
  from visits_task [OF v task_step.read [OF this]]
  have v: "visits env config c2 Ready ([] @ Bridging i 0 0 True (Delivering bytes) Waiting # [])" by simp
  from visits_task [OF v task_step.deliver] show ?thesis
    by (intro exI [of _ "bridge_deliver env i bytes c2"]) (simp add: bridge_deliver_def c1 c2_def)
qed

theorem peer_data_is_raised_in_order_witness:
  "\<exists>s. reachable (started demo_config) (session_step demo_env) s \<and> got (ctx s) = [(1, 0, [104, 105])] \<and>
    data_events 1 (tx (ctx s)) @ map (b64_encode demo_lib) (bytes_of 1 (pend (tasks s))) = [''hi'']"
proof -
  obtain l w where "consume (of_nat (length [104 :: u8, 105])) 0 (cfg_rate_limiter demo_config) = Some (l, w)"
    using consume_ok [OF limiter_ok_new] by (fastforce simp: demo_config_def)
  from read_run [OF demo_policy demo_idle demo_messages(1) demo_approved _ _ this]
  obtain s where s: "reachable (started demo_config) (session_step demo_env) s" "got (ctx s) = [(1, 0, [104, 105])]"
    by (fastforce simp: visits_def)
  have "one_source 1 (got (ctx s))" by (simp add: s(2) one_source_def)
  note fact = peer_data_is_raised_in_order [OF s(1) this]
  have "b64_encode demo_lib [104, 105] = ''hi''" by code_simp
  with fact s show ?thesis by (intro exI [of _ s]) (simp add: demo_env_def)
qed

end
