(* ===== verification/Events.thy ===== *)
theory Events
  imports Streams "HOL-Library.Multiset"
begin

text \<open>
  What the events of a session look like: an invariant over all interleavings that types every event raised, by the
  function that builds it in \<^verbatim>\<open>src/proxy.rs\<close>, and one for the identifiers that \<^verbatim>\<open>run_listener\<close> gives to accepted
  connections. The first is what makes the hypotheses of the codec theorems true of the events of a session.
\<close>

section \<open>Well-formed events\<close>

text \<open>A payload is the encoding of what one read filled, at most the buffer of \<^verbatim>\<open>run_bridge\<close> or of the UDP task; an address is
  printed by the standard library; a lookup that succeeded has an address.\<close>

definition payload_of :: "'net env \<Rightarrow> nat \<Rightarrow> str \<Rightarrow> bool" where
  "payload_of env n d \<longleftrightarrow> (\<exists>bytes. d = b64_encode (codec env) bytes \<and> length bytes \<le> n)"

fun event_typed :: "'net env \<Rightarrow> event \<Rightarrow> bool" where
  "event_typed env (Data i d) \<longleftrightarrow> payload_of env 16384 d"
| "event_typed env (DataFrom i d addr port) \<longleftrightarrow> payload_of env 65536 d \<and> addr \<in> range print_ip"
| "event_typed env (Accepted i conn_id remote) \<longleftrightarrow> remote \<in> range print_sa"
| "event_typed env (Resolved i addrs) \<longleftrightarrow> addrs \<noteq> [] \<and> set addrs \<subseteq> range print_ip"
| "event_typed env _ \<longleftrightarrow> True"

fun reader_typed :: "reader_half \<Rightarrow> bool" where
  "reader_typed (Delivering bytes) \<longleftrightarrow> length bytes \<le> 16384"
| "reader_typed _ \<longleftrightarrow> True"

fun task_typed :: "task \<Rightarrow> bool" where
  "task_typed (Bridging i s ch counted rd wr) \<longleftrightarrow> reader_typed rd"
| "task_typed (UdpReceiving i s ch (Some (bytes, from))) \<longleftrightarrow> length bytes \<le> 65536"
| "task_typed _ \<longleftrightarrow> True"

definition typed :: "'net env \<Rightarrow> 'net ctx \<Rightarrow> main_state \<Rightarrow> task list \<Rightarrow> bool" where
  "typed env c m ts \<longleftrightarrow> list_all (event_typed env) (tx c) \<and> list_all task_typed ts"

lemma event_typed_simps [simp]: "event_typed env (event_error i msg)" "event_typed env (event_denied i msg)"
  by (simp_all add: event_error_def event_denied_def)

lemma task_step_typed:
  assumes "task_step env (c, t) (c', new)" and "list_all (event_typed env) (tx c)" and "task_typed t"
  shows "list_all (event_typed env) (tx c') \<and> list_all task_typed new"
  using assms
  by (cases rule: task_stepE)
    (auto simp: op_defs dns_resolve_def Let_def payload_of_def split: op_splits
      elim!: bridge_read_cases bridge_take_cases udp_receive_cases)

lemma handler_step_typed:
  "handler_step env (c, m) (c', m', new) \<Longrightarrow> list_all (event_typed env) (tx c) \<Longrightarrow>
    list_all (event_typed env) (tx c') \<and> list_all task_typed new"
  by (cases rule: handler_stepE) (auto simp: op_defs Let_def split: op_splits)

lemma dispatch_typed:
  "dispatch env r c = (c', m', new) \<Longrightarrow> list_all (event_typed env) (tx c) \<Longrightarrow>
    list_all (event_typed env) (tx c') \<and> list_all task_typed new"
  by (cases r) (auto simp: op_defs Let_def split: op_splits)

interpretation typed_inv: session_invariant env config "typed env" for env :: "'net env" and config
proof
  show "typed env (Ctx_new config) Ready []" by (simp add: typed_def Ctx_new_def)
  fix c c' :: "'net ctx" and m m' xs t ys ts new r e
  show "typed env c' m' (ts @ new)" if "typed env c Ready ts" and "dispatch env r c = (c', m', new)"
    using that dispatch_typed [OF that(2)] by (simp add: typed_def)
  show "typed env c' m' (ts @ new)" if "typed env c m ts" and "handler_step env (c, m) (c', m', new)"
    using that handler_step_typed [OF that(2)] by (simp add: typed_def)
  show "typed env c' m (xs @ new @ ys)" if "typed env c m (xs @ t # ys)" and "task_step env (c, t) (c', new)"
    using that task_step_typed [OF that(2)] by (simp add: typed_def)
  show "typed env c m ts \<Longrightarrow> shared_step c c' \<Longrightarrow> typed env c' m ts"
    using shared_step_tx [of c c'] by (simp add: typed_def)
qed (simp_all add: typed_def)

section \<open>Printed addresses\<close>

lemma digit_ascii: "is_digit b c \<Longrightarrow> is_ascii c"
  by (auto simp: is_digit_def digit_val_def is_ascii_def Let_def split: if_splits)

lemma print_base_ascii: "2 \<le> b \<Longrightarrow> b \<le> 16 \<Longrightarrow> list_all is_ascii (print_base b n)"
  using print_base_digits [of b n] by (auto simp: list_all_iff dest: digit_ascii)

lemma join_ascii: "is_ascii sep \<Longrightarrow> list_all (list_all is_ascii) xs \<Longrightarrow> list_all is_ascii (join sep xs)"
  by (cases xs) (auto simp: list_all_iff)

lemma join_length: "list_all (\<lambda>x. length x \<le> k) xs \<Longrightarrow> length (join sep xs) \<le> length xs * Suc k"
proof (cases xs)
  case (Cons x ys)
  assume "list_all (\<lambda>x. length x \<le> k) xs"
  moreover have "list_all (\<lambda>x. length x \<le> k) ys \<Longrightarrow> length (concat (map (\<lambda>y. sep # y) ys)) \<le> length ys * Suc k" for ys
    by (induction ys) auto
  ultimately show ?thesis using Cons by fastforce
qed simp


lemma octet_text: "list_all (\<lambda>x. length x \<le> 3) (map print_nat (octets a)) \<and> list_all (list_all is_ascii) (map print_nat (octets a))"
proof -
  have "d < 10 ^ Suc 2" if "d \<in> set (octets a)" for d
    using that to_digits_bound [of 256 d 4 "unat a"] by (simp add: octets_def)
  with print_base_length [of 10 _ 2] print_base_ascii [of 10] show ?thesis by (simp add: list_all_iff)
qed

lemma print_v4_text: "list_all is_ascii (print_v4 a) \<and> length (print_v4 a) \<le> 16"
proof -
  have "length (octets a) = 4" by (simp add: octets_def)
  with octet_text [of a] join_length [of 3 "map print_nat (octets a)" "CHR ''.''"]
    join_ascii [of "CHR ''.''" "map print_nat (octets a)"] show ?thesis
    by (simp add: print_v4_def is_ascii_def)
qed

lemma segments_text:
  assumes "set gs \<subseteq> set (segments a)" and "length gs \<le> 8"
  shows "list_all is_ascii (fmt_subslice gs) \<and> length (fmt_subslice gs) \<le> 40"
proof -
  have "d < 16 ^ Suc 3" if "d \<in> set gs" for d
    using that assms(1) to_digits_bound [of 65536 d 8 "unat a"] by (auto simp: segments_def)
  with print_base_length [of 16 _ 3] have len: "list_all (\<lambda>x. length x \<le> 4) (map (print_base 16) gs)"
    by (simp add: list_all_iff)
  have "list_all (list_all is_ascii) (map (print_base 16) gs)"
    using print_base_ascii [of 16] by (simp add: list_all_iff)
  with join_ascii [of "CHR '':''" "map (print_base 16) gs"] join_length [OF len, of "CHR '':''"] assms(2) show ?thesis
    by (simp add: fmt_subslice_def is_ascii_def)
qed

lemma print_v6_text: "list_all is_ascii (print_v6 a) \<and> length (print_v6 a) \<le> 82"
proof (cases "to_ipv4_mapped a")
  case (Some v4)
  with print_v4_text [of v4] show ?thesis by (simp add: print_v6_def is_ascii_def)
next
  case None
  obtain start len where span: "zero_span 0 (0, 0) (0, 0) (segments a) = (start, len)" by force
  have "length (segments a) = 8" by (simp add: segments_def)
  then have "set (take start (segments a)) \<subseteq> set (segments a)" "length (take start (segments a)) \<le> 8"
    "set (drop (start + len) (segments a)) \<subseteq> set (segments a)" "length (drop (start + len) (segments a)) \<le> 8"
    by (auto dest: in_set_takeD in_set_dropD)
  from segments_text [OF this(1,2)] segments_text [OF this(3,4)] segments_text [of "segments a" a] None span show ?thesis
    by (simp add: print_v6_def is_ascii_def segments_def Let_def)
qed

lemma print_ip_text: "list_all is_ascii (print_ip ip) \<and> length (print_ip ip) \<le> 82"
proof (cases ip)
  case (V4 a)
  then show ?thesis using print_v4_text [of a] by simp
next
  case (V6 a)
  then show ?thesis using print_v6_text [of a] by simp
qed

lemma print_sa_text: "list_all is_ascii (print_sa sa)"
  using print_v4_text print_v6_text print_base_ascii [of 10]
  by (cases sa) (simp_all add: print_u16_def is_ascii_def)


section \<open>What the codec needs of an event\<close>

text \<open>Documented of \<^verbatim>\<open>new TextDecoder()\<close>, that it undoes UTF-8 and removes a byte order mark at the start, and of \<^verbatim>\<open>serde_json\<close>
  and \<^verbatim>\<open>JSON.parse\<close>, that a list of UTF-8 strings comes back.\<close>

definition has_bom :: "str \<Rightarrow> bool" where
  "has_bom s \<longleftrightarrow> take 3 (as_bytes s) = [0xEF, 0xBB, 0xBF]"

definition strip_bom :: "str \<Rightarrow> str" where
  "strip_bom s = (if has_bom s then drop 3 s else s)"

definition decodes_utf8 :: "js_lib \<Rightarrow> bool" where
  "decodes_utf8 js \<longleftrightarrow> (\<forall>s. is_utf8 s \<longrightarrow> text_decode js (as_bytes s) = strip_bom s)"

definition lists_come_back :: "codec_lib \<Rightarrow> js_lib \<Rightarrow> bool" where
  "lists_come_back lib js \<longleftrightarrow>
     (\<forall>strs. list_all is_utf8 strs \<longrightarrow> (\<exists>bs. json_to_vec lib strs = Some bs \<and> json_parse js (text_decode js bs) = Some strs))"

text \<open>What is left to the event: the text of a failure, which other code may have supplied, and the size of an identifier.
  A Rust string is UTF-8, but it may begin with a byte order mark.\<close>

fun plain_event :: "event \<Rightarrow> bool" where
  "plain_event (Error i msg) \<longleftrightarrow> is_utf8 msg \<and> \<not> has_bom msg"
| "plain_event (Denied i msg) \<longleftrightarrow> is_utf8 msg \<and> \<not> has_bom msg"
| "plain_event (Accepted i conn_id remote) \<longleftrightarrow> unat conn_id < 2 ^ 53"
| "plain_event _ \<longleftrightarrow> True"

lemma has_bom_ascii: "list_all is_ascii s \<Longrightarrow> \<not> has_bom s"
proof (cases s)
  case (Cons a rest)
  assume "list_all is_ascii s"
  with Cons have "of_char a < (128 :: nat)" by (simp add: is_ascii_def)
  then have "unat (of_nat (of_char a) :: u8) \<noteq> unat (0xEF :: u8)" by (simp add: unat_of_nat)
  then have "(of_nat (of_char a) :: u8) \<noteq> 0xEF" by (rule contrapos_nn) simp
  with Cons show ?thesis by (simp add: has_bom_def as_bytes_def)
qed (simp add: has_bom_def as_bytes_def)

lemma typed_carried:
  assumes "event_typed env ev" and "plain_event ev" and "b64_roundtrip (codec env)" and "decodes_utf8 js"
    and "lists_come_back (codec env) js"
  shows "carried (codec env) js ev"
proof -
  have decoded: "text_decode js (as_bytes s) = s" if "list_all is_ascii s" for s
    using assms(4) is_utf8_ascii [OF that] has_bom_ascii [OF that] by (simp add: decodes_utf8_def strip_bom_def)
  show ?thesis
  proof (cases ev)
    case (DataFrom i d addr port)
    with assms(1) obtain ip where "addr = print_ip ip" by auto
    with DataFrom assms print_ip_text [of ip] decoded show ?thesis by (auto simp: payload_of_def b64_roundtripD)
  next
    case (Resolved i addrs)
    have "is_utf8 (print_ip ip)" for ip using is_utf8_ascii print_ip_text by blast
    with Resolved assms(1) have "list_all is_utf8 addrs" by (auto simp: list_all_iff)
    with assms(5) obtain bs where "json_to_vec (codec env) addrs = Some bs" "json_parse js (text_decode js bs) = Some addrs"
      unfolding lists_come_back_def by blast
    with Resolved show ?thesis by simp
  qed (use assms decoded print_sa_text in \<open>auto simp: payload_of_def b64_roundtripD decodes_utf8_def strip_bom_def\<close>)
qed

text \<open>C11. Every event a session raises is well formed, over all interleavings: the payload of a data event encodes what one read
  filled, at most 16 KiB from a stream and 64 KiB from a datagram; addresses are printed by the standard library;
  a successful lookup has one. So the client sees every event the server raised as the server meant it, given that
  the text of a failure is UTF-8 and does not begin with a byte order mark (which \<^verbatim>\<open>TextDecoder\<close> removes) and that the
  identifiers of the socket and of an accepted connection are below 2 to the 53.\<close>

theorem raised_events_are_well_formed:
  assumes "reachable (started config) (session_step env) s" and "b64_roundtrip (codec env)" and "decodes_utf8 js"
    and "lists_come_back (codec env) js" and "ev \<in> set (tx (ctx s))"
  shows "event_typed env ev \<and> (plain_event ev \<and> unat (event_id ev) < 2 ^ 53 \<longrightarrow>
    handleBinaryEvent js (encode_event (codec env) ev) = Called (client_view (codec env) ev))"
proof -
  have "event_typed env ev"
    using typed_inv.good_reachable [OF assms(1)] assms(5) by (simp add: typed_def list_all_iff)
  with typed_carried [OF this _ assms(2-4)] handle_event_frame [of "codec env" js ev] show ?thesis by blast
qed


text \<open>A library in which lists come back: every character is marked by a one, every string ended by a zero.\<close>

definition mark :: "str \<Rightarrow> str" where
  "mark s = concat (map (\<lambda>c. [CHR 0x01, c]) s) @ [CHR 0x00]"

fun unmark :: "str \<Rightarrow> str \<Rightarrow> str list" where
  "unmark acc (m # c # rest) = (if m = CHR 0x00 then acc # unmark [] (c # rest) else unmark (acc @ [c]) rest)"
| "unmark acc [m] = [acc]"
| "unmark acc [] = []"

definition marking_env :: "(ip_addr \<times> nat) env" where
  "marking_env = demo_env\<lparr>codec := demo_lib\<lparr>json_to_vec := (\<lambda>strs. Some (as_bytes (concat (map mark strs))))\<rparr>\<rparr>"

definition marking_js :: js_lib where
  "marking_js = \<lparr>text_decode = (\<lambda>bs. strip_bom (str_of_bytes bs)), json_parse = (\<lambda>s. Some (unmark [] s))\<rparr>"

lemma unmark_string: "unmark acc (mark s @ rest) = unmark (acc @ s) (CHR 0x00 # rest)"
  by (induction s arbitrary: acc) (simp_all add: mark_def)

lemma unmark_marks: "unmark [] (concat (map mark strs)) = strs"
proof (induction strs)
  case (Cons s strs)
  have "unmark acc (CHR 0x00 # rest) = acc # unmark [] rest" for acc rest by (cases rest) simp_all
  with Cons show ?case by (simp add: unmark_string)
qed simp

lemma mark_no_bom: "\<not> has_bom (concat (map mark strs))"
proof (cases strs)
  case (Cons s rest)
  then show ?thesis by (cases s) (simp_all add: has_bom_def mark_def as_bytes_def)
qed (simp add: has_bom_def as_bytes_def)

lemma marking_lawful:
  "b64_roundtrip (codec marking_env)" "decodes_utf8 marking_js" "lists_come_back (codec marking_env) marking_js"
  by (simp_all add: marking_env_def marking_js_def b64_roundtrip_def demo_lib_def decodes_utf8_def lists_come_back_def
      unmark_marks strip_bom_def mark_no_bom)

lemma resolve_run:
  assumes "receive (codec env) msg = Request (Resolve i name)" and "dns_resolve lookup name = Inr addrs"
  shows "\<exists>s. reachable (started config) (session_step env) s \<and> tx (ctx s) = [Resolved i addrs]"
proof -
  have "visits env config (Ctx_new config) Ready ([] @ Resolving i name # [])"
    using visits_message [OF visits_new assms(1)] by (simp add: handle_resolve_def)
  from visits_task [OF this task_step.resolved [of _ _ _ _ lookup]] assms(2) show ?thesis
    by (auto simp: resolve_done_def visits_def Ctx_new_def notify_def)
qed

theorem raised_events_are_well_formed_witness:
  "\<exists>s. reachable (started demo_config) (session_step marking_env) s \<and> tx (ctx s) = [Resolved 1 [''10.0.0.1'', ''10.0.0.2'']] \<and>
    handleBinaryEvent marking_js (encode_event (codec marking_env) (Resolved 1 [''10.0.0.1'', ''10.0.0.2''])) =
      Called (DispatchResolve 1 [''10.0.0.1'', ''10.0.0.2''])"
proof -
  let ?ev = "Resolved 1 [''10.0.0.1'', ''10.0.0.2'']"
  have "receive (codec marking_env) (BinaryMsg (js_resolve 1 ''a'')) = Request (Resolve 1 ''a'')"
    "dns_resolve (\<lambda>_. Inr [SockV4 0x0A000001 0, SockV4 0x0A000002 0]) ''a'' = Inr [''10.0.0.1'', ''10.0.0.2'']" by code_simp+
  from resolve_run [OF this] obtain s where
    s: "reachable (started demo_config) (session_step marking_env) s" "tx (ctx s) = [?ev]" by blast
  from raised_events_are_well_formed [OF s(1) marking_lawful, of ?ev] s show ?thesis by (intro exI [of _ s]) simp
qed

section \<open>Identifiers of accepted connections\<close>

text \<open>The connections a session has reported, with their listener, and how many of listener \<open>i\<close>; the numbers one run of
  \<^verbatim>\<open>run_listener\<close> has given, which is told by its shutdown channel; and the numbers it should give.\<close>

fun accepted_ids :: "event list \<Rightarrow> (u64 \<times> u64) list" where
  "accepted_ids [] = []"
| "accepted_ids (Accepted i k _ # evs) = (i, k) # accepted_ids evs"
| "accepted_ids (_ # evs) = accepted_ids evs"

definition accepts :: "u64 \<Rightarrow> event list \<Rightarrow> nat" where
  "accepts i evs = length (filter (\<lambda>p. fst p = i) (accepted_ids evs))"

definition numbers_of :: "chan \<Rightarrow> (chan \<times> u64 \<times> u64) list \<Rightarrow> (u64 \<times> u64) list" where
  "numbers_of ch hist = map snd (filter (\<lambda>g. fst g = ch) hist)"

definition nth_id :: "u64 \<Rightarrow> nat \<Rightarrow> u64" where
  "nth_id i n = first_conn_id i + of_nat n"

definition first_ids :: "u64 \<Rightarrow> nat \<Rightarrow> (u64 \<times> u64) list" where
  "first_ids i n = map (\<lambda>m. (i, nth_id i m)) [0..<n]"

text \<open>The listeners of a session: channel, identifier and the next number.\<close>

fun listens :: "task \<Rightarrow> (chan \<times> u64 \<times> u64) list" where
  "listens (Accepting i _ ch n) = [(ch, i, n)]"
| "listens (AcceptRegistering i _ ch n _ _ _) = [(ch, i, n)]"
| "listens _ = []"

fun main_listens :: "main_state \<Rightarrow> (chan \<times> u64 \<times> u64) list" where
  "main_listens (BindRegistering i _ ch) = [(ch, i, first_conn_id i)]"
| "main_listens _ = []"

definition listeners :: "task list \<Rightarrow> (chan \<times> u64 \<times> u64) list" where
  "listeners ts = concat (map listens ts)"

text \<open>Every run of \<^verbatim>\<open>run_listener\<close> has given the first numbers of its identifier, and one that runs gives the next one next.\<close>

definition counted_up :: "(chan \<times> u64 \<times> u64) list \<Rightarrow> chan \<Rightarrow> (chan \<times> u64 \<times> u64) list \<Rightarrow> bool" where
  "counted_up hist upper ls \<longleftrightarrow>
     distinct (map fst ls) \<and> (\<forall>p \<in> set hist \<union> set ls. fst p < upper) \<and>
     (\<forall>(ch, i, n) \<in> set ls. \<exists>m. numbers_of ch hist = first_ids i m \<and> n = nth_id i m) \<and>
     (\<forall>ch. \<exists>i m. numbers_of ch hist = first_ids i m)"

definition ids_given :: "'net ctx \<Rightarrow> main_state \<Rightarrow> task list \<Rightarrow> bool" where
  "ids_given c m ts \<longleftrightarrow>
     accepted_ids (tx c) = map snd (given c) \<and> counted_up (given c) (next_chan c) (main_listens m @ listeners ts)"

lemma accepted_ids_append [simp]: "accepted_ids (xs @ ys) = accepted_ids xs @ accepted_ids ys"
  by (induction xs rule: accepted_ids.induct) auto

lemma accepted_ids_failures [simp]:
  "accepted_ids (event_error i msg # evs) = accepted_ids evs" "accepted_ids (event_denied i msg # evs) = accepted_ids evs"
  by (simp_all add: event_error_def event_denied_def)

lemma listeners_simps [simp]:
  "listeners [] = []" "listeners (t # ts) = listens t @ listeners ts" "listeners (xs @ ys) = listeners xs @ listeners ys"
  by (simp_all add: listeners_def)

lemma first_ids_simps [simp]:
  "first_ids i 0 = []" "first_ids i (Suc n) = first_ids i n @ [(i, nth_id i n)]" "length (first_ids i n) = n"
  by (simp_all add: first_ids_def)

lemma nth_id_Suc: "nth_id i n + 1 = nth_id i (Suc n)" and nth_id_0: "first_conn_id i = nth_id i 0"
  by (simp_all add: nth_id_def)

lemma numbers_of_snoc [simp]: "numbers_of ch (hist @ [(k, p)]) = numbers_of ch hist @ (if k = ch then [p] else [])"
  by (simp add: numbers_of_def)

lemma numbers_of_fresh: "counted_up hist upper ls \<Longrightarrow> numbers_of upper hist = []"
  by (force simp: counted_up_def numbers_of_def filter_empty_conv)

lemma counted_up_perm: "counted_up hist upper ls \<Longrightarrow> mset ls' = mset ls \<Longrightarrow> counted_up hist upper ls'"
  using mset_eq_imp_distinct_iff [of "map fst ls'" "map fst ls"] mset_eq_setD [of ls' ls] by (simp add: counted_up_def)

lemma counted_up_fewer: "counted_up hist upper (old @ ls) \<Longrightarrow> upper \<le> upper' \<Longrightarrow> counted_up hist upper' ls"
  by (auto simp: counted_up_def dest: order.strict_trans2)

lemma counted_up_numbers: "counted_up hist upper ls \<Longrightarrow> \<exists>i m. numbers_of ch hist = first_ids i m"
  by (simp add: counted_up_def)

lemma counted_up_later: "counted_up hist upper ls \<Longrightarrow> upper \<le> upper' \<Longrightarrow> counted_up hist upper' ls"
  using counted_up_fewer [of hist upper "[]"] by simp

text \<open>A new listener starts with the first number of its identifier; one that accepts gives its number and goes on to the next.\<close>

lemma counted_up_new:
  assumes "counted_up hist upper ls"
  shows "counted_up hist (Suc upper) ((upper, i, first_conn_id i) # ls)"
proof -
  have "upper \<notin> fst ` set ls" using assms by (auto simp: counted_up_def)
  moreover have "\<exists>m. numbers_of upper hist = first_ids i m \<and> first_conn_id i = nth_id i m"
    by (rule exI [of _ 0]) (simp add: numbers_of_fresh [OF assms] nth_id_0)
  moreover have "\<forall>p \<in> set hist \<union> set ((upper, i, first_conn_id i) # ls). fst p < Suc upper"
    using assms by (auto simp: counted_up_def intro: less_SucI)
  ultimately show ?thesis using assms unfolding counted_up_def by (simp only: list.map distinct.simps set_simps ball_simps prod.case fst_conv image_set) blast
qed

lemma counted_up_accept:
  assumes "counted_up hist upper ((ch, i, n) # ls)"
  shows "counted_up (hist @ [(ch, i, n)]) (Suc upper) ((ch, i, n + 1) # ls)"
proof -
  let ?hist = "hist @ [(ch, i, n)]"
  from assms obtain m where m: "numbers_of ch hist = first_ids i m" "n = nth_id i m" by (auto simp: counted_up_def)
  have now: "numbers_of ch ?hist = first_ids i (Suc m)" "n + 1 = nth_id i (Suc m)"
    using m by (simp_all add: nth_id_Suc)
  have other: "k \<noteq> ch \<Longrightarrow> numbers_of k ?hist = numbers_of k hist" for k by simp
  have "\<exists>j m. numbers_of k ?hist = first_ids j m" for k
    using now(1) other [of k] counted_up_numbers [OF assms, of k] by (cases "k = ch") metis+
  moreover have "\<exists>m. numbers_of k ?hist = first_ids j m \<and> l = nth_id j m" if "(k, j, l) \<in> set ((ch, i, n + 1) # ls)" for k j l
  proof (cases "(k, j, l) \<in> set ls")
    case True
    with assms have "k \<noteq> ch" "\<exists>m. numbers_of k hist = first_ids j m \<and> l = nth_id j m" by (force simp: counted_up_def)+
    with other show ?thesis by metis
  next
    case False
    with that have "k = ch" "j = i" "l = n + 1" by auto
    with now show ?thesis by blast
  qed
  moreover have "distinct (map fst ((ch, i, n + 1) # ls))" "\<forall>p \<in> set ?hist \<union> set ((ch, i, n + 1) # ls). fst p < Suc upper"
    using assms by (auto simp: counted_up_def intro: less_SucI)
  ultimately show ?thesis unfolding counted_up_def by blast
qed

lemma task_step_ids:
  assumes "task_step env (c, t) (c', new)"
  obtains (kept) "given c' = given c" "accepted_ids (tx c') = accepted_ids (tx c)" "next_chan c \<le> next_chan c'"
      "listeners new = [] \<or> listeners new = listens t"
  | (accept) ch i n where "listens t = [(ch, i, n)]" "listeners new = [(ch, i, n + 1)]" "given c' = given c @ [(ch, i, n)]"
      "accepted_ids (tx c') = accepted_ids (tx c) @ [(i, n)]" "next_chan c' = Suc (next_chan c)"
  using assms
proof (cases rule: task_step.cases)
  case (accept i ch n remote ch' l s)
  then show thesis using that(2) by (auto simp: listener_accept_def channel_def)
qed (rule that(1); auto simp: op_defs Let_def split: op_splits elim!: task_cases)+

lemma handler_step_ids:
  assumes "handler_step env (c, m) (c', m', new)"
  obtains (kept) "main_listens m' @ listeners new = [] \<or> main_listens m' @ listeners new = main_listens m" "next_chan c \<le> next_chan c'"
      "given c' = given c" "accepted_ids (tx c') = accepted_ids (tx c)"
  | (opened) i where "main_listens m' @ listeners new = [(next_chan c, i, first_conn_id i)]" "next_chan c' = Suc (next_chan c)"
      "given c' = given c" "accepted_ids (tx c') = accepted_ids (tx c)"
proof -
  have "given c' = given c \<and> accepted_ids (tx c') = accepted_ids (tx c) \<and> next_chan c \<le> next_chan c' \<and>
    (main_listens m' @ listeners new = [] \<or> main_listens m' @ listeners new = main_listens m \<or>
      (\<exists>i. main_listens m' @ listeners new = [(next_chan c, i, first_conn_id i)] \<and> next_chan c' = Suc (next_chan c)))"
    using assms by (cases rule: handler_stepE) (auto simp: op_defs Let_def split: op_splits)
  with that show thesis by blast
qed

lemma dispatch_ids:
  "dispatch env r c = (c', m', new) \<Longrightarrow> given c' = given c \<and> accepted_ids (tx c') = accepted_ids (tx c) \<and>
    next_chan c' = next_chan c \<and> main_listens m' = [] \<and> listeners new = []"
  by (cases r) (auto simp: op_defs Let_def split: op_splits)

lemma ids_task:
  assumes "ids_given c m (xs @ t # ys)" and "task_step env (c, t) (c', new)"
  shows "ids_given c' m (xs @ new @ ys)"
proof -
  let ?rest = "main_listens m @ listeners xs @ listeners ys"
  from assms(1) have old: "counted_up (given c) (next_chan c) (listens t @ ?rest)" "accepted_ids (tx c) = map snd (given c)"
    by (auto simp: ids_given_def intro: counted_up_perm)
  from assms(2) have "counted_up (given c') (next_chan c') (listeners new @ ?rest) \<and> accepted_ids (tx c') = map snd (given c')"
  proof (cases rule: task_step_ids)
    case kept
    from kept(4) have "counted_up (given c) (next_chan c') (listeners new @ ?rest)"
    proof
      assume "listeners new = []"
      with counted_up_fewer [OF old(1) kept(3)] show ?thesis by simp
    next
      assume "listeners new = listens t"
      with counted_up_later [OF old(1) kept(3)] show ?thesis by simp
    qed
    with kept(1,2) old(2) show ?thesis by simp
  next
    case (accept ch i n)
    with old counted_up_accept [of "given c" "next_chan c" ch i n ?rest] show ?thesis by simp
  qed
  then show ?thesis by (auto simp: ids_given_def intro: counted_up_perm)
qed

lemma ids_handler:
  assumes "ids_given c m ts" and "handler_step env (c, m) (c', m', new)"
  shows "ids_given c' m' (ts @ new)"
proof -
  from assms(1) have old: "counted_up (given c) (next_chan c) (main_listens m @ listeners ts)" "accepted_ids (tx c) = map snd (given c)"
    by (simp_all add: ids_given_def)
  then have rest: "counted_up (given c) (next_chan c) (listeners ts)" using counted_up_fewer by blast
  from assms(2) have "counted_up (given c') (next_chan c') ((main_listens m' @ listeners new) @ listeners ts) \<and>
      accepted_ids (tx c') = map snd (given c')"
  proof (cases rule: handler_step_ids)
    case kept
    with old rest counted_up_later show ?thesis by (metis append_Nil)
  next
    case (opened i)
    from counted_up_new [OF rest, of i] show ?thesis unfolding opened using old(2) by simp
  qed
  then show ?thesis by (auto simp: ids_given_def intro: counted_up_perm)
qed

interpretation ids_inv: session_invariant env config ids_given for env :: "'net env" and config
proof
  show "ids_given (Ctx_new config) Ready []"
    by (simp add: ids_given_def Ctx_new_def counted_up_def numbers_of_def) (metis first_ids_simps(1))
  fix c c' :: "'net ctx" and m m' xs t ys ts new r e
  show "ids_given c' m' (ts @ new)" if "ids_given c Ready ts" and "dispatch env r c = (c', m', new)"
    using that(1) dispatch_ids [OF that(2)] by (simp add: ids_given_def)
  show "ids_given c m ts \<Longrightarrow> handler_step env (c, m) (c', m', new) \<Longrightarrow> ids_given c' m' (ts @ new)" by (rule ids_handler)
  show "ids_given c m (xs @ t # ys) \<Longrightarrow> task_step env (c, t) (c', new) \<Longrightarrow> ids_given c' m (xs @ new @ ys)" by (rule ids_task)
  show "ids_given c m ts \<Longrightarrow> shared_step c c' \<Longrightarrow> ids_given c' m ts" by (auto simp: ids_given_def elim!: shared_stepE)
  show "ids_given c Ready ts \<Longrightarrow> ids_given (notify (event_error 0 e) c) Ready ts" by (simp add: ids_given_def)
qed (simp add: ids_given_def)

lemma nth_id_range:
  assumes "unat i < 18446744073709" and "n < 1000000"
  shows "unat (nth_id i n) = unat i * 1000000 + 1 + n"
proof -
  have "nth_id i n = of_nat (unat i * 1000000 + 1 + n)" by (simp add: nth_id_def first_conn_id_def)
  moreover have "unat i * 1000000 + 1 + n < 2 ^ 64" using assms by simp
  ultimately show ?thesis by (simp only: unat_of_nat) simp
qed

text \<open>A number given to a connection is one of as many as the session has reported for its listener's identifier.\<close>

lemma accepted_number:
  assumes "ids_given c m ts" and "(i, k) \<in> set (accepted_ids (tx c))"
  obtains n where "n < accepts i (tx c)" "k = nth_id i n"
proof -
  from assms have log: "accepted_ids (tx c) = map snd (given c)" by (simp add: ids_given_def)
  with assms(2) obtain ch where ch: "(ch, i, k) \<in> set (given c)" by auto
  from assms(1) obtain j m where m: "numbers_of ch (given c) = first_ids j m"
    using counted_up_numbers unfolding ids_given_def by blast
  from ch have "(i, k) \<in> set (numbers_of ch (given c))" by (force simp: numbers_of_def)
  then obtain n where n: "n < m" "j = i" "k = nth_id i n" unfolding m by (auto simp: first_ids_def)
  have "filter (\<lambda>g. fst g = ch) (filter (\<lambda>g. fst (snd g) = i) (given c)) = filter (\<lambda>g. fst g = ch) (given c)"
  proof -
    have "fst (snd g) = i" if "g \<in> set (given c)" "fst g = ch" for g
    proof -
      from that have "snd g \<in> set (numbers_of ch (given c))" by (auto simp: numbers_of_def)
      then show ?thesis unfolding m using n(2) by (auto simp: first_ids_def)
    qed
    then show ?thesis by (auto simp: filter_filter intro: filter_cong)
  qed
  then have "m \<le> length (filter (\<lambda>g. fst (snd g) = i) (given c))"
    using m length_filter_le [of "\<lambda>g. fst g = ch" "filter (\<lambda>g. fst (snd g) = i) (given c)"]
    by (metis first_ids_simps(3) length_map numbers_of_def)
  then have "m \<le> accepts i (tx c)" by (simp add: accepts_def log filter_map comp_def)
  with n(1) have "n < accepts i (tx c)" by simp
  with n(3) that show thesis by blast
qed

text \<open>C23. Accepted connections are numbered one after another: the \<^verbatim>\<open>accepted\<close> events of a session carry the numbers its listeners
  have given, in order, and those of one listener, told by its shutdown channel, are \<open>i * 1000000 + 1\<close>, the next, and so on, for
  its identifier \<open>i\<close>. Those of a listener \<open>i\<close> up to 18446744073708 whose identifier was given at most a million are
  above \<open>i\<close> times a million and at most a million higher. So they meet neither those of another identifier nor the first million
  of the client's own. Both bounds are exact: the next one is the first of listener \<open>i + 1\<close>, and the first of listener 1
  is 1000001, a number the client comes to itself.\<close>

theorem accepted_identifiers_stay_apart:
  assumes "reachable (started config) (session_step env) s"
  shows "accepted_ids (tx (ctx s)) = map snd (given (ctx s)) \<and>
    (\<exists>j. numbers_of ch (given (ctx s)) = first_ids j (length (numbers_of ch (given (ctx s))))) \<and>
    (Accepted i k remote \<in> set (tx (ctx s)) \<and> unat i < 18446744073709 \<and> accepts i (tx (ctx s)) \<le> 1000000 \<longrightarrow>
      unat i * 1000000 < unat k \<and> unat k \<le> (unat i + 1) * 1000000) \<and>
    nth_id i 1000000 = first_conn_id (i + 1) \<and> first_conn_id 1 = 1000001"
proof -
  note ok = ids_inv.good_reachable [OF assms]
  then have log: "accepted_ids (tx (ctx s)) = map snd (given (ctx s))" by (simp add: ids_given_def)
  obtain j m where "numbers_of ch (given (ctx s)) = first_ids j m"
    using ok counted_up_numbers unfolding ids_given_def by blast
  then have numbered: "\<exists>j. numbers_of ch (given (ctx s)) = first_ids j (length (numbers_of ch (given (ctx s))))" by auto
  have range: "unat i * 1000000 < unat k \<and> unat k \<le> (unat i + 1) * 1000000"
    if ev: "Accepted i k remote \<in> set (tx (ctx s))" and bound: "unat i < 18446744073709" "accepts i (tx (ctx s)) \<le> 1000000"
  proof -
    from ev have "(i, k) \<in> set (accepted_ids (tx (ctx s)))" by (auto dest!: split_list)
    from accepted_number [OF ok this] obtain n where "n < accepts i (tx (ctx s))" "k = nth_id i n" .
    with nth_id_range [OF bound(1), of n] bound(2) show ?thesis by (simp add: algebra_simps)
  qed
  have "nth_id i 1000000 = first_conn_id (i + 1)" "first_conn_id 1 = 1000001"
    by (simp_all add: nth_id_def first_conn_id_def algebra_simps)
  with log numbered range show ?thesis by blast
qed

text \<open>A run with one connection and one listener.\<close>

lemma listening_run:
  assumes "max_connections (cfg_policy config) \<noteq> 0" and "\<forall>p. cfg_pool config = Some p \<longrightarrow> idle p = []"
    and "receive (codec env) msg1 = Request (Connect k addr port)"
    and "resolve_and_check (net env) (cfg_policy config) lookup addr port = Inr t"
    and "receive (codec env) msg2 = Request (Bind b host listen_port)" and "check_bind (cfg_policy config) listen_port = Inr ()"
  shows "\<exists>c. visits env config c Ready [Bridging k 0 0 True Reading Waiting, Accepting b l 1 (first_conn_id b)] \<and>
    sockets c = hm_insert b (Listener 1) [(k, Tcp 0)] \<and> queued c = [] \<and> next_chan c = 2 \<and> closed_rx c = [] \<and>
    tx c = [Connected k, Listening b listen_port]"
proof -
  from connects_run [OF assms(1,2), of env "\<lambda>_. msg1" "\<lambda>_. k" addr port lookup t 1] assms(3,4)
  obtain c0 where v: "visits env config c0 Ready ([] @ Registering k 0 0 # [])" and c0: "dialled (\<lambda>_. k) t 1 config c0" by auto
  define c1 where "c1 = register_tcp k 0 c0"
  have c1: "sockets c1 = [(k, Tcp 0)]" "queued c1 = []" "next_chan c1 = 1" "policy c1 = cfg_policy config" "tx c1 = [Connected k]"
    "closed_rx c1 = []"
    using c0 by (simp_all add: c1_def register_tcp_def dialled_def hm_insert_def)
  from visits_task [OF v task_step.register]
  have v: "visits env config c1 Ready [Bridging k 0 0 True Reading Waiting]" by (simp add: c1_def)
  have "dispatch env (Bind b host listen_port) c1 = (c1, BindOpening b host listen_port, [])"
    using assms(6) c1 by (simp add: handle_bind_def)
  from visits_message [OF v assms(5) this]
  have v: "visits env config c1 (BindOpening b host listen_port) [Bridging k 0 0 True Reading Waiting]" by simp
  obtain c2 where c2: "bind_open (Inr (l, None)) b host listen_port c1 = (c2, BindRegistering b l 1, [])"
    "sockets c2 = sockets c1" "queued c2 = []" "next_chan c2 = 2" "tx c2 = [Connected k, Listening b listen_port]"
    "closed_rx c2 = []"
    using c1 by (auto simp: bind_open_def channel_def Let_def)
  have "handler_step env (c1, BindOpening b host listen_port) (c2, BindRegistering b l 1, [])"
    using handler_step.bind_open [of env c1 b host listen_port "Inr (l, None)"] c2(1) by simp
  from visits_handler [OF v this]
  have v: "visits env config c2 (BindRegistering b l 1) [Bridging k 0 0 True Reading Waiting]" by simp
  define c3 where "c3 = c2\<lparr>sockets := hm_insert b (Listener 1) (sockets c2)\<rparr>"
  have "handler_step env (c2, BindRegistering b l 1) (c3, Ready, [Accepting b l 1 (first_conn_id b)])"
    using handler_step.bind_register [of env c2 b l 1] by (simp add: bind_register_def c3_def)
  from visits_handler [OF v this] c1 c2 show ?thesis by (intro exI [of _ c3]) (simp add: c3_def)
qed

text \<open>It goes on to accept a connection, whose identifier is taken.\<close>

lemma takeover_run:
  assumes "max_connections (cfg_policy config) \<noteq> 0" and "\<forall>p. cfg_pool config = Some p \<longrightarrow> idle p = []"
    and "receive (codec env) msg1 = Request (Connect (first_conn_id b) addr port)"
    and "resolve_and_check (net env) (cfg_policy config) lookup addr port = Inr t"
    and "receive (codec env) msg2 = Request (Bind b host listen_port)" and "check_bind (cfg_policy config) listen_port = Inr ()"
    and "b \<noteq> first_conn_id b"
  shows "\<exists>c. visits env config c Ready
      [Bridging (first_conn_id b) 0 0 True Reading Waiting, Accepting b l 1 (nth_id b 1),
       Bridging (first_conn_id b) x 2 False Reading Waiting] \<and>
    hm_get (sockets c) (first_conn_id b) = Some (Tcp 2) \<and> sender_dropped c 0 \<and> queued c = [] \<and> closed_rx c = [] \<and>
    tx c = [Connected (first_conn_id b), Listening b listen_port, Accepted b (first_conn_id b) (print_sa t)]"
proof -
  let ?k = "first_conn_id b"
  from listening_run [OF assms(1-6), of l] obtain c3 where
    v: "visits env config c3 Ready ([Bridging ?k 0 0 True Reading Waiting] @ Accepting b l 1 ?k # [])" and
    c3: "sockets c3 = hm_insert b (Listener 1) [(?k, Tcp 0)]" "queued c3 = []" "next_chan c3 = 2"
      "tx c3 = [Connected ?k, Listening b listen_port]" "closed_rx c3 = []" by auto
  obtain c4 where c4: "listener_accept b 1 ?k t c3 = (2, c4)" "sockets c4 = sockets c3" "queued c4 = []"
      "tx c4 = tx c3 @ [Accepted b ?k (print_sa t)]" "closed_rx c4 = []"
    using c3 by (auto simp: listener_accept_def channel_def)
  from visits_task [OF v task_step.accept [OF c4(1)]]
  have v: "visits env config c4 Ready ([Bridging ?k 0 0 True Reading Waiting] @ AcceptRegistering b l 1 (?k + 1) ?k x 2 # [])" by simp
  define c5 where "c5 = register_tcp ?k 2 c4"
  have "hm_get (sockets c5) ?k = Some (Tcp 2)" "sender_dropped c5 0" "queued c5 = []" "closed_rx c5 = []"
    "tx c5 = [Connected ?k, Listening b listen_port, Accepted b ?k (print_sa t)]"
    using assms(7) c4 c3 by (auto simp: sender_dropped_def hm_insert_def hm_get_def c5_def register_tcp_def)
  moreover have "task_step env (c4, AcceptRegistering b l 1 (?k + 1) ?k x 2)
      (c5, [Accepting b l 1 (nth_id b 1), Bridging ?k x 2 False Reading Waiting])"
    using task_step.accept_register [of env c4 b l 1 "?k + 1" ?k x 2] by (simp add: listener_insert_def c5_def nth_id_def)
  from visits_task [OF v this] have "visits env config c5 Ready
      [Bridging ?k 0 0 True Reading Waiting, Accepting b l 1 (nth_id b 1), Bridging ?k x 2 False Reading Waiting]" by simp
  ultimately show ?thesis by blast
qed

text \<open>C33. An accepted connection can take over an open one: when a client has a connection under the number a listener of its
  session gives to its first connection (1000001 for listener 1), the accepted connection replaces it in the map;
  what the client sends on its connection from then on is queued for the accepted peer and not for its own.\<close>

theorem accepted_connection_takes_over:
  assumes "max_connections (cfg_policy config) \<noteq> 0" and "\<forall>p. cfg_pool config = Some p \<longrightarrow> idle p = []"
    and "receive (codec env) msg1 = Request (Connect (first_conn_id b) addr port)"
    and "resolve_and_check (net env) (cfg_policy config) lookup addr port = Inr t"
    and "receive (codec env) msg2 = Request (Bind b host listen_port)" and "check_bind (cfg_policy config) listen_port = Inr ()"
    and "b \<noteq> first_conn_id b"
    and "receive (codec env) msg3 = Request (Send (first_conn_id b) d)" and "b64_decode (codec env) d = Some bytes"
  shows "\<exists>s. reachable (started config) (session_step env) s \<and>
    Bridging (first_conn_id b) 0 0 True Reading Waiting \<in> set (tasks s) \<and>
    Bridging (first_conn_id b) x 2 False Reading Waiting \<in> set (tasks s) \<and>
    queue_of (ctx s) 0 = [] \<and> queue_of (ctx s) 2 = [bytes]"
proof -
  from takeover_run [OF assms(1-7), of 0 x] obtain c where v: "visits env config c Ready
      [Bridging (first_conn_id b) 0 0 True Reading Waiting, Accepting b 0 1 (nth_id b 1),
       Bridging (first_conn_id b) x 2 False Reading Waiting]"
    and c: "hm_get (sockets c) (first_conn_id b) = Some (Tcp 2)" "queued c = []" "closed_rx c = []" by blast
  obtain c' where "dispatch env (Send (first_conn_id b) d) c = (c', Ready, [])" "queue_of c' 0 = []" "queue_of c' 2 = [bytes]"
    using c assms(9) by (auto simp: handle_send_def queue_of_def Let_def)
  with visits_message [OF v assms(8) this(1)] show ?thesis by (auto simp: visits_def)
qed

lemma demo_takeover:
  "receive (codec demo_env) (BinaryMsg (js_connect 1000001 ''8.8.8.8'' 53)) = Request (Connect (first_conn_id 1) ''8.8.8.8'' 53)"
  "receive (codec demo_env) (BinaryMsg (js_bind 1 ''0.0.0.0'' 3000)) = Request (Bind 1 ''0.0.0.0'' 3000)"
  "receive (codec demo_env) (BinaryMsg (js_send 1000001 [104, 105])) = Request (Send (first_conn_id 1) ''hi'')"
  "b64_decode (codec demo_env) ''hi'' = Some [104, 105]" "(1 :: u64) \<noteq> first_conn_id 1"
  "check_bind (cfg_policy demo_config) 3000 = Inr ()"
  by code_simp+

theorem accepted_connection_takes_over_witness:
  "\<exists>s. reachable (started demo_config) (session_step demo_env) s \<and>
    Bridging 1000001 0 0 True Reading Waiting \<in> set (tasks s) \<and> Bridging 1000001 7 2 False Reading Waiting \<in> set (tasks s) \<and>
    queue_of (ctx s) 0 = [] \<and> queue_of (ctx s) 2 = [[104, 105]]"
  using accepted_connection_takes_over [OF demo_policy demo_idle demo_takeover(1) demo_approved demo_takeover(2,6,5,3,4), of 7]
  by (simp add: first_conn_id_def)

theorem accepted_identifiers_stay_apart_witness:
  "\<exists>s. reachable (started demo_config) (session_step demo_env) s \<and>
    accepted_ids (tx (ctx s)) = [(1, 1000001), (1, 1000002)] \<and> map snd (given (ctx s)) = [(1, 1000001), (1, 1000002)] \<and>
    (\<exists>j. numbers_of 1 (given (ctx s)) = first_ids j (length (numbers_of 1 (given (ctx s))))) \<and>
    1000000 < unat (1000002 :: u64) \<and> unat (1000002 :: u64) \<le> 2000000"
proof -
  let ?r = "SockV4 0x08080808 53"
  from takeover_run [OF demo_policy demo_idle demo_takeover(1) demo_approved demo_takeover(2,6,5), of 0 7]
  obtain c where v: "visits demo_env demo_config c Ready ([Bridging (first_conn_id 1) 0 0 True Reading Waiting] @
      Accepting 1 0 1 (nth_id 1 1) # [Bridging (first_conn_id 1) 7 2 False Reading Waiting])"
    and c: "tx c = [Connected (first_conn_id 1), Listening 1 3000, Accepted 1 (first_conn_id 1) (print_sa ?r)]" by auto
  obtain ch c' where c': "listener_accept 1 1 (nth_id 1 1) ?r c = (ch, c')" by (cases "listener_accept 1 1 (nth_id 1 1) ?r c")
  then have log: "tx c' = tx c @ [Accepted 1 (nth_id 1 1) (print_sa ?r)]" by (auto simp: listener_accept_def channel_def)
  from visits_task [OF v task_step.accept [OF c']] obtain s where
    s: "reachable (started demo_config) (session_step demo_env) s" "tx (ctx s) = tx c'" by (auto simp: visits_def)
  have ids: "accepted_ids (tx (ctx s)) = [(1, 1000001), (1, 1000002)]"
    by (simp add: s(2) log c first_conn_id_def nth_id_def)
  have "Accepted 1 1000002 (print_sa ?r) \<in> set (tx (ctx s))" "accepts 1 (tx (ctx s)) \<le> 1000000"
    by (simp_all add: s(2) log c first_conn_id_def nth_id_def accepts_def)
  with accepted_identifiers_stay_apart [OF s(1), of 1 1 1000002 "print_sa ?r"] ids s(1) show ?thesis
    by (intro exI [of _ s]) auto
qed

end
