(* ===== verification/Base64.thy ===== *)
theory Base64
  imports Utf8
begin

text \<open>
  Payloads of the JSON protocol, from \<^verbatim>\<open>client/wasmnet-client.js\<close>: \<^verbatim>\<open>_encodeBinary\<close> and \<^verbatim>\<open>_decodeBinary\<close> over the
  browser's \<^verbatim>\<open>btoa\<close> and \<^verbatim>\<open>atob\<close>, and the two ways in which \<^verbatim>\<open>send\<close> turns its argument into a payload. A JavaScript string
  is the list of its UTF-16 code units; the exceptions of \<^verbatim>\<open>btoa\<close> and \<^verbatim>\<open>atob\<close> are the \<^const>\<open>None\<close> of an option.
\<close>

section \<open>The encoding\<close>

text \<open>The digits are A to Z, a to z, 0 to 9, + and /.\<close>

definition b64_char :: "nat \<Rightarrow> char" where
  "b64_char n =
     (if n < 26 then char_of (n + 65) else if n < 52 then char_of (n + 71) else if n < 62 then char_of (n - 4)
      else if n = 62 then CHR ''+'' else CHR ''/'')"

definition b64_value :: "char \<Rightarrow> nat option" where
  "b64_value c =
     (let n = of_char c :: nat in
      if 65 \<le> n \<and> n \<le> 90 then Some (n - 65) else if 97 \<le> n \<and> n \<le> 122 then Some (n - 71)
      else if 48 \<le> n \<and> n \<le> 57 then Some (n + 4) else if c = CHR ''+'' then Some 62
      else if c = CHR ''/'' then Some 63 else None)"

text \<open>Three bytes are four digits; one or two bytes at the end are two or three digits, the last one with zeros below.\<close>

fun b64_digits :: "u8 list \<Rightarrow> nat list" where
  "b64_digits (a # b # c # rest) =
     (let n = unat a * 65536 + unat b * 256 + unat c in
      n div 262144 # n div 4096 mod 64 # n div 64 mod 64 # n mod 64 # b64_digits rest)"
| "b64_digits [a, b] =
     (let n = unat a * 256 + unat b in [n div 1024, n div 16 mod 64, n mod 16 * 4])"
| "b64_digits [a] = [unat a div 4, unat a mod 4 * 16]"
| "b64_digits [] = []"

definition base64 :: "u8 list \<Rightarrow> str" where
  "base64 bytes = map b64_char (b64_digits bytes) @ replicate ((3 - length bytes mod 3) mod 3) CHR ''=''"

section \<open>The browser's functions\<close>

definition btoa :: "nat list \<Rightarrow> str option" where
  "btoa units = (if list_all (\<lambda>u. u < 256) units then Some (base64 (map of_nat units)) else None)"

fun b64_bytes :: "nat list \<Rightarrow> nat list" where
  "b64_bytes (p # q # r # s # rest) =
     (let n = p * 262144 + q * 4096 + r * 64 + s in
      n div 65536 # n div 256 mod 256 # n mod 256 # b64_bytes rest)"
| "b64_bytes [p, q, r] = (let n = p * 4096 + q * 64 + r in [n div 1024, n div 4 mod 256])"
| "b64_bytes [p, q] = [(p * 64 + q) div 16]"
| "b64_bytes _ = []"

definition ascii_white :: "char \<Rightarrow> bool" where
  "ascii_white c \<longleftrightarrow> c \<in> {CHR 0x09, CHR 0x0A, CHR 0x0C, CHR 0x0D, CHR '' ''}"

text \<open>At most two trailing padding characters are dropped, if the length is a multiple of four.\<close>

definition drop_padding :: "str \<Rightarrow> str" where
  "drop_padding s =
     (if length s mod 4 = 0 then
        let r = rev s in
        rev (case r of
          c # d # rest \<Rightarrow> if c = CHR ''='' then (if d = CHR ''='' then rest else d # rest) else r
        | _ \<Rightarrow> r)
      else s)"

definition atob :: "str \<Rightarrow> nat list option" where
  "atob s =
     (let t = drop_padding (filter (\<lambda>c. \<not> ascii_white c) s); vs = map b64_value t in
      if length t mod 4 = 1 \<or> None \<in> set vs then None else Some (b64_bytes (map the vs)))"

definition encodeBinary :: "u8 list \<Rightarrow> str" where
  "encodeBinary bytes = the (btoa (map unat bytes))"

definition decodeBinary :: "str \<Rightarrow> u8 list option" where
  "decodeBinary b64 = map_option (map of_nat) (atob b64)"

section \<open>Decoding undoes encoding\<close>

lemma b64_char_code:
  "n < 64 \<Longrightarrow> (of_char (b64_char n) :: nat) =
    (if n < 26 then n + 65 else if n < 52 then n + 71 else if n < 62 then n - 4 else if n = 62 then 43 else 47)"
  by (simp add: b64_char_def)

lemma b64_char_facts:
  assumes "n < 64"
  shows "b64_value (b64_char n) = Some n" and "\<not> ascii_white (b64_char n)" and "CHR ''='' \<noteq> b64_char n"
proof -
  show "b64_value (b64_char n) = Some n"
  proof (cases "n < 62")
    case True
    then show ?thesis by (auto simp: b64_value_def b64_char_code Let_def)
  next
    case False
    with assms have "n = 62 \<or> n = 63" by linarith
    then show ?thesis by (auto simp: b64_value_def b64_char_def)
  qed
  have "43 \<le> (of_char (b64_char n) :: nat)" "(of_char (b64_char n) :: nat) \<noteq> 61"
    using assms by (auto simp: b64_char_code)
  moreover have "(of_char (CHR ''='') :: nat) = 61" by simp
  ultimately show "\<not> ascii_white (b64_char n)" "CHR ''='' \<noteq> b64_char n" by (auto simp: ascii_white_def, metis)
qed

lemma unat_u8: "unat (a :: u8) < 256"
  using unat_lt_2p [of a] by simp

lemma b64_digits_bound: "list_all (\<lambda>n. n < 64) (b64_digits bytes)"
proof (induction bytes rule: b64_digits.induct)
  case (1 a b c rest)
  then show ?case using unat_u8 [of a] unat_u8 [of b] unat_u8 [of c] by (simp add: Let_def)
next
  case (2 a b)
  then show ?case using unat_u8 [of a] unat_u8 [of b] by (simp add: Let_def)
next
  case (3 a)
  then show ?case using unat_u8 [of a] by simp
qed simp

lemma base_64_places:
  "n div 262144 * 262144 + n div 4096 mod 64 * 4096 + n div 64 mod 64 * 64 + n mod 64 = (n :: nat)"
proof -
  have "n div 64 div 64 = n div 4096" "n div 4096 div 64 = n div 262144"
    by (simp_all flip: div_mult2_eq)
  then have "n div 64 = n div 4096 * 64 + n div 64 mod 64" "n div 4096 = n div 262144 * 64 + n div 4096 mod 64"
    by (metis div_mult_mod_eq)+
  moreover have "n = n div 64 * 64 + n mod 64" by simp
  ultimately show ?thesis by linarith
qed

lemma base_64_places2: "n div 1024 * 4096 + n div 16 mod 64 * 64 + n mod 16 * 4 = (n * 4 :: nat)"
proof -
  have "n div 16 div 64 = n div 1024" by (simp flip: div_mult2_eq)
  then have "n div 16 = n div 1024 * 64 + n div 16 mod 64" by (metis div_mult_mod_eq)
  moreover have "n = n div 16 * 16 + n mod 16" by simp
  ultimately show ?thesis by linarith
qed

lemma byte_place:
  assumes "c < (256 :: nat)"
  shows "(x * 256 + c) div 256 = x" and "(x * 256 + c) mod 256 = c"
  using assms by simp_all

lemma byte_places:
  assumes "b < (256 :: nat)" and "c < 256"
  shows "(a * 65536 + b * 256 + c) div 65536 = a" and "(a * 65536 + b * 256 + c) div 256 mod 256 = b"
    and "(a * 65536 + b * 256 + c) mod 256 = c"
proof -
  have n: "a * 65536 + b * 256 + c = (a * 256 + b) * 256 + c" by simp
  have "n div 65536 = n div 256 div 256" for n :: nat by (simp flip: div_mult2_eq)
  then show "(a * 65536 + b * 256 + c) div 65536 = a" "(a * 65536 + b * 256 + c) div 256 mod 256 = b"
    "(a * 65536 + b * 256 + c) mod 256 = c"
    unfolding n by (simp_all only: byte_place [OF assms(1)] byte_place [OF assms(2)])
qed

lemma b64_bytes_digits: "b64_bytes (b64_digits bytes) = map unat bytes"
proof (induction bytes rule: b64_digits.induct)
  case (1 a b c rest)
  then show ?case using unat_u8 [of a] unat_u8 [of b] unat_u8 [of c] by (simp add: Let_def base_64_places byte_places)
next
  case (2 a b)
  have "n * 4 div 1024 = n div 256" for n :: nat using div_mult_mult2 [of 4 n 256] by simp
  then show ?case
    using byte_place [OF unat_u8, of "unat a" b] by (simp add: Let_def base_64_places2)
next
  case (3 a)
  then show ?case using unat_u8 [of a] by auto
qed simp

lemma b64_padded:
  "4 dvd length (b64_digits bytes) + (3 - length bytes mod 3) mod 3 \<and> length (b64_digits bytes) mod 4 \<noteq> 1"
proof (induction bytes rule: b64_digits.induct)
  case (1 a b c rest)
  have "length (a # b # c # rest) mod 3 = length rest mod 3"
  proof -
    have "length (a # b # c # rest) = length rest + 3" by simp
    then show ?thesis by (simp only: mod_add_self2)
  qed
  moreover have "length (b64_digits (a # b # c # rest)) = length (b64_digits rest) + 4" by (simp add: Let_def)
  moreover have "(x + 4) mod 4 = x mod 4" for x :: nat by (rule mod_add_self2)
  moreover have "(x + 4 + y) mod 4 = (x + y) mod 4" for x y :: nat
    using mod_add_self2 [of "x + y" 4] by (simp only: ac_simps)
  ultimately show ?case using 1 by (simp only: dvd_eq_mod_eq_0 simp_thms)
qed (simp_all add: Let_def, simp_all add: numeral_eq_Suc)

lemma drop_padding_pad:
  assumes "CHR ''='' \<notin> set s" and "n \<le> 2" and "4 dvd length s + n"
  shows "drop_padding (s @ replicate n CHR ''='') = s"
proof -
  consider "n = 0" | "n = 1" | "n = 2" using assms(2) by linarith
  then show ?thesis
  proof cases
    case 1
    from assms(1) show ?thesis
      by (cases s rule: rev_cases) (auto simp: 1 drop_padding_def Let_def split: list.splits)
  next
    case 2
    from assms(1,3) show ?thesis
      by (cases s rule: rev_cases) (auto simp: 2 drop_padding_def Let_def split: list.splits)
  next
    case 3
    from assms(3) show ?thesis by (simp add: 3 drop_padding_def numeral_2_eq_2 dvd_eq_mod_eq_0 Let_def)
  qed
qed

lemma atob_base64: "atob (base64 bytes) = Some (map unat bytes)"
proof -
  let ?ds = "b64_digits bytes" and ?n = "(3 - length bytes mod 3) mod 3"
  have bound: "d < 64" if "d \<in> set ?ds" for d using b64_digits_bound [of bytes] that by (simp add: list_all_iff)
  have "\<not> ascii_white (CHR ''='')" by (simp add: ascii_white_def)
  with bound have kept: "filter (\<lambda>c. \<not> ascii_white c) (base64 bytes) = base64 bytes"
    unfolding base64_def by (intro filter_True) (auto simp: b64_char_facts(2))
  have "CHR ''='' \<notin> set (map b64_char ?ds)" using b64_char_facts(3) bound by (metis imageE list.set_map)
  moreover have "?n \<le> 2" by (simp add: less_Suc_eq_le [symmetric])
  ultimately have dropped: "drop_padding (base64 bytes) = map b64_char ?ds"
    unfolding base64_def using b64_padded [of bytes] by (intro drop_padding_pad) simp_all
  have decoded: "map b64_value (map b64_char ?ds) = map Some ?ds" using bound by (simp add: b64_char_facts(1))
  have "length (map b64_char ?ds) mod 4 \<noteq> 1" using b64_padded [of bytes] by simp
  moreover have "None \<notin> set (map Some ?ds)" by auto
  moreover have "map the (map Some ?ds) = ?ds" by (simp add: comp_def)
  ultimately show ?thesis
    unfolding atob_def Let_def kept dropped decoded by (simp only: b64_bytes_digits if_False simp_thms)
qed

lemma btoa_bytes: "btoa (map unat bytes) = Some (base64 bytes)"
  by (simp add: btoa_def list_all_iff unat_u8 comp_def)

lemma encodeBinary_base64: "encodeBinary bytes = base64 bytes"
  by (simp add: encodeBinary_def btoa_bytes)

interpretation base64_text: text_codec encodeBinary decodeBinary
  by unfold_locales (simp add: encodeBinary_base64 decodeBinary_def atob_base64 comp_def)

section \<open>Text payloads\<close>

text \<open>\<^verbatim>\<open>TextEncoder\<close>: surrogate pairs are one scalar value, a lone surrogate is the replacement character.\<close>

definition high_surrogate :: "nat \<Rightarrow> bool" where
  "high_surrogate u \<longleftrightarrow> 0xD800 \<le> u \<and> u < 0xDC00"

definition low_surrogate :: "nat \<Rightarrow> bool" where
  "low_surrogate u \<longleftrightarrow> 0xDC00 \<le> u \<and> u < 0xE000"

fun scalar_values :: "nat list \<Rightarrow> nat list" where
  "scalar_values (u # v # rest) =
     (if high_surrogate u \<and> low_surrogate v
      then (0x10000 + (u - 0xD800) * 0x400 + (v - 0xDC00)) # scalar_values rest
      else (if high_surrogate u \<or> low_surrogate u then 0xFFFD else u) # scalar_values (v # rest))"
| "scalar_values [u] = [if high_surrogate u \<or> low_surrogate u then 0xFFFD else u]"
| "scalar_values [] = []"

definition utf8_bytes :: "nat \<Rightarrow> u8 list" where
  "utf8_bytes n =
     (if n < 0x80 then [of_nat n]
      else if n < 0x800 then [of_nat (0xC0 + n div 64), of_nat (0x80 + n mod 64)]
      else if n < 0x10000 then [of_nat (0xE0 + n div 4096), of_nat (0x80 + n div 64 mod 64), of_nat (0x80 + n mod 64)]
      else [of_nat (0xF0 + n div 262144), of_nat (0x80 + n div 4096 mod 64), of_nat (0x80 + n div 64 mod 64),
            of_nat (0x80 + n mod 64)])"

definition text_encode :: "nat list \<Rightarrow> u8 list" where
  "text_encode units = concat (map utf8_bytes (scalar_values units))"

text \<open>The argument of \<^verbatim>\<open>send\<close> and \<^verbatim>\<open>sendTo\<close>, and the payload it becomes in each mode.\<close>

datatype js_data = JsText "nat list" | JsBytes "u8 list"

fun binary_payload :: "js_data \<Rightarrow> u8 list" where
  "binary_payload (JsText units) = text_encode units"
| "binary_payload (JsBytes bytes) = bytes"

fun json_payload :: "js_data \<Rightarrow> str option" where
  "json_payload (JsText units) = btoa units"
| "json_payload (JsBytes bytes) = Some (encodeBinary bytes)"

lemma scalar_values_latin: "list_all (\<lambda>u. u < 256) units \<Longrightarrow> scalar_values units = units"
  by (induction units rule: scalar_values.induct) (auto simp: high_surrogate_def low_surrogate_def)

lemma text_encode_latin_length:
  assumes "list_all (\<lambda>u. u < 256) units" and "length (text_encode units) = length units"
  shows "list_all (\<lambda>u. u < 128) units"
proof -
  have "length units \<le> length (concat (map utf8_bytes units)) \<and>
      (length (concat (map utf8_bytes units)) = length units \<longrightarrow> list_all (\<lambda>u. u < 128) units)"
    using assms(1) by (induction units) (auto simp: utf8_bytes_def)
  with assms show ?thesis by (simp add: text_encode_def scalar_values_latin)
qed

lemma text_encode_ascii: "list_all (\<lambda>u. u < 128) units \<Longrightarrow> text_encode units = map of_nat units"
proof -
  assume ascii: "list_all (\<lambda>u. u < 128) units"
  then have "scalar_values units = units" by (intro scalar_values_latin) (auto simp: list_all_iff)
  moreover have "concat (map utf8_bytes units) = map of_nat units"
    using ascii by (induction units) (auto simp: utf8_bytes_def)
  ultimately show ?thesis by (simp add: text_encode_def)
qed

lemma btoa_decoded:
  "Option.bind (btoa units) decodeBinary = (if list_all (\<lambda>u. u < 256) units then Some (map of_nat units) else None)"
  using base64_text.parse_print [of "map of_nat units"] by (simp add: btoa_def encodeBinary_base64)

text \<open>C40. Text is sent as the same bytes in both modes exactly when it is ASCII. A byte payload always is. In JSON mode text with a
  character above U+00FF throws, and no other does; any other text is sent as one byte for each character, where binary
  mode sends UTF-8.\<close>

theorem text_modes_agree_iff_ascii:
  "Option.bind (json_payload (JsBytes bytes)) decodeBinary = Some (binary_payload (JsBytes bytes)) \<and>
   (json_payload (JsText units) = None \<longleftrightarrow> \<not> list_all (\<lambda>u. u < 256) units) \<and>
   Option.bind (json_payload (JsText units)) decodeBinary =
     (if list_all (\<lambda>u. u < 256) units then Some (map of_nat units) else None) \<and>
   (Option.bind (json_payload (JsText units)) decodeBinary = Some (binary_payload (JsText units)) \<longleftrightarrow>
      list_all (\<lambda>u. u < 128) units)"
proof -
  have "Option.bind (btoa units) decodeBinary = Some (text_encode units) \<longleftrightarrow> list_all (\<lambda>u. u < 128) units"
  proof (cases "list_all (\<lambda>u. u < 256) units")
    case True
    moreover have "text_encode units = map of_nat units \<Longrightarrow> list_all (\<lambda>u. u < 128) units"
      using text_encode_latin_length [OF True] by (metis length_map)
    ultimately show ?thesis using text_encode_ascii [of units] by (metis btoa_decoded option.inject)
  next
    case False
    moreover have "list_all (\<lambda>u. u < 128) units \<Longrightarrow> list_all (\<lambda>u. u < 256) units"
      by (erule list.pred_mono_strong) simp
    ultimately show ?thesis by (auto simp: btoa_decoded)
  qed
  then show ?thesis using base64_text.parse_print by (simp add: btoa_decoded) (simp add: btoa_def)
qed

end
