(* ===== verification/Client.thy ===== *)
theory Client
  imports Client_Codec Base64
begin

text \<open>
  The state of the browser client (\<^verbatim>\<open>WasmnetClient\<close> in \<^verbatim>\<open>client/wasmnet-client.js\<close>): its table of sockets, its pending
  lookups, and what its methods and the incoming events do to them. Calls out of the client are logged in order:
  a call of a promise's \<^verbatim>\<open>resolve\<close> or \<^verbatim>\<open>reject\<close> (the first one settles the promise), of a registered callback
  (which is taken not to throw and not to call back into the client), or a thrown exception. A socket object has the properties its method
  gave it: \<open>settles\<close> tells whether it has \<^verbatim>\<open>resolve\<close> and \<^verbatim>\<open>reject\<close>, \<open>buffer\<close> is \<^const>\<open>None\<close> where the object has no
  \<^verbatim>\<open>buffer\<close>, and the callbacks are present once registered.
\<close>

section \<open>State\<close>

record js_sock =
  settles :: bool
  buffer :: "u8 list list option"
  onData :: bool
  onDataFrom :: bool
  onClose :: bool
  onAccept :: bool

datatype js_req =
    ReqConnect nat str nat
  | ReqConnectTls nat str nat
  | ReqConnectUdp nat str nat
  | ReqBind nat str nat
  | ReqListen nat nat
  | ReqSend nat js_data
  | ReqSendTo nat str nat js_data
  | ReqResolve nat str
  | ReqClose nat

datatype js_out =
    Fulfilled nat
  | FulfilledPort nat nat
  | Rejected nat str
  | DataCb nat "u8 list"
  | DataFromCb nat "u8 list" str nat
  | AcceptCb nat nat str
  | CloseCb nat
  | LookupFulfilled nat "str list"
  | LookupRejected nat str
  | TypeError

record client =
  c_sockets :: "(nat, js_sock) hmap"
  nextId :: nat
  c_resolves :: "(nat, unit) hmap"
  requests :: "js_req list"
  calls :: "js_out list"

definition client_new :: client where
  "client_new = \<lparr>c_sockets = [], nextId = 1, c_resolves = [], requests = [], calls = []\<rparr>"

text \<open>The binary frame of a request.\<close>

fun encode_req :: "js_req \<Rightarrow> u8 list" where
  "encode_req (ReqConnect i addr port) = js_connect i addr port"
| "encode_req (ReqConnectTls i addr port) = js_connectTls i addr port"
| "encode_req (ReqConnectUdp i addr port) = js_connectUdp i addr port"
| "encode_req (ReqBind i addr port) = js_bind i addr port"
| "encode_req (ReqListen i backlog) = js_listen i backlog"
| "encode_req (ReqSend i data) = js_send i (binary_payload data)"
| "encode_req (ReqSendTo i addr port data) = js_sendTo i addr port (binary_payload data)"
| "encode_req (ReqResolve i name) = js_resolve i name"
| "encode_req (ReqClose i) = js_close i"

definition stream_sock :: "bool \<Rightarrow> js_sock" where
  "stream_sock promised =
     \<lparr>settles = promised, buffer = Some [], onData = False, onDataFrom = False, onClose = False, onAccept = False\<rparr>"

definition listener_sock :: js_sock where
  "listener_sock =
     \<lparr>settles = True, buffer = None, onData = False, onDataFrom = False, onClose = False, onAccept = False\<rparr>"

definition say :: "js_out \<Rightarrow> client \<Rightarrow> client" where
  "say out c = c\<lparr>calls := calls c @ [out]\<rparr>"

definition say_if :: "bool \<Rightarrow> js_out \<Rightarrow> client \<Rightarrow> client" where
  "say_if present out c = (if present then say out c else c)"

definition request_sent :: "js_req \<Rightarrow> client \<Rightarrow> client" where
  "request_sent r c = c\<lparr>requests := requests c @ [r]\<rparr>"

definition drop_sock :: "nat \<Rightarrow> client \<Rightarrow> client" where
  "drop_sock i c = c\<lparr>c_sockets := hm_remove i (c_sockets c)\<rparr>"

definition set_sock :: "nat \<Rightarrow> js_sock \<Rightarrow> client \<Rightarrow> client" where
  "set_sock i s c = c\<lparr>c_sockets := hm_insert i s (c_sockets c)\<rparr>"

section \<open>Methods\<close>

definition open_sock :: "(nat \<Rightarrow> js_req) \<Rightarrow> js_sock \<Rightarrow> client \<Rightarrow> client" where
  "open_sock req s c =
     (let i = nextId c in request_sent (req i) (set_sock i s (c\<lparr>nextId := nextId c + 1\<rparr>)))"

definition c_connect :: "str \<Rightarrow> nat \<Rightarrow> client \<Rightarrow> client" where
  "c_connect addr port = open_sock (\<lambda>i. ReqConnect i addr port) (stream_sock True)"

definition c_connectTls :: "str \<Rightarrow> nat \<Rightarrow> client \<Rightarrow> client" where
  "c_connectTls addr port = open_sock (\<lambda>i. ReqConnectTls i addr port) (stream_sock True)"

definition c_connectUdp :: "str \<Rightarrow> nat \<Rightarrow> client \<Rightarrow> client" where
  "c_connectUdp addr port = open_sock (\<lambda>i. ReqConnectUdp i addr port) (stream_sock True)"

definition c_bind :: "str \<Rightarrow> nat \<Rightarrow> client \<Rightarrow> client" where
  "c_bind addr port = open_sock (\<lambda>i. ReqBind i addr port) listener_sock"

definition c_listen :: "nat \<Rightarrow> nat \<Rightarrow> client \<Rightarrow> client" where
  "c_listen i backlog c = request_sent (ReqListen i backlog) c"

definition c_send :: "nat \<Rightarrow> js_data \<Rightarrow> client \<Rightarrow> client" where
  "c_send i data c = request_sent (ReqSend i data) c"

definition c_sendTo :: "nat \<Rightarrow> str \<Rightarrow> nat \<Rightarrow> js_data \<Rightarrow> client \<Rightarrow> client" where
  "c_sendTo i addr port data c = request_sent (ReqSendTo i addr port data) c"

definition c_resolve :: "str \<Rightarrow> client \<Rightarrow> client" where
  "c_resolve name c =
     (let i = nextId c in
      request_sent (ReqResolve i name) (c\<lparr>nextId := nextId c + 1, c_resolves := hm_insert i () (c_resolves c)\<rparr>))"

definition c_close :: "nat \<Rightarrow> client \<Rightarrow> client" where
  "c_close i c = drop_sock i (request_sent (ReqClose i) c)"

definition c_onData :: "nat \<Rightarrow> client \<Rightarrow> client" where
  "c_onData i c =
     (case hm_get (c_sockets c) i of
        None \<Rightarrow> c
      | Some s \<Rightarrow>
          (case buffer s of
             None \<Rightarrow> say TypeError (set_sock i (s\<lparr>onData := True\<rparr>) c)
           | Some bufs \<Rightarrow>
               set_sock i (s\<lparr>onData := True, buffer := Some []\<rparr>) (c\<lparr>calls := calls c @ map (DataCb i) bufs\<rparr>)))"

definition c_onDataFrom :: "nat \<Rightarrow> client \<Rightarrow> client" where
  "c_onDataFrom i c =
     (case hm_get (c_sockets c) i of None \<Rightarrow> c | Some s \<Rightarrow> set_sock i (s\<lparr>onDataFrom := True\<rparr>) c)"

definition c_onClose :: "nat \<Rightarrow> client \<Rightarrow> client" where
  "c_onClose i c =
     (case hm_get (c_sockets c) i of None \<Rightarrow> c | Some s \<Rightarrow> set_sock i (s\<lparr>onClose := True\<rparr>) c)"

definition c_onAccept :: "nat \<Rightarrow> client \<Rightarrow> client" where
  "c_onAccept i c =
     (case hm_get (c_sockets c) i of None \<Rightarrow> c | Some s \<Rightarrow> set_sock i (s\<lparr>onAccept := True\<rparr>) c)"

section \<open>Events\<close>

text \<open>The part both event handlers share, for a socket that is in the table; \<open>optional\<close> tells whether \<^verbatim>\<open>resolve\<close> is
  called with optional chaining.\<close>

definition settle :: "bool \<Rightarrow> js_sock \<Rightarrow> js_out \<Rightarrow> client \<Rightarrow> client" where
  "settle optional s out c = (if settles s then say out c else if optional then c else say TypeError c)"

definition deliver_data :: "nat \<Rightarrow> js_sock \<Rightarrow> u8 list \<Rightarrow> client \<Rightarrow> client" where
  "deliver_data i s raw c =
     (if onData s then say (DataCb i raw) c
      else case buffer s of
        Some bufs \<Rightarrow> set_sock i (s\<lparr>buffer := Some (bufs @ [raw])\<rparr>) c
      | None \<Rightarrow> say TypeError c)"

fun on_socket :: "bool \<Rightarrow> nat \<Rightarrow> js_sock \<Rightarrow> js_ev \<Rightarrow> client \<Rightarrow> client" where
  "on_socket optional i s EvConnected c = settle optional s (Fulfilled i) c"
| "on_socket optional i s (EvListening port) c = settle optional s (FulfilledPort i port) c"
| "on_socket optional i s (EvUdpBound port) c = settle optional s (FulfilledPort i port) c"
| "on_socket optional i s (EvData raw) c = deliver_data i s raw c"
| "on_socket optional i s (EvDataFrom addr port raw) c = say_if (onDataFrom s) (DataFromCb i raw addr port) c"
| "on_socket optional i s (EvAccepted conn_id remote) c =
     say_if (onAccept s) (AcceptCb i conn_id remote) (set_sock conn_id (stream_sock False) c)"
| "on_socket optional i s EvClosed c = drop_sock i (say_if (onClose s) (CloseCb i) c)"
| "on_socket optional i s (EvError msg) c = drop_sock i (say_if (settles s) (Rejected i msg) c)"
| "on_socket optional i s (EvDenied msg) c = drop_sock i (say_if (settles s) (Rejected i msg) c)"

definition dispatchResolve :: "nat \<Rightarrow> str list \<Rightarrow> client \<Rightarrow> client" where
  "dispatchResolve i addrs c =
     (case hm_get (c_resolves c) i of
        None \<Rightarrow> c
      | Some _ \<Rightarrow> say (LookupFulfilled i addrs) (c\<lparr>c_resolves := hm_remove i (c_resolves c)\<rparr>))"

fun handle_call :: "bool \<Rightarrow> js_call \<Rightarrow> client \<Rightarrow> client" where
  "handle_call optional (Dispatch i ev) c =
     (case hm_get (c_sockets c) i of None \<Rightarrow> c | Some s \<Rightarrow> on_socket optional i s ev c)"
| "handle_call optional (DispatchResolve i addrs) c = dispatchResolve i addrs c"

text \<open>A binary frame goes through \<^verbatim>\<open>_handleBinaryEvent\<close> to \<^verbatim>\<open>_dispatch\<close>. (\<^verbatim>\<open>_handleEvent\<close> for JSON events is in \<open>Json\<close>.)\<close>

definition c_binary_event :: "js_lib \<Rightarrow> u8 list \<Rightarrow> client \<Rightarrow> client" where
  "c_binary_event js data c =
     (case handleBinaryEvent js data of
        Ignored \<Rightarrow> c
      | Thrown \<Rightarrow> say TypeError c
      | Called call \<Rightarrow> handle_call True call c)"

definition handleClose :: "client \<Rightarrow> client" where
  "handleClose c =
     c\<lparr>calls := calls c @ map (\<lambda>(i, _). CloseCb i) (filter (\<lambda>(_, s). onClose s) (c_sockets c)) @
         map (\<lambda>(i, _). LookupRejected i ''connection closed'') (c_resolves c),
       c_sockets := [], c_resolves := []\<rparr>"

datatype client_op =
    DoConnect str nat | DoConnectTls str nat | DoConnectUdp str nat | DoBind str nat | DoListen nat nat
  | DoSend nat js_data | DoSendTo nat str nat js_data | DoResolve str | DoClose nat
  | DoOnData nat | DoOnDataFrom nat | DoOnClose nat | DoOnAccept nat
  | OnCall bool js_call | OnHangUp

fun client_step :: "client_op \<Rightarrow> client \<Rightarrow> client" where
  "client_step (DoConnect addr port) c = c_connect addr port c"
| "client_step (DoConnectTls addr port) c = c_connectTls addr port c"
| "client_step (DoConnectUdp addr port) c = c_connectUdp addr port c"
| "client_step (DoBind addr port) c = c_bind addr port c"
| "client_step (DoListen i backlog) c = c_listen i backlog c"
| "client_step (DoSend i data) c = c_send i data c"
| "client_step (DoSendTo i addr port data) c = c_sendTo i addr port data c"
| "client_step (DoResolve name) c = c_resolve name c"
| "client_step (DoClose i) c = c_close i c"
| "client_step (DoOnData i) c = c_onData i c"
| "client_step (DoOnDataFrom i) c = c_onDataFrom i c"
| "client_step (DoOnClose i) c = c_onClose i c"
| "client_step (DoOnAccept i) c = c_onAccept i c"
| "client_step (OnCall optional call) c = handle_call optional call c"
| "client_step OnHangUp c = handleClose c"

fun client_run :: "client_op list \<Rightarrow> client \<Rightarrow> client" where
  "client_run [] c = c"
| "client_run (op # ops) c = client_run ops (client_step op c)"

section \<open>Data arrives in order\<close>

definition delivered :: "nat \<Rightarrow> js_out list \<Rightarrow> u8 list list" where
  "delivered i outs = List.map_filter (\<lambda>out. case out of DataCb j raw \<Rightarrow> if j = i then Some raw else None | _ \<Rightarrow> None) outs"

definition buffered :: "nat \<Rightarrow> client \<Rightarrow> u8 list list" where
  "buffered i c =
     (case hm_get (c_sockets c) i of
        None \<Rightarrow> []
      | Some s \<Rightarrow> (case buffer s of None \<Rightarrow> [] | Some bufs \<Rightarrow> bufs))"

text \<open>The data an operation brings to socket \<open>i\<close>, and the operations that neither remove nor replace it.\<close>

fun payload :: "nat \<Rightarrow> client_op \<Rightarrow> u8 list list" where
  "payload i (OnCall _ (Dispatch j (EvData raw))) = (if j = i then [raw] else [])"
| "payload i _ = []"

fun ends_socket :: "js_ev \<Rightarrow> bool" where
  "ends_socket EvClosed = True"
| "ends_socket (EvError _) = True"
| "ends_socket (EvDenied _) = True"
| "ends_socket _ = False"

fun keeps :: "nat \<Rightarrow> client_op \<Rightarrow> bool" where
  "keeps i (DoClose j) \<longleftrightarrow> j \<noteq> i"
| "keeps i OnHangUp \<longleftrightarrow> False"
| "keeps i (OnCall _ (Dispatch j ev)) \<longleftrightarrow>
     (j = i \<longrightarrow> \<not> ends_socket ev) \<and> (case ev of EvAccepted k _ \<Rightarrow> k \<noteq> i | _ \<Rightarrow> True)"
| "keeps i _ \<longleftrightarrow> True"

definition sock_ok :: "nat \<Rightarrow> client \<Rightarrow> bool" where
  "sock_ok i c \<longleftrightarrow> i < nextId c \<and>
     (case hm_get (c_sockets c) i of
        None \<Rightarrow> False
      | Some s \<Rightarrow> (case buffer s of None \<Rightarrow> False | Some bufs \<Rightarrow> onData s \<longrightarrow> bufs = []))"

lemma delivered_append [simp]: "delivered i (xs @ ys) = delivered i xs @ delivered i ys"
  by (simp add: delivered_def map_filter_def)

lemma delivered_simps [simp]:
  "delivered i [] = []" "delivered i [DataCb j raw] = (if j = i then [raw] else [])"
  "delivered i [Fulfilled j] = []" "delivered i [FulfilledPort j p] = []" "delivered i [Rejected j m] = []"
  "delivered i [DataFromCb j raw host p] = []" "delivered i [AcceptCb j k rem] = []" "delivered i [CloseCb j] = []"
  "delivered i [LookupFulfilled j addrs] = []" "delivered i [LookupRejected j m] = []" "delivered i [TypeError] = []"
  by (auto simp: delivered_def map_filter_def)

lemma delivered_map [simp]: "delivered i (map (DataCb j) bufs) = (if j = i then bufs else [])"
  by (induction bufs) (auto simp: delivered_def map_filter_def)

lemmas client_ops = c_connect_def c_connectTls_def c_connectUdp_def c_bind_def c_listen_def c_send_def c_sendTo_def
  c_resolve_def c_close_def c_onData_def c_onDataFrom_def c_onClose_def c_onAccept_def open_sock_def
  request_sent_def set_sock_def drop_sock_def say_def say_if_def settle_def deliver_data_def dispatchResolve_def
  stream_sock_def listener_sock_def Let_def

lemma on_socket_data:
  assumes "sock_ok i c" and "hm_get (c_sockets c) j = Some s" and "keeps i (OnCall optional (Dispatch j ev))"
  shows "sock_ok i (on_socket optional j s ev c) \<and>
    delivered i (calls (on_socket optional j s ev c)) @ buffered i (on_socket optional j s ev c) =
      delivered i (calls c) @ buffered i c @ payload i (OnCall optional (Dispatch j ev))"
  using assms
  by (cases ev) (auto simp: client_ops sock_ok_def buffered_def split: option.splits)

lemma client_step_data:
  assumes "sock_ok i c" and "keeps i op"
  shows "sock_ok i (client_step op c) \<and>
    delivered i (calls (client_step op c)) @ buffered i (client_step op c) =
      delivered i (calls c) @ buffered i c @ payload i op"
proof (cases op)
  case (OnCall optional call)
  show ?thesis
  proof (cases call)
    case (Dispatch j ev)
    show ?thesis
    proof (cases "hm_get (c_sockets c) j")
      case None
      then have "payload i op = []"
        using assms(1) by (cases ev) (auto simp: OnCall Dispatch sock_ok_def)
      with None assms(1) show ?thesis by (simp add: OnCall Dispatch)
    next
      case (Some s)
      with on_socket_data [OF assms(1) Some] assms(2) show ?thesis by (simp add: OnCall Dispatch)
    qed
  next
    case (DispatchResolve j addrs)
    with assms(1) OnCall show ?thesis
      by (auto simp: client_ops sock_ok_def buffered_def split: option.splits)
  qed
qed (use assms in \<open>auto simp: client_ops sock_ok_def buffered_def split: option.splits\<close>)

text \<open>Data is neither lost, repeated nor reordered on its way to the application: over any history in which the socket
  stays in the table, what its data callback has received, followed by what waits in its buffer, grows by exactly
  the data events for that socket, in order, whenever the callback is registered; and once it is registered
  nothing waits.\<close>

lemma client_run_data:
  assumes "sock_ok i c" and "list_all (keeps i) ops"
  shows "sock_ok i (client_run ops c) \<and>
    delivered i (calls (client_run ops c)) @ buffered i (client_run ops c) =
      delivered i (calls c) @ buffered i c @ concat (map (payload i) ops)"
  using assms
proof (induction ops arbitrary: c)
  case (Cons op ops)
  with client_step_data [of i c op] show ?case by (simp flip: append_assoc)
qed simp

lemma sock_ok_registered:
  "sock_ok i c \<Longrightarrow> hm_get (c_sockets c) i = Some s \<Longrightarrow> onData s \<Longrightarrow> buffered i c = []"
  by (auto simp: sock_ok_def buffered_def split: option.splits)

section \<open>Failures\<close>

text \<open>The two failure events, whatever the text of their message.\<close>

lemma handle_failure:
  assumes "unat i < 2 ^ 53"
  shows "handleBinaryEvent js (encode_event lib (Error i msg)) = Called (Dispatch (unat i) (EvError (text_decode js (as_bytes msg))))"
    and "handleBinaryEvent js (encode_event lib (Denied i msg)) = Called (Dispatch (unat i) (EvDenied (text_decode js (as_bytes msg))))"
  using assms
  by (simp_all add: handleBinaryEvent_def BINARY_HEADER_def Let_def handle_frame [unfolded One_nat_def] event_types
      codec_simps js_number_exact)

text \<open>A failure event for a lookup finds no socket; one for a connection attempt rejects its promise.\<close>

lemma failure_of_lookup:
  assumes "hm_get (c_sockets c) (nextId c) = None"
  shows "handle_call optional (Dispatch (nextId c) (EvError msg)) (c_resolve name c) = c_resolve name c"
    and "hm_get (c_resolves (c_resolve name c)) (nextId c) = Some ()"
  using assms by (simp_all add: c_resolve_def request_sent_def Let_def)

lemma failure_of_connect:
  "handle_call optional (Dispatch (nextId c) (EvDenied msg)) (c_connect addr port c) =
    drop_sock (nextId c) (say (Rejected (nextId c) msg) (c_connect addr port c))"
  by (simp add: c_connect_def open_sock_def set_sock_def request_sent_def stream_sock_def say_if_def Let_def)

section \<open>Identifiers\<close>

text \<open>The identifiers in use: those issued so far and those the server assigned to accepted connections.\<close>

fun accepted_id :: "client_op \<Rightarrow> nat list" where
  "accepted_id (OnCall _ (Dispatch _ (EvAccepted k _))) = [k]"
| "accepted_id _ = []"

definition ids_ok :: "nat list \<Rightarrow> client \<Rightarrow> bool" where
  "ids_ok accepted c \<longleftrightarrow>
     (\<forall>i. hm_get (c_sockets c) i \<noteq> None \<longrightarrow> i < nextId c \<or> i \<in> set accepted) \<and>
     (\<forall>i. hm_get (c_resolves c) i \<noteq> None \<longrightarrow> i < nextId c)"

lemma on_socket_ids:
  assumes "ids_ok accepted c" and "hm_get (c_sockets c) j = Some s"
  shows "ids_ok (accepted @ accepted_id (OnCall optional (Dispatch j ev))) (on_socket optional j s ev c)"
  using assms by (cases ev) (auto simp: client_ops ids_ok_def split: option.splits if_splits)

lemma client_step_ids: "ids_ok accepted c \<Longrightarrow> ids_ok (accepted @ accepted_id op) (client_step op c)"
proof (cases op)
  case (OnCall optional call)
  assume ok: "ids_ok accepted c"
  show ?thesis
  proof (cases call)
    case (Dispatch j ev)
    show ?thesis
    proof (cases "hm_get (c_sockets c) j")
      case None
      with ok show ?thesis by (auto simp: OnCall Dispatch ids_ok_def)
    next
      case (Some s)
      with on_socket_ids [OF ok Some] show ?thesis by (simp add: OnCall Dispatch)
    qed
  next
    case (DispatchResolve j addrs)
    with ok show ?thesis by (auto simp: OnCall client_ops ids_ok_def split: option.splits if_splits)
  qed
qed (auto simp: client_ops ids_ok_def handleClose_def split: option.splits if_splits)

text \<open>A new request never takes an identifier that is in use, unless the server has assigned that number to an accepted
  connection: after any history, the next identifier is neither a pending lookup nor, apart from the accepted
  ones, an open socket.\<close>

lemma next_identifier_is_fresh:
  assumes "nextId (client_run ops client_new) \<notin> set (concat (map accepted_id ops))"
  shows "hm_get (c_sockets (client_run ops client_new)) (nextId (client_run ops client_new)) = None \<and>
    hm_get (c_resolves (client_run ops client_new)) (nextId (client_run ops client_new)) = None"
proof -
  have "ids_ok (accepted @ concat (map accepted_id ops)) (client_run ops c)" if "ids_ok accepted c" for accepted c
    using that
  proof (induction ops arbitrary: accepted c)
    case (Cons op ops)
    from Cons.IH [OF client_step_ids [OF Cons.prems, of op]] show ?case by simp
  qed simp
  moreover have "ids_ok [] client_new" by (simp add: ids_ok_def client_new_def)
  ultimately have "ids_ok (concat (map accepted_id ops)) (client_run ops client_new)" by fastforce
  with assms show ?thesis unfolding ids_ok_def by blast
qed

end
