(* ===== verification/Json.thy ===== *)
theory Json
  imports Client Proxy
begin

text \<open>
  The JSON protocol: the objects the browser client builds (\<^verbatim>\<open>this._send({...})\<close> in \<^verbatim>\<open>client/wasmnet-client.js\<close>), the objects
  the \<^verbatim>\<open>serde\<close> attributes of \<^verbatim>\<open>src/protocol.rs\<close> stand for, and the client's handler of JSON events. A value of JSON is a
  \<open>json\<close>; its text is the browser's and \<^verbatim>\<open>serde_json\<close>'s, and what they promise of it are hypotheses. The main results
  tell exactly when JSON and binary mode carry the same request, and when an event has the same effect on the client.
\<close>

section \<open>Values\<close>

datatype json = JNull | JBool bool | JNum nat | JStr str | JArr "json list" | JObj "(str \<times> json) list"

text \<open>A property of a parsed object; of two with the same name \<^verbatim>\<open>JSON.parse\<close> keeps the last.\<close>

fun jfield :: "json \<Rightarrow> str \<Rightarrow> json option" where
  "jfield (JObj members) name = map_of (rev members) name"
| "jfield _ name = None"

fun as_num :: "json \<Rightarrow> nat option" where
  "as_num (JNum n) = Some n"
| "as_num _ = None"

fun as_text :: "json \<Rightarrow> str option" where
  "as_text (JStr s) = Some s"
| "as_text _ = None"

fun as_texts :: "json \<Rightarrow> str list option" where
  "as_texts (JArr vs) = those (map as_text vs)"
| "as_texts _ = None"

definition num_field :: "json \<Rightarrow> str \<Rightarrow> nat option" where
  "num_field v name = Option.bind (jfield v name) as_num"

definition str_field :: "json \<Rightarrow> str \<Rightarrow> str option" where
  "str_field v name = Option.bind (jfield v name) as_text"

section \<open>Requests\<close>

definition tagged :: "str \<Rightarrow> str \<Rightarrow> (str \<times> json) list \<Rightarrow> json" where
  "tagged tag name members = JObj ((tag, JStr name) # members)"

text \<open>What each method of the client sends in JSON mode; \<^const>\<open>None\<close> where \<^verbatim>\<open>btoa\<close> throws on its text.\<close>

fun json_req :: "js_req \<Rightarrow> json option" where
  "json_req (ReqConnect i addr port) =
     Some (tagged ''op'' ''connect'' [(''id'', JNum i), (''addr'', JStr addr), (''port'', JNum port)])"
| "json_req (ReqConnectTls i addr port) =
     Some (tagged ''op'' ''connect_tls'' [(''id'', JNum i), (''addr'', JStr addr), (''port'', JNum port)])"
| "json_req (ReqConnectUdp i addr port) =
     Some (tagged ''op'' ''connect_udp'' [(''id'', JNum i), (''addr'', JStr addr), (''port'', JNum port)])"
| "json_req (ReqBind i addr port) =
     Some (tagged ''op'' ''bind'' [(''id'', JNum i), (''addr'', JStr addr), (''port'', JNum port)])"
| "json_req (ReqListen i backlog) = Some (tagged ''op'' ''listen'' [(''id'', JNum i), (''backlog'', JNum backlog)])"
| "json_req (ReqSend i data) =
     map_option (\<lambda>b64. tagged ''op'' ''send'' [(''id'', JNum i), (''data'', JStr b64)]) (json_payload data)"
| "json_req (ReqSendTo i addr port data) =
     map_option (\<lambda>b64. tagged ''op'' ''send_to''
       [(''id'', JNum i), (''addr'', JStr addr), (''port'', JNum port), (''data'', JStr b64)]) (json_payload data)"
| "json_req (ReqResolve i name) = Some (tagged ''op'' ''resolve'' [(''id'', JNum i), (''name'', JStr name)])"
| "json_req (ReqClose i) = Some (tagged ''op'' ''close'' [(''id'', JNum i)])"

text \<open>The object a request is declared to be: an internally tagged enumeration with variants in snake case.\<close>

fun request_json :: "request \<Rightarrow> json" where
  "request_json (Connect i addr port) =
     tagged ''op'' ''connect'' [(''id'', JNum (unat i)), (''addr'', JStr addr), (''port'', JNum (unat port))]"
| "request_json (ConnectTls i addr port) =
     tagged ''op'' ''connect_tls'' [(''id'', JNum (unat i)), (''addr'', JStr addr), (''port'', JNum (unat port))]"
| "request_json (ConnectUdp i addr port) =
     tagged ''op'' ''connect_udp'' [(''id'', JNum (unat i)), (''addr'', JStr addr), (''port'', JNum (unat port))]"
| "request_json (Bind i addr port) =
     tagged ''op'' ''bind'' [(''id'', JNum (unat i)), (''addr'', JStr addr), (''port'', JNum (unat port))]"
| "request_json (Listen i backlog) =
     tagged ''op'' ''listen'' [(''id'', JNum (unat i)), (''backlog'', JNum (unat backlog))]"
| "request_json (Send i data) = tagged ''op'' ''send'' [(''id'', JNum (unat i)), (''data'', JStr data)]"
| "request_json (SendTo i addr port data) =
     tagged ''op'' ''send_to''
       [(''id'', JNum (unat i)), (''addr'', JStr addr), (''port'', JNum (unat port)), (''data'', JStr data)]"
| "request_json (Close i) = tagged ''op'' ''close'' [(''id'', JNum (unat i))]"
| "request_json (Resolve i name) = tagged ''op'' ''resolve'' [(''id'', JNum (unat i)), (''name'', JStr name)]"

section \<open>Events\<close>

fun event_json :: "event \<Rightarrow> json" where
  "event_json (Connected i) = tagged ''ev'' ''connected'' [(''id'', JNum (unat i))]"
| "event_json (Data i data) = tagged ''ev'' ''data'' [(''id'', JNum (unat i)), (''data'', JStr data)]"
| "event_json (DataFrom i data addr port) =
     tagged ''ev'' ''data_from''
       [(''id'', JNum (unat i)), (''data'', JStr data), (''addr'', JStr addr), (''port'', JNum (unat port))]"
| "event_json (Listening i port) = tagged ''ev'' ''listening'' [(''id'', JNum (unat i)), (''port'', JNum (unat port))]"
| "event_json (UdpBound i port) = tagged ''ev'' ''udp_bound'' [(''id'', JNum (unat i)), (''port'', JNum (unat port))]"
| "event_json (Accepted i conn_id remote) =
     tagged ''ev'' ''accepted'' [(''id'', JNum (unat i)), (''conn_id'', JNum (unat conn_id)), (''remote'', JStr remote)]"
| "event_json (Closed i) = tagged ''ev'' ''closed'' [(''id'', JNum (unat i))]"
| "event_json (Error i msg) = tagged ''ev'' ''error'' [(''id'', JNum (unat i)), (''msg'', JStr msg)]"
| "event_json (Denied i msg) = tagged ''ev'' ''denied'' [(''id'', JNum (unat i)), (''msg'', JStr msg)]"
| "event_json (Resolved i addrs) =
     tagged ''ev'' ''resolved'' [(''id'', JNum (unat i)), (''addrs'', JArr (map JStr addrs))]"

text \<open>\<^verbatim>\<open>_handleEvent\<close>. \<^const>\<open>None\<close> is an object in which a field the handler reads is missing or of another type; JavaScript goes
  on with \<^verbatim>\<open>undefined\<close> there, which is outside the model.\<close>

definition on_event :: "nat \<Rightarrow> js_sock \<Rightarrow> str \<Rightarrow> json \<Rightarrow> client \<Rightarrow> client option" where
  "on_event i s name ev c =
     (if name = ''connected'' then Some (settle False s (Fulfilled i) c)
      else if name = ''listening'' \<or> name = ''udp_bound'' then
        map_option (\<lambda>port. settle False s (FulfilledPort i port) c) (num_field ev ''port'')
      else if name = ''data'' then
        map_option (\<lambda>data. case decodeBinary data of None \<Rightarrow> say TypeError c | Some raw \<Rightarrow> deliver_data i s raw c)
          (str_field ev ''data'')
      else if name = ''data_from'' then
        Option.bind (str_field ev ''data'') (\<lambda>data. Option.bind (str_field ev ''addr'') (\<lambda>addr.
          map_option (\<lambda>port. case decodeBinary data of None \<Rightarrow> say TypeError c
            | Some raw \<Rightarrow> say_if (onDataFrom s) (DataFromCb i raw addr port) c) (num_field ev ''port'')))
      else if name = ''accepted'' then
        Option.bind (num_field ev ''conn_id'') (\<lambda>conn_id. map_option (\<lambda>remote.
          say_if (onAccept s) (AcceptCb i conn_id remote) (set_sock conn_id (stream_sock False) c))
          (str_field ev ''remote''))
      else if name = ''closed'' then Some (drop_sock i (say_if (onClose s) (CloseCb i) c))
      else if name = ''error'' \<or> name = ''denied'' then
        map_option (\<lambda>msg. drop_sock i (say_if (settles s) (Rejected i msg) c)) (str_field ev ''msg'')
      else Some c)"

definition handleEvent :: "json \<Rightarrow> client \<Rightarrow> client option" where
  "handleEvent ev c =
     Option.bind (str_field ev ''ev'') (\<lambda>name. Option.bind (num_field ev ''id'') (\<lambda>i.
       if name = ''resolved'' then
         map_option (\<lambda>addrs. dispatchResolve i addrs c) (Option.bind (jfield ev ''addrs'') as_texts)
       else (case hm_get (c_sockets c) i of None \<Rightarrow> Some c | Some s \<Rightarrow> on_event i s name ev c)))"

section \<open>The text of a value\<close>

record json_lib =
  stringify :: "json \<Rightarrow> str"
  parse_json :: "str \<Rightarrow> json option"

text \<open>
  Documented of \<^verbatim>\<open>serde\<close>: the text of a declared object is read as its request, one whose number is out of the range of its
  field is refused, and the text of an event is read by
  \<^verbatim>\<open>JSON.parse\<close> as the declared object, as long as its numbers are doubles. Documented of \<^verbatim>\<open>base64\<close>: the standard engine
  writes the standard encoding, and whatever it reads the more lenient \<^verbatim>\<open>atob\<close> reads alike.
\<close>

definition over_range :: "json \<Rightarrow> bool" where
  "over_range v \<longleftrightarrow>
     pred_option (\<lambda>p. 65536 \<le> p) (num_field v ''port'') \<and> num_field v ''port'' \<noteq> None \<or>
     pred_option (\<lambda>b. 2 ^ 32 \<le> b) (num_field v ''backlog'') \<and> num_field v ''backlog'' \<noteq> None"

definition serde_reads :: "codec_lib \<Rightarrow> json_lib \<Rightarrow> json \<Rightarrow> bool" where
  "serde_reads lib jl v \<longleftrightarrow>
     (\<forall>q. v = request_json q \<longrightarrow> json_request lib (stringify jl v) = Inr q) \<and>
     (over_range v \<longrightarrow> is_err (json_request lib (stringify jl v)))"

fun event_numbers :: "event \<Rightarrow> nat list" where
  "event_numbers (Accepted i conn_id remote) = [unat i, unat conn_id]"
| "event_numbers ev = [unat (event_id ev)]"

definition serde_writes :: "codec_lib \<Rightarrow> json_lib \<Rightarrow> event \<Rightarrow> bool" where
  "serde_writes lib jl ev \<longleftrightarrow>
     (list_all (\<lambda>n. n < 2 ^ 53) (event_numbers ev) \<longrightarrow> parse_json jl (json_event lib ev) = Some (event_json ev))"

definition b64_standard :: "codec_lib \<Rightarrow> bool" where
  "b64_standard lib \<longleftrightarrow>
     b64_encode lib = base64 \<and> (\<forall>s bytes. b64_decode lib s = Some bytes \<longrightarrow> decodeBinary s = Some bytes)"

section \<open>When both modes carry the same\<close>

text \<open>What a request of the client is in binary mode: numbers are taken modulo the width of their field, text is UTF-8.\<close>

fun req_view :: "js_req \<Rightarrow> request" where
  "req_view (ReqConnect i addr port) = Connect (of_nat i) addr (of_nat port)"
| "req_view (ReqConnectTls i addr port) = ConnectTls (of_nat i) addr (of_nat port)"
| "req_view (ReqConnectUdp i addr port) = ConnectUdp (of_nat i) addr (of_nat port)"
| "req_view (ReqBind i addr port) = Bind (of_nat i) addr (of_nat port)"
| "req_view (ReqListen i backlog) = Listen (of_nat i) (of_nat backlog)"
| "req_view (ReqSend i data) = Send (of_nat i) (base64 (binary_payload data))"
| "req_view (ReqSendTo i addr port data) = SendTo (of_nat i) addr (of_nat port) (base64 (binary_payload data))"
| "req_view (ReqResolve i name) = Resolve (of_nat i) name"
| "req_view (ReqClose i) = Close (of_nat i)"

text \<open>What the server reads of a request in either mode; \<^const>\<open>None\<close> where the client throws before it sends.\<close>

definition text_result :: "codec_lib \<Rightarrow> json_lib \<Rightarrow> js_req \<Rightarrow> received option" where
  "text_result lib jl r = map_option (\<lambda>v. receive lib (TextMsg (stringify jl v))) (json_req r)"

definition frame_result :: "codec_lib \<Rightarrow> js_req \<Rightarrow> received" where
  "frame_result lib r = receive lib (BinaryMsg (encode_req r))"

text \<open>The identifier is a safe integer, as those the client counts are, and host names are UTF-8 of less than 64 KiB.\<close>

definition host_ok :: "str \<Rightarrow> bool" where
  "host_ok addr \<longleftrightarrow> is_utf8 addr \<and> length addr < 65536"

fun req_basic :: "js_req \<Rightarrow> bool" where
  "req_basic (ReqConnect i addr port) \<longleftrightarrow> i < 2 ^ 53 \<and> host_ok addr"
| "req_basic (ReqConnectTls i addr port) \<longleftrightarrow> i < 2 ^ 53 \<and> host_ok addr"
| "req_basic (ReqConnectUdp i addr port) \<longleftrightarrow> i < 2 ^ 53 \<and> host_ok addr"
| "req_basic (ReqBind i addr port) \<longleftrightarrow> i < 2 ^ 53 \<and> host_ok addr"
| "req_basic (ReqListen i backlog) \<longleftrightarrow> i < 2 ^ 53"
| "req_basic (ReqSend i data) \<longleftrightarrow> i < 2 ^ 53"
| "req_basic (ReqSendTo i addr port data) \<longleftrightarrow> i < 2 ^ 53 \<and> host_ok addr"
| "req_basic (ReqResolve i name) \<longleftrightarrow> i < 2 ^ 53 \<and> host_ok name"
| "req_basic (ReqClose i) \<longleftrightarrow> i < 2 ^ 53"

fun numbers_fit :: "js_req \<Rightarrow> bool" where
  "numbers_fit (ReqConnect i addr port) \<longleftrightarrow> port < 65536"
| "numbers_fit (ReqConnectTls i addr port) \<longleftrightarrow> port < 65536"
| "numbers_fit (ReqConnectUdp i addr port) \<longleftrightarrow> port < 65536"
| "numbers_fit (ReqBind i addr port) \<longleftrightarrow> port < 65536"
| "numbers_fit (ReqListen i backlog) \<longleftrightarrow> backlog < 2 ^ 32"
| "numbers_fit (ReqSendTo i addr port data) \<longleftrightarrow> port < 65536"
| "numbers_fit _ \<longleftrightarrow> True"

fun plain_data :: "js_data \<Rightarrow> bool" where
  "plain_data (JsText units) \<longleftrightarrow> list_all (\<lambda>u. u < 128) units"
| "plain_data (JsBytes bytes) \<longleftrightarrow> True"

fun plain_req :: "js_req \<Rightarrow> bool" where
  "plain_req (ReqSend i data) \<longleftrightarrow> plain_data data"
| "plain_req (ReqSendTo i addr port data) \<longleftrightarrow> plain_data data"
| "plain_req _ \<longleftrightarrow> True"

lemma jfield_tagged [simp]:
  "jfield (tagged tag name members) k =
    (case map_of (rev members) k of Some v \<Rightarrow> Some v | None \<Rightarrow> if k = tag then Some (JStr name) else None)"
  by (auto simp: tagged_def map_add_def split: option.splits)

lemmas json_fields = num_field_def str_field_def

lemma unat_fits:
  "i < 2 ^ 53 \<Longrightarrow> unat (of_nat i :: u64) = i" "p < 65536 \<Longrightarrow> unat (of_nat p :: u16) = p"
  "b < 2 ^ 32 \<Longrightarrow> unat (of_nat b :: u32) = b"
  by (simp_all add: unat_of_nat)

lemma base64_inject [simp]: "base64 xs = base64 ys \<longleftrightarrow> xs = ys"
  using base64_text.parse_print [of xs] base64_text.parse_print [of ys] unfolding encodeBinary_base64 by (metis option.inject)

text \<open>The payload in JSON mode is that of binary mode exactly when it is plain; when it is not, it is another or none.\<close>

lemma json_payload_plain: "json_payload data = Some (base64 (binary_payload data)) \<longleftrightarrow> plain_data data"
proof (cases data)
  case (JsText units)
  have "json_payload data = Some (base64 (text_encode units)) \<longleftrightarrow>
      list_all (\<lambda>u. u < 256) units \<and> map of_nat units = text_encode units"
    by (simp add: JsText btoa_def)
  also have "\<dots> \<longleftrightarrow> list_all (\<lambda>u. u < 128) units"
  proof
    assume "list_all (\<lambda>u. u < 256) units \<and> map of_nat units = text_encode units"
    then show "list_all (\<lambda>u. u < 128) units" using text_encode_latin_length [of units] by (metis length_map)
  next
    assume ascii: "list_all (\<lambda>u. u < 128) units"
    then have "list_all (\<lambda>u. u < 256) units" by (auto simp: list_all_iff)
    with text_encode_ascii [OF ascii] show "list_all (\<lambda>u. u < 256) units \<and> map of_nat units = text_encode units" by simp
  qed
  finally show ?thesis by (simp add: JsText)
qed (simp add: encodeBinary_base64)

lemma json_payload_base64: "json_payload data = Some b64 \<Longrightarrow> \<exists>bytes. b64 = base64 bytes"
  by (cases data) (auto simp: btoa_def encodeBinary_base64 split: if_splits)

lemma frame_view:
  assumes "b64_encode lib = base64" and "req_basic r"
  shows "decode_request lib (encode_req r) = Some (Inr (req_view r))"
proof -
  note frames = decode_client_frames [of _ lib]
  have "is_utf8 []" by code_simp
  then show ?thesis
    using assms frames frames [of "[]"] by (cases r) (auto simp: host_ok_def)
qed

text \<open>A request whose numbers fit is the declared object of some request, the one of binary mode if its payload is plain.\<close>

lemma text_view:
  assumes "req_basic r" and "numbers_fit r" and "json_req r = Some v"
  obtains q where "v = request_json q" "q = req_view r \<longleftrightarrow> plain_req r"
proof (cases r)
  case (ReqSend i data)
  with assms obtain b64 where p: "json_payload data = Some b64"
    "v = request_json (Send (of_nat i) b64)" by (auto simp: unat_fits)
  with that [of "Send (of_nat i) b64"] json_payload_plain [of data] ReqSend show thesis by simp
next
  case (ReqSendTo i addr port data)
  with assms obtain b64 where p: "json_payload data = Some b64"
    "v = request_json (SendTo (of_nat i) addr (of_nat port) b64)" by (auto simp: unat_fits)
  with that [of "SendTo (of_nat i) addr (of_nat port) b64"] json_payload_plain [of data] ReqSendTo show thesis by simp
qed (use assms that [of "req_view r"] in \<open>simp_all add: unat_fits\<close>)

lemma plain_json_req: "plain_req r \<Longrightarrow> json_req r \<noteq> None"
  using json_payload_plain by (cases r) fastforce+

lemma over_range_req: "json_req r = Some v \<Longrightarrow> \<not> numbers_fit r \<Longrightarrow> over_range v"
  by (cases r) (auto simp: over_range_def json_fields)

text \<open>C12. When JSON mode and binary mode carry the same request. A binary frame is always read as the request with its numbers
  taken modulo the width of their fields and its text in UTF-8. The text message is read as the same request exactly
  when the numbers fit (a port below 65536, a backlog below 2 to the 32) and a text payload is ASCII. With a number
  out of range the server refuses the message in JSON mode; with other text it gets other bytes or the client throws.\<close>

theorem request_encodings_agree:
  assumes "pred_option (serde_reads lib jl) (json_req r)" and "b64_standard lib" and "req_basic r"
  shows "frame_result lib r = Request (req_view r) \<and>
    (text_result lib jl r = Some (frame_result lib r) \<longleftrightarrow> numbers_fit r \<and> plain_req r) \<and>
    (\<not> numbers_fit r \<longrightarrow> pred_option (\<lambda>out. \<exists>e. out = Invalid e) (text_result lib jl r))"
proof -
  have frm: "frame_result lib r = Request (req_view r)"
    using assms(2,3) frame_view [of lib r] by (simp add: frame_result_def b64_standard_def)
  have refused: "\<exists>e. text_result lib jl r = Some (Invalid e)" if "json_req r = Some v" "\<not> numbers_fit r" for v
    using that assms(1) over_range_req [OF that]
    by (auto simp: serde_reads_def text_result_def split: sum.splits)
  have "text_result lib jl r = Some (Request (req_view r)) \<longleftrightarrow> plain_req r" if "numbers_fit r"
  proof (cases "json_req r")
    case None
    with plain_json_req [of r] show ?thesis by (auto simp: text_result_def)
  next
    case (Some v)
    from text_view [OF assms(3) that Some] obtain q where q: "v = request_json q" "q = req_view r \<longleftrightarrow> plain_req r" .
    have "text_result lib jl r = Some (Request q)"
      using assms(1) Some q(1) by (simp add: serde_reads_def text_result_def)
    with q(2) show ?thesis by auto
  qed
  moreover have "text_result lib jl r \<noteq> Some (Request (req_view r)) \<and> pred_option (\<lambda>out. \<exists>e. out = Invalid e) (text_result lib jl r)"
    if "\<not> numbers_fit r"
  proof (cases "json_req r")
    case (Some v)
    from refused [OF this that] show ?thesis by auto
  qed (simp add: text_result_def)
  ultimately show ?thesis using frm by auto
qed

definition demo_text :: str where
  "demo_text = ''{\"op\":\"connect\",\"id\":7,\"addr\":\"example.com\",\"port\":443}''"

definition demo_codec :: codec_lib where
  "demo_codec = \<lparr>b64_encode = base64, b64_decode = decodeBinary, json_to_vec = (\<lambda>_. None),
     json_request = (\<lambda>t. if t = demo_text then Inr (Connect 7 ''example.com'' 443) else Inl ''expected value''),
     json_event = (\<lambda>_. ''event'')\<rparr>"

lemma demo_codec_standard: "b64_standard demo_codec"
  by (simp add: b64_standard_def demo_codec_def)

lemma request_json_connect: "request_json q = request_json (Connect i addr port) \<Longrightarrow> q = Connect i addr port"
  by (cases q) (simp_all add: tagged_def word_unat_eq_iff)

theorem request_encodings_agree_witness:
  "\<exists>jl. text_result demo_codec jl (ReqConnect 7 ''example.com'' 443) = Some (Request (Connect 7 ''example.com'' 443)) \<and>
    frame_result demo_codec (ReqConnect 7 ''example.com'' 443) = Request (Connect 7 ''example.com'' 443) \<and>
    frame_result demo_codec (ReqConnect 7 ''example.com'' 65616) = Request (Connect 7 ''example.com'' 80) \<and>
    (\<exists>e. text_result demo_codec jl (ReqConnect 7 ''example.com'' 65616) = Some (Invalid e))"
proof -
  let ?r = "ReqConnect 7 ''example.com''"
  define jl where "jl = \<lparr>stringify = (\<lambda>v. if Some v = json_req (?r 443) then demo_text else []), parse_json = (\<lambda>_. None)\<rparr>"
  have "is_utf8 ''example.com''" by code_simp
  then have basic: "req_basic (?r 443)" "req_basic (?r 65616)" by (simp_all add: host_ok_def)
  have reads: "pred_option (serde_reads demo_codec jl) (json_req (?r 443))"
    using request_json_connect [of _ 7 "''example.com''" 443]
    by (auto simp: serde_reads_def over_range_def json_fields jl_def demo_codec_def dest: sym)
  have refuses: "pred_option (serde_reads demo_codec jl) (json_req (?r 65616))"
  proof -
    have "tagged ''op'' ''connect'' [(''id'', JNum 7), (''addr'', JStr ''example.com''), (''port'', JNum 65616)] \<noteq> request_json q" for q
    proof (cases q)
      case (Connect i addr port)
      with unat_lt_2p [of port] show ?thesis by (auto simp: tagged_def)
    qed (auto simp: tagged_def)
    then show ?thesis by (auto simp: serde_reads_def jl_def demo_codec_def tagged_def demo_text_def)
  qed
  note fits = request_encodings_agree [OF reads demo_codec_standard basic(1)]
  note over = request_encodings_agree [OF refuses demo_codec_standard basic(2)]
  have "(65616 :: u16) = 80" by simp
  with fits over show ?thesis by (intro exI [of _ jl]) (auto simp: text_result_def simp del: encode_req.simps receive.simps)
qed

section \<open>Both modes have the same effect\<close>

lemma those_map_Some: "those (map Some xs) = Some xs"
  by (induction xs) simp_all

text \<open>The handler of JSON events calls \<^verbatim>\<open>resolve\<close> without optional chaining.\<close>

lemma handleEvent_call:
  assumes "\<And>data bytes. b64_decode lib data = Some bytes \<Longrightarrow> decodeBinary data = Some bytes"
    and "carried lib js ev"
  shows "handleEvent (event_json ev) c = Some (handle_call False (client_view lib ev) c)"
proof (cases ev)
  case (Data i data)
  with assms obtain bytes where "b64_decode lib data = Some bytes" "decodeBinary data = Some bytes" by auto
  with Data show ?thesis by (simp add: handleEvent_def on_event_def json_fields split: option.splits)
next
  case (DataFrom i data addr port)
  with assms obtain bytes where "b64_decode lib data = Some bytes" "decodeBinary data = Some bytes" by auto
  with DataFrom show ?thesis by (simp add: handleEvent_def on_event_def json_fields split: option.splits)
qed (simp_all add: handleEvent_def on_event_def json_fields comp_def those_map_Some split: option.splits)

text \<open>Whether an event that fulfils a promise meets a socket that has one. An accepted connection has none.\<close>

fun settles_if_needed :: "event \<Rightarrow> client \<Rightarrow> bool" where
  "settles_if_needed (Connected i) c \<longleftrightarrow> pred_option settles (hm_get (c_sockets c) (unat i))"
| "settles_if_needed (Listening i _) c \<longleftrightarrow> pred_option settles (hm_get (c_sockets c) (unat i))"
| "settles_if_needed (UdpBound i _) c \<longleftrightarrow> pred_option settles (hm_get (c_sockets c) (unat i))"
| "settles_if_needed _ c \<longleftrightarrow> True"

lemma optional_chaining:
  "handle_call False (client_view lib ev) c =
    (if settles_if_needed ev c then handle_call True (client_view lib ev) c else say TypeError c)"
  "settles_if_needed ev c \<or> handle_call True (client_view lib ev) c = c"
  by (cases ev; auto simp: settle_def split: option.splits)+

text \<open>C13. The effect of an event on the client in JSON mode and in binary mode. An event of the server, sent as text and parsed
  or sent as a binary frame, leaves the client in the same state, the same callbacks run and the same promises
  settled, with one exception: an event that fulfils a promise and finds a socket without one (an accepted
  connection) throws in JSON mode, which calls \<^verbatim>\<open>sock.resolve\<close>, and has no effect in binary mode, which calls \<^verbatim>\<open>sock.resolve?.\<close>.\<close>

theorem event_encodings_agree:
  assumes "serde_writes lib jl ev" and "b64_standard lib" and "carried lib js ev"
    and "list_all (\<lambda>n. n < 2 ^ 53) (event_numbers ev)"
  shows "Option.bind (parse_json jl (json_event lib ev)) (\<lambda>v. handleEvent v c) =
      Some (if settles_if_needed ev c then c_binary_event js (encode_event lib ev) c else say TypeError c) \<and>
    (settles_if_needed ev c \<or> c_binary_event js (encode_event lib ev) c = c)"
proof -
  have "unat (event_id ev) < 2 ^ 53" using assms(4) by (cases ev) simp_all
  then have frm: "handleBinaryEvent js (encode_event lib ev) = Called (client_view lib ev)"
    by (rule handle_event_frame [OF assms(3)])
  have "handleEvent (event_json ev) c = Some (handle_call False (client_view lib ev) c)"
    using assms(2,3) by (intro handleEvent_call) (auto simp: b64_standard_def)
  with assms(1,4) frm optional_chaining [where ev = ev and c = c and lib = lib] show ?thesis by (simp add: serde_writes_def c_binary_event_def)
qed

text \<open>Data for an open connection, and a \<^verbatim>\<open>connected\<close> for an accepted one.\<close>

theorem event_encodings_agree_witness:
  "\<exists>(jl :: json_lib) c. Option.bind (parse_json jl (json_event demo_codec (Data 1 ''aGk=''))) (\<lambda>v. handleEvent v (c_connect ''a'' 1 client_new)) =
      Some (c_binary_event demo_js (encode_event demo_codec (Data 1 ''aGk='')) (c_connect ''a'' 1 client_new)) \<and>
    handleEvent (event_json (Connected 2)) c = Some (say TypeError c) \<and>
    c_binary_event demo_js (encode_event demo_codec (Connected 2)) c = c"
proof -
  let ?jl = "\<lambda>ev. \<lparr>stringify = (\<lambda>_. demo_text), parse_json = (\<lambda>_. Some (event_json ev))\<rparr>"
  let ?c = "set_sock 2 (stream_sock False) client_new"
  have "carried demo_codec demo_js (Data 1 ''aGk='')" "carried demo_codec demo_js (Connected 2)" by code_simp+
  moreover have "serde_writes demo_codec (?jl ev) ev" for ev by (simp add: serde_writes_def)
  moreover have "\<not> settles_if_needed (Connected 2) ?c"
    by (simp add: set_sock_def client_new_def stream_sock_def)
  ultimately have
    "Option.bind (parse_json (?jl (Data 1 ''aGk='')) (json_event demo_codec (Data 1 ''aGk=''))) (\<lambda>v. handleEvent v (c_connect ''a'' 1 client_new)) =
      Some (c_binary_event demo_js (encode_event demo_codec (Data 1 ''aGk='')) (c_connect ''a'' 1 client_new))"
    "handleEvent (event_json (Connected 2)) ?c = Some (say TypeError ?c) \<and>
      c_binary_event demo_js (encode_event demo_codec (Connected 2)) ?c = ?c"
    using demo_codec_standard
      event_encodings_agree [of demo_codec "?jl (Data 1 ''aGk='')" "Data 1 ''aGk=''" demo_js "c_connect ''a'' 1 client_new"]
      event_encodings_agree [of demo_codec "?jl (Connected 2)" "Connected 2" demo_js ?c]
    by (simp_all del: encode_event.simps event_json.simps)
  then show ?thesis by blast
qed

end
