(* ===== verification/Transport.thy ===== *)
theory Transport
  imports Json Webtransport
begin

text \<open>
  The life of the browser client: its constructor, the two transport classes of \<^verbatim>\<open>client/wasmnet-client.js\<close>, and what the
  methods of the client do while the transport opens, is open and has closed. The \<^verbatim>\<open>WebSocket\<close> and \<^verbatim>\<open>WebTransport\<close> objects
  are the browser's; of them the model uses what their specifications say of sending: a \<^verbatim>\<open>WebSocket\<close> throws while it is
  connecting and discards silently once it is closing, a stream writer that is closed rejects a promise nobody looks at.
\<close>

section \<open>State\<close>

datatype transport_kind = WebSocket | WebTransport
datatype phase = Opening | Running | Closing | Ended
datatype wire = TextFrame str | BinaryFrame "u8 list" | StreamBytes "u8 list"

record js_options =
  transport_opt :: "str option"
  binary_opt :: bool

text \<open>\<open>ready\<close> is the promise of \<^verbatim>\<open>start()\<close>: pending, fulfilled or rejected. \<open>writer\<close> tells whether the stream of a WebTransport
  client has its writer, \<open>reading\<close> whether its read loop runs, \<open>unread\<close> is the loop's \<^verbatim>\<open>buf\<close>.\<close>

record wasmnet_client =
  core :: client
  kind :: transport_kind
  binary :: bool
  phase :: phase
  ready :: "bool option"
  writer :: bool
  reading :: bool
  unread :: "u8 list"
  wire :: "wire list"

text \<open>The constructor; \<^const>\<open>None\<close> where it throws, because the browser has no WebTransport.\<close>

definition WasmnetClient :: "bool \<Rightarrow> js_options \<Rightarrow> wasmnet_client option" where
  "WasmnetClient supported opts =
     (let t = \<lparr>core = client_new, kind = WebSocket, binary = binary_opt opts, phase = Opening, ready = None,
           writer = False, reading = False, unread = [], wire = []\<rparr> in
      if transport_opt opts = Some ''webtransport'' then
        (if supported then Some (t\<lparr>kind := WebTransport, binary := True\<rparr>) else None)
      else Some t)"

section \<open>Sending\<close>

datatype send_outcome = Sent | Discarded | Threw str

definition transport_send :: "wasmnet_client \<Rightarrow> send_outcome" where
  "transport_send t =
     (case kind t of
        WebSocket \<Rightarrow> (case phase t of Opening \<Rightarrow> Threw ''InvalidStateError'' | Running \<Rightarrow> Sent | _ \<Rightarrow> Discarded)
      | WebTransport \<Rightarrow> (if \<not> writer t then Threw ''TypeError'' else if phase t = Running then Sent else Discarded))"

text \<open>The message of a request; \<^const>\<open>None\<close> where \<^verbatim>\<open>btoa\<close> throws.\<close>

definition wire_message :: "json_lib \<Rightarrow> wasmnet_client \<Rightarrow> js_req \<Rightarrow> wire option" where
  "wire_message jl t r =
     (if binary t then
        (case kind t of
           WebSocket \<Rightarrow> Some (BinaryFrame (encode_req r))
         | WebTransport \<Rightarrow> Some (StreamBytes (sendBinaryFrame (encode_req r))))
      else map_option (\<lambda>v. TextFrame (stringify jl v)) (json_req r))"

text \<open>A method whose send throws: in \<^verbatim>\<open>connect\<close>, \<^verbatim>\<open>connectTls\<close>, \<^verbatim>\<open>connectUdp\<close>, \<^verbatim>\<open>bind\<close> and \<^verbatim>\<open>resolve\<close> this happens in the executor of the new
  promise, after the table entry was made, and rejects the promise; the other methods throw before they change
  anything.\<close>

fun thrown :: "str \<Rightarrow> client_op \<Rightarrow> client \<Rightarrow> client \<Rightarrow> client" where
  "thrown e (DoConnect _ _) c c' = say (Rejected (nextId c) e) c'"
| "thrown e (DoConnectTls _ _) c c' = say (Rejected (nextId c) e) c'"
| "thrown e (DoConnectUdp _ _) c c' = say (Rejected (nextId c) e) c'"
| "thrown e (DoBind _ _) c c' = say (Rejected (nextId c) e) c'"
| "thrown e (DoResolve _) c c' = say (LookupRejected (nextId c) e) c'"
| "thrown e _ c c' = say TypeError c"

definition t_call :: "json_lib \<Rightarrow> client_op \<Rightarrow> wasmnet_client \<Rightarrow> wasmnet_client" where
  "t_call jl op t =
     (let c = core t; c' = client_step op c in
      if requests c' = requests c then t\<lparr>core := c'\<rparr>
      else case wire_message jl t (last (requests c')) of
        None \<Rightarrow> t\<lparr>core := thrown ''InvalidCharacterError'' op c (c'\<lparr>requests := requests c\<rparr>)\<rparr>
      | Some msg \<Rightarrow>
          (case transport_send t of
             Sent \<Rightarrow> t\<lparr>core := c', wire := wire t @ [msg]\<rparr>
           | Discarded \<Rightarrow> t\<lparr>core := c'\<lparr>requests := requests c\<rparr>\<rparr>
           | Threw e \<Rightarrow> t\<lparr>core := thrown e op c (c'\<lparr>requests := requests c\<rparr>)\<rparr>))"

section \<open>Receiving and closing\<close>

text \<open>The frames of one chunk, handled in order. A handler that throws ends the read loop there and then.\<close>

definition threw :: "client \<Rightarrow> client \<Rightarrow> bool" where
  "threw c c' \<longleftrightarrow> TypeError \<in> set (drop (length (calls c)) (calls c'))"

fun handle_frames :: "js_lib \<Rightarrow> u8 list list \<Rightarrow> client \<Rightarrow> bool \<times> client" where
  "handle_frames js [] c = (True, c)"
| "handle_frames js (f # fs) c =
     (let c' = c_binary_event js f c in if threw c c' then (False, c') else handle_frames js fs c')"

definition t_chunk :: "js_lib \<Rightarrow> u8 list \<Rightarrow> wasmnet_client \<Rightarrow> wasmnet_client" where
  "t_chunk js chunk t =
     (case js_frames (unread t @ chunk) of
        (fs, rest) \<Rightarrow> (case handle_frames js fs (core t) of
           (going, c) \<Rightarrow> t\<lparr>core := c, reading := going, unread := rest\<rparr>))"

definition t_opened :: "wasmnet_client \<Rightarrow> wasmnet_client" where
  "t_opened t =
     (let t = t\<lparr>phase := Running, ready := Some True\<rparr> in
      case kind t of WebSocket \<Rightarrow> t | WebTransport \<Rightarrow> t\<lparr>writer := True, reading := True\<rparr>)"

definition t_closed :: "wasmnet_client \<Rightarrow> wasmnet_client" where
  "t_closed t =
     (let t = t\<lparr>phase := Ended, ready := (case ready t of None \<Rightarrow> Some False | Some r \<Rightarrow> Some r)\<rparr> in
      case kind t of
        WebSocket \<Rightarrow> t\<lparr>core := handleClose (core t)\<rparr>
      | WebTransport \<Rightarrow> if reading t then t\<lparr>core := handleClose (core t), reading := False\<rparr> else t)"

fun app_op :: "client_op \<Rightarrow> bool" where
  "app_op (OnCall _ _) = False"
| "app_op OnHangUp = False"
| "app_op _ = True"

inductive t_step :: "json_lib \<Rightarrow> js_lib \<Rightarrow> wasmnet_client \<Rightarrow> wasmnet_client \<Rightarrow> bool" for jl js where
  call: "app_op op \<Longrightarrow> t_step jl js t (t_call jl op t)"
| opened: "phase t = Opening \<Longrightarrow> t_step jl js t (t_opened t)"
| text_event: "kind t = WebSocket \<Longrightarrow> phase t = Running \<Longrightarrow> parse_json jl txt = Some v \<Longrightarrow> handleEvent v (core t) = Some c' \<Longrightarrow>
    t_step jl js t (t\<lparr>core := c'\<rparr>)"
| binary_event: "kind t = WebSocket \<Longrightarrow> phase t = Running \<Longrightarrow> t_step jl js t (t\<lparr>core := c_binary_event js frm (core t)\<rparr>)"
| chunk: "kind t = WebTransport \<Longrightarrow> phase t = Running \<Longrightarrow> reading t \<Longrightarrow> t_step jl js t (t_chunk js chunk t)"
| disconnect: "phase t = Opening \<or> phase t = Running \<Longrightarrow> t_step jl js t (t\<lparr>phase := Closing\<rparr>)"
| hang_up: "phase t \<noteq> Ended \<Longrightarrow> t_step jl js t (t_closed t)"

section \<open>Before the start\<close>

text \<open>A \<^verbatim>\<open>connect\<close> before the transport is open rejects its own promise, sends nothing, and leaves its socket in the table.\<close>

lemma connect_before_ready:
  assumes "phase t = Opening" and "kind t = WebTransport \<longrightarrow> \<not> writer t"
  shows "\<exists>e. calls (core (t_call jl (DoConnect addr port) t)) = calls (core t) @ [Rejected (nextId (core t)) e] \<and>
    wire (t_call jl (DoConnect addr port) t) = wire t \<and>
    hm_get (c_sockets (core (t_call jl (DoConnect addr port) t))) (nextId (core t)) = Some (stream_sock True)"
  using assms
  by (auto simp: t_call_def transport_send_def wire_message_def client_ops split: transport_kind.splits)

text \<open>A client on WebTransport is always in binary mode, so the transport's \<^verbatim>\<open>sendText\<close>, which throws, is never called.\<close>

interpretation wt_binary: inductive_invariant "\<lambda>t. WasmnetClient supported opts = Some t" "t_step jl js"
    "\<lambda>t. kind t = WebTransport \<longrightarrow> binary t" for supported opts jl js
proof
  fix t t'
  show "WasmnetClient supported opts = Some t \<Longrightarrow> kind t = WebTransport \<longrightarrow> binary t"
    by (auto simp: WasmnetClient_def Let_def split: if_splits)
  assume "kind t = WebTransport \<longrightarrow> binary t" and "t_step jl js t t'"
  from this(2,1) show "kind t' = WebTransport \<longrightarrow> binary t'"
    by cases (auto simp: t_call_def t_opened_def t_closed_def t_chunk_def Let_def
        split: send_outcome.splits transport_kind.splits option.splits prod.splits if_splits)
qed

section \<open>After the end\<close>

fun settling :: "js_out \<Rightarrow> bool" where
  "settling (Fulfilled _) = True"
| "settling (FulfilledPort _ _) = True"
| "settling (Rejected _ _) = True"
| "settling (LookupFulfilled _ _) = True"
| "settling (LookupRejected _ _) = True"
| "settling _ = False"

lemma methods_settle_nothing:
  "app_op op \<Longrightarrow> \<exists>outs. calls (client_step op c) = calls c @ outs \<and> list_all (\<lambda>out. \<not> settling out) outs"
  by (cases op) (auto simp: client_ops list_all_iff split: option.splits)

definition over :: "wasmnet_client \<Rightarrow> wasmnet_client \<Rightarrow> bool" where
  "over t0 t \<longleftrightarrow> phase t = Ended \<and> wire t = wire t0 \<and> (kind t = WebTransport \<longrightarrow> writer t) \<and>
     (\<exists>outs. calls (core t) = calls (core t0) @ outs \<and> list_all (\<lambda>out. \<not> settling out) outs)"

lemma over_call:
  assumes "over t0 t" and "app_op op"
  shows "over t0 (t_call jl op t)"
proof -
  have "transport_send t = Discarded" using assms(1) by (auto simp: over_def transport_send_def split: transport_kind.splits)
  moreover have "\<exists>i data. op = DoSend i data \<or> (\<exists>addr port. op = DoSendTo i addr port data)"
    if "requests (client_step op (core t)) \<noteq> requests (core t)" "wire_message jl t (last (requests (client_step op (core t)))) = None"
    using that assms(2)
    by (cases op) (auto simp: wire_message_def client_ops split: if_splits transport_kind.splits option.splits)
  ultimately show ?thesis using assms(1) methods_settle_nothing [OF assms(2), of "core t"]
    by (auto simp: over_def t_call_def Let_def say_def split: option.splits)
qed

interpretation over_inv: inductive_invariant "over t0" "t_step jl js" "over t0" for jl js t0
proof
  fix t t'
  assume over: "over t0 t" and "t_step jl js t t'"
  from this(2) show "over t0 t'"
  proof cases
    case (call op)
    with over show ?thesis by (simp add: over_call)
  qed (use over in \<open>simp_all add: over_def\<close>)
qed

text \<open>C38. Nothing settles after the end. When a transport that was open closes, the pending lookups, and no others, are
  rejected; every connect or bind promise pending then stays pending for ever, and so does every promise of a call
  made later, a lookup's included: whatever the application does, nothing more is sent and no promise is settled.\<close>

theorem nothing_settles_after_close:
  assumes "kind t = WebTransport \<longrightarrow> writer t \<and> reading t"
    and "reachable (\<lambda>u. u = t_closed t) (t_step jl js) t'"
  shows "wire t' = wire t \<and>
    (\<exists>outs. calls (core t') = calls (core t) @ outs \<and>
      (\<forall>i msg port. Rejected i msg \<notin> set outs \<and> Fulfilled i \<notin> set outs \<and> FulfilledPort i port \<notin> set outs) \<and>
      (\<forall>i addrs msg. LookupFulfilled i addrs \<notin> set outs \<and>
        (LookupRejected i msg \<in> set outs \<longleftrightarrow> hm_get (c_resolves (core t)) i \<noteq> None \<and> msg = ''connection closed'')))"
proof -
  let ?t = "t_closed t"
  have closed: "core ?t = handleClose (core t)" "wire ?t = wire t" "over ?t ?t"
    using assms(1) by (auto simp: t_closed_def over_def Let_def split: transport_kind.splits)
  from over_inv.inv_from [OF assms(2) closed(3)] obtain later where
    w: "wire t' = wire t" and "calls (core t') = calls (handleClose (core t)) @ later" and
    quiet: "list_all (\<lambda>out. \<not> settling out) later" by (auto simp: over_def closed)
  define outs where "outs = map (\<lambda>(i, _). CloseCb i) (filter (\<lambda>(_, s). onClose s) (c_sockets (core t))) @
    map (\<lambda>(i, _). LookupRejected i ''connection closed'') (c_resolves (core t)) @ later"
  have "calls (core t') = calls (core t) @ outs"
    using \<open>calls (core t') = _\<close> by (simp add: handleClose_def outs_def)
  moreover have "out \<notin> set later" if "settling out" for out using quiet that by (auto simp: list_all_iff)
  ultimately show ?thesis
    using w by (intro conjI exI [of _ outs]) (force simp: outs_def hm_get_def map_of_eq_None_iff)+
qed

definition demo_json :: json_lib where
  "demo_json = \<lparr>stringify = (\<lambda>_. []), parse_json = (\<lambda>_. None)\<rparr>"

theorem nothing_settles_after_close_witness:
  "\<exists>t t'. length (wire t) = 1 \<and> hm_get (c_sockets (core t)) 1 = Some (stream_sock True) \<and>
    reachable (\<lambda>u. u = t_closed t) (t_step demo_json demo_js) t' \<and> wire t' = wire t \<and>
    hm_get (c_sockets (core t')) 2 = Some (stream_sock True) \<and> (\<forall>i msg. Rejected i msg \<notin> set (calls (core t')))"
proof -
  define t0 where "t0 = the (WasmnetClient False \<lparr>transport_opt = None, binary_opt = True\<rparr>)"
  define t where "t = t_call demo_json (DoConnect ''a'' 1) (t_opened t0)"
  define t' where "t' = t_call demo_json (DoConnect ''b'' 2) (t_closed t)"
  have run: "reachable (\<lambda>u. u = t_closed t) (t_step demo_json demo_js) t'"
    unfolding t'_def by (intro reachable.move [where step = "t_step demo_json demo_js", OF _ t_step.call] reachable.start) simp_all
  have t: "kind t = WebTransport \<longrightarrow> writer t \<and> reading t" "length (wire t) = 1" "hm_get (c_sockets (core t)) 1 = Some (stream_sock True)"
    "hm_get (c_sockets (core t')) 2 = Some (stream_sock True)" "calls (core t) = []"
    unfolding t'_def t_def t0_def
    by (simp_all add: WasmnetClient_def t_opened_def t_closed_def t_call_def transport_send_def wire_message_def handleClose_def
        client_new_def client_ops)
  from nothing_settles_after_close [OF t(1) run] t(5)
  have "wire t' = wire t" "\<forall>i msg. Rejected i msg \<notin> set (calls (core t'))" by auto
  with t(2-4) run show ?thesis by blast
qed

end
