(* ===== verification/End_To_End.thy ===== *)
theory End_To_End
  imports Events Transport
begin

text \<open>
  The path of data from a peer to the application, end to end: read by a bridge of \<^verbatim>\<open>src/proxy.rs\<close>, raised as an event,
  encoded, written to the transport, cut into chunks by the network, put together and decoded by
  \<^verbatim>\<open>client/wasmnet-client.js\<close>, and buffered or handed to the callback.
\<close>

section \<open>A client fed with frames\<close>

text \<open>The history of a client: calls of the application, and frames as they arrive.\<close>

datatype feed = App client_op | Frame "u8 list"

fun fed :: "js_lib \<Rightarrow> feed list \<Rightarrow> client \<Rightarrow> client" where
  "fed js [] c = c"
| "fed js (App op # ins) c = fed js ins (client_step op c)"
| "fed js (Frame frm # ins) c = fed js ins (c_binary_event js frm c)"

fun frames_of :: "feed list \<Rightarrow> u8 list list" where
  "frames_of [] = []"
| "frames_of (App _ # ins) = frames_of ins"
| "frames_of (Frame frm # ins) = frm # frames_of ins"

fun calls_ok :: "nat \<Rightarrow> feed \<Rightarrow> bool" where
  "calls_ok i (App op) \<longleftrightarrow> app_op op \<and> keeps i op"
| "calls_ok i (Frame _) \<longleftrightarrow> True"

text \<open>The same history with each frame replaced by the event it encodes.\<close>

fun as_ops :: "codec_lib \<Rightarrow> feed list \<Rightarrow> event list \<Rightarrow> client_op list" where
  "as_ops lib (App op # ins) evs = op # as_ops lib ins evs"
| "as_ops lib (Frame _ # ins) (ev # evs) = OnCall True (client_view lib ev) # as_ops lib ins evs"
| "as_ops lib _ _ = []"

lemma fed_as_ops:
  assumes "list_all (\<lambda>ev. handleBinaryEvent js (encode_event lib ev) = Called (client_view lib ev)) evs"
    and "frames_of ins = map (encode_event lib) evs"
  shows "fed js ins c = client_run (as_ops lib ins evs) c"
  using assms by (induction lib ins evs arbitrary: c rule: as_ops.induct) (auto simp: c_binary_event_def)

lemma keeps_as_ops:
  "list_all (calls_ok i) ins \<Longrightarrow> list_all (\<lambda>ev. keeps i (OnCall True (client_view lib ev))) evs \<Longrightarrow>
    list_all (keeps i) (as_ops lib ins evs)"
  by (induction lib ins evs rule: as_ops.induct) auto

lemma payload_view:
  assumes "i < 2 ^ 53"
  shows "payload i (OnCall True (client_view lib ev)) = map (the \<circ> b64_decode lib) (data_events (of_nat i) [ev])"
proof -
  have "unat k = i \<longleftrightarrow> k = of_nat i" for k :: u64 using assms by (auto simp: unat_of_nat)
  then show ?thesis by (cases ev) auto
qed

lemma payload_app: "app_op op \<Longrightarrow> payload i op = []"
  by (cases op) auto

lemma payload_as_ops:
  assumes "i < 2 ^ 53" and "list_all (calls_ok i) ins" and "length (frames_of ins) = length evs"
  shows "concat (map (payload i) (as_ops lib ins evs)) = map (the \<circ> b64_decode lib) (data_events (of_nat i) evs)"
  using assms(2,3)
proof (induction lib ins evs rule: as_ops.induct)
  case (2 lib frm ins ev evs)
  have "data_events (of_nat i) (ev # evs) = data_events (of_nat i) [ev] @ data_events (of_nat i) evs"
    using data_events_append [of "of_nat i" "[ev]" evs] by simp
  with 2 payload_view [OF assms(1), of lib ev] show ?case by simp
qed (auto simp: payload_app)

section \<open>From the peer to the application\<close>

lemma data_events_prefix: "prefix xs ys \<Longrightarrow> prefix (data_events i xs) (data_events i ys)"
  by (auto simp: prefix_def)

lemma map_prefix: "prefix xs ys \<Longrightarrow> prefix (map f xs) (map f ys)"
  by (auto simp: prefix_def)

lemma map_prefixD: "prefix zs (map f xs) \<Longrightarrow> zs = map f (take (length zs) xs)"
  by (metis append_eq_conv_conj prefixE take_map)

text \<open>What is assumed of the outside: the libraries do what they document, texts of failures are UTF-8, and identifiers are
  numbers a browser can represent.\<close>

definition lawful :: "'net env \<Rightarrow> js_lib \<Rightarrow> event list \<Rightarrow> bool" where
  "lawful env js evs \<longleftrightarrow> b64_roundtrip (codec env) \<and> decodes_utf8 js \<and> lists_come_back (codec env) js \<and>
     list_all (\<lambda>ev. plain_event ev \<and> unat (event_id ev) < 2 ^ 53) evs"

text \<open>The socket of the application: open in the client's table, and not closed or failed by the events that arrived.\<close>

definition stays_open :: "codec_lib \<Rightarrow> nat \<Rightarrow> event list \<Rightarrow> bool" where
  "stays_open lib i evs \<longleftrightarrow> list_all (\<lambda>ev. keeps i (OnCall True (client_view lib ev))) evs"

lemma stays_open_take: "stays_open lib i evs \<Longrightarrow> stays_open lib i (take n evs)"
  by (auto simp: stays_open_def list_all_iff dest: in_set_takeD)

lemma delivery:
  assumes v: "visits env config x m ts" and laws: "lawful env js (tx x)"
    and frames: "frames_of ins = map (encode_event (codec env)) evs" and evs: "prefix evs (tx x)"
    and app: "list_all (calls_ok i) ins" and still: "stays_open (codec env) i evs"
    and sock: "sock_ok i c" "delivered i (calls c) = []" "buffered i c = []"
    and src: "i < 2 ^ 53" "one_source (of_nat i) (got x)"
  shows "prefix (delivered i (calls (fed js ins c)) @ buffered i (fed js ins c)) (bytes_of (of_nat i) (got x))"
proof -
  from v obtain s where s: "reachable (started config) (session_step env) s" "ctx s = x" "tasks s = ts" by (auto simp: visits_def)
  let ?enc = "b64_encode (codec env)" and ?dec = "the \<circ> b64_decode (codec env)"
  have "\<forall>ev \<in> set (tx x). handleBinaryEvent js (encode_event (codec env) ev) = Called (client_view (codec env) ev)"
    using typed_inv.good_reachable [OF s(1)] laws s(2) typed_carried [of env _ js] handle_event_frame [of "codec env" js]
    by (auto simp: typed_def lawful_def list_all_iff)
  moreover from evs have "set evs \<subseteq> set (tx x)" by (rule set_mono_prefix)
  ultimately have "fed js ins c = client_run (as_ops (codec env) ins evs) c"
    by (intro fed_as_ops frames) (auto simp: list_all_iff)
  moreover have "length (frames_of ins) = length evs" using frames by simp
  from client_run_data [OF sock(1) keeps_as_ops [OF app still [unfolded stays_open_def]]]
    payload_as_ops [OF src(1) app this, of "codec env"] sock
  have "delivered i (calls (client_run (as_ops (codec env) ins evs) c)) @ buffered i (client_run (as_ops (codec env) ins evs) c) =
      map ?dec (data_events (of_nat i) evs)" by simp
  moreover have "map ?enc (bytes_of (of_nat i) (got x)) =
      data_events (of_nat i) (tx x) @ map ?enc (bytes_of (of_nat i) (pend ts))"
    using flows_inv.good_reachable [OF s(1)] src(2) s by (simp add: flows_ok_def reads_ok_def)
  then have "prefix (data_events (of_nat i) evs) (map ?enc (bytes_of (of_nat i) (got x)))"
    using data_events_prefix [OF evs, of "of_nat i"] by (metis prefixI prefix_order.trans)
  then have "prefix (map ?dec (data_events (of_nat i) evs)) (map ?dec (map ?enc (bytes_of (of_nat i) (got x))))"
    by (rule map_prefix)
  moreover have "?dec \<circ> ?enc = id" using laws by (auto simp: lawful_def b64_roundtripD)
  ultimately show ?thesis by (simp add: comp_assoc)
qed


text \<open>C15. What the application receives is what the peer sent, over WebTransport: however the tasks of the session interleave, the
  network cuts the stream and the application's calls fall between the frames, what the data callback of an open
  socket has received, followed by what waits in its buffer, is the beginning of what was read from the peer, read by
  read and byte for byte. (One connection was read under the identifier, identifiers are below 2 to the 53, and the texts of
  failures are UTF-8 without a byte order mark.)\<close>

theorem application_receives_what_the_peer_sent:
  assumes "reachable (wt_started config) (wt_step env) w" and "lawful env js (tx (wt_ctx w))"
    and "events_fit (codec env) (tx (wt_ctx w))"
    and "prefix (concat chunks) (outbox w)" and "frames_of ins = fst (readLoop chunks [])"
    and "list_all (calls_ok i) ins" and "stays_open (codec env) i (tx (wt_ctx w))"
    and "sock_ok i c" and "delivered i (calls c) = []" and "buffered i c = []"
    and "i < 2 ^ 53" and "one_source (of_nat i) (got (wt_ctx w))"
  shows "prefix (delivered i (calls (fed js ins c)) @ buffered i (fed js ins c)) (bytes_of (of_nat i) (got (wt_ctx w)))"
proof -
  let ?evs = "tx (wt_ctx w)" and ?lib = "codec env"
  from wt_wire_inv.inv_reachable [OF assms(1)] assms(4) obtain rest where
    whole: "event_stream ?lib ?evs = concat chunks @ rest"
    unfolding wt_wire_def by (metis prefix_def prefix_order.trans)
  have "prefix (fst (js_frames (concat chunks))) (fst (js_frames (concat chunks @ rest)))"
    using js.frames_more [of "concat chunks" rest] by (simp add: prod_eq_iff)
  then have "prefix (frames_of ins) (map (encode_event ?lib) ?evs)"
    using js_frames_stream [OF assms(3)] whole assms(5) by (simp add: readLoop_stream)
  then have frames: "frames_of ins = map (encode_event ?lib) (take (length (frames_of ins)) ?evs)"
    by (rule map_prefixD)
  have "visits env config (wt_ctx w) (wt_main w) (wt_tasks w)"
    using wt_sim.inv_reachable [OF assms(1)] by (simp add: simulated_def)
  from delivery [OF this assms(2) frames take_is_prefix assms(6) stays_open_take [OF assms(7)] assms(8-12)] show ?thesis .
qed

text \<open>The same over a WebSocket in binary mode.\<close>

lemma written_binary:
  "prefix (map BinaryMsg frames) (written lib modes evs) \<Longrightarrow> frames = map (encode_event lib) (take (length frames) evs)"
proof (induction frames arbitrary: modes evs)
  case (Cons frm frames)
  then obtain mode modes' ev evs' where eq: "modes = mode # modes'" "evs = ev # evs'"
    by (cases modes; cases evs) (auto simp: written_def)
  with Cons.prems have "BinaryMsg frm = encode_message lib mode ev" "prefix (map BinaryMsg frames) (written lib modes' evs')"
    by (auto simp: written_def)
  with Cons.IH [OF this(2)] eq show ?case by (simp add: encode_message_def split: if_splits)
qed simp

lemma application_receives_over_websocket:
  assumes "reachable (started config) (session_step env) s" and "lawful env js (tx (ctx s))"
    and "prefix (map BinaryMsg (frames_of ins)) (session.wire s)"
    and "list_all (calls_ok i) ins" and "stays_open (codec env) i (tx (ctx s))"
    and "sock_ok i c" and "delivered i (calls c) = []" and "buffered i c = []"
    and "i < 2 ^ 53" and "one_source (of_nat i) (got (ctx s))"
  shows "prefix (delivered i (calls (fed js ins c)) @ buffered i (fed js ins c)) (bytes_of (of_nat i) (got (ctx s)))"
proof -
  from wire_inv.inv_reachable [OF assms(1)] obtain modes where "session.wire s = written (codec env) modes (tx (ctx s))"
    by (auto simp: wire_ok_def)
  with assms(3) have frames: "frames_of ins = map (encode_event (codec env)) (take (length (frames_of ins)) (tx (ctx s)))"
    by (intro written_binary) simp
  have "visits env config (ctx s) (main s) (tasks s)" using assms(1) by (auto simp: visits_def)
  from delivery [OF this assms(2) frames take_is_prefix assms(4) stays_open_take [OF assms(5)] assms(6-10)] show ?thesis .
qed


section \<open>A run over the whole path\<close>

text \<open>A WebTransport session with one request behind it and nothing written yet.\<close>

definition wt_at :: "'net env \<Rightarrow> 'net session_config \<Rightarrow> 'net ctx \<Rightarrow> task list \<Rightarrow> bool" where
  "wt_at env config x ts \<longleftrightarrow>
     (\<exists>w. reachable (wt_started config) (wt_step env) w \<and> wt_ctx w = x \<and> wt_tasks w = ts \<and> outbox w = [] \<and> wt_sent w = 0 \<and> wt_open w)"

lemma wt_at_connect:
  assumes "decode_request (codec env) frm = Some (Inr (Connect i addr port))" and "frm \<noteq> []" and "length frm \<le> unat MAX_FRAME"
    and "max_connections (cfg_policy config) \<noteq> 0"
  shows "wt_at env config (Ctx_new config) [Connecting i addr port None]"
proof -
  let ?w = "wt_new config (sendBinaryFrame frm)"
  have "wt_next (sendBinaryFrame frm) = Some (frm, [])"
    using wt.get_put [of frm "[]"] assms(2,3) by (simp add: sendBinaryFrame_wt_write)
  moreover have "dispatch env (Connect i addr port) (Ctx_new config) = (Ctx_new config, Ready, [Connecting i addr port None])"
    using assms(4) by (simp add: handle_connect_def at_connection_limit_def Ctx_new_def)
  moreover have "reachable (wt_started config) (wt_step env) (wt_turn env ?w)"
    by (intro reachable.move [where step = "wt_step env", OF _ wt_step.turn] reachable.start) (auto simp: wt_started_def wt_new_def)
  ultimately show ?thesis
    unfolding wt_at_def using assms(1) by (intro exI [of _ "wt_turn env ?w"]) (simp add: wt_turn_def wt_new_def Let_def)
qed

lemma wt_at_task:
  assumes "wt_at env config x [t]" and "task_step env (x, t) (x', new)"
  shows "wt_at env config x' new"
proof -
  from assms(1) obtain w where w: "reachable (wt_started config) (wt_step env) w" "wt_ctx w = x" "wt_tasks w = [] @ t # []"
    "outbox w = []" "wt_sent w = 0" "wt_open w" by (auto simp: wt_at_def)
  from reachable.move [OF w(1) wt_step.task [OF w(3)]] assms(2) w show ?thesis unfolding wt_at_def by fastforce
qed

lemma wt_at_written:
  assumes "wt_at env config x ts"
  shows "\<exists>w. reachable (wt_started config) (wt_step env) w \<and> wt_ctx w = x \<and> outbox w = event_stream (codec env) (tx x)"
proof -
  have "\<exists>w. reachable (wt_started config) (wt_step env) w \<and> wt_ctx w = x \<and> wt_sent w = n \<and> wt_open w \<and>
      outbox w = event_stream (codec env) (take n (tx x))" if "n \<le> length (tx x)" for n
    using that
  proof (induction n)
    case 0
    from assms show ?case by (auto simp: wt_at_def event_stream_def)
  next
    case (Suc n)
    then obtain w where w: "reachable (wt_started config) (wt_step env) w" "wt_ctx w = x" "wt_sent w = n" "wt_open w"
      "outbox w = event_stream (codec env) (take n (tx x))" by auto
    from reachable.move [OF w(1) wt_step.send, of None] w Suc.prems show ?case
      by (intro exI [of _ "wt_send env None w"])
        (simp add: wt_send_def Let_def take_Suc_conv_app_nth, simp add: event_stream_def)
  qed
  from this [of "length (tx x)"] show ?thesis by auto
qed

lemma wt_at_read:
  assumes "wt_at env config (Ctx_new config) [Connecting i addr port None]"
    and "cfg_pool config = Some p" and "idle p = []"
    and "resolve_and_check (net env) (cfg_policy config) lookup addr port = Inr t"
    and "bytes \<noteq> []" and "length bytes \<le> 16384"
    and "consume (of_nat (length bytes)) now (cfg_rate_limiter config) = Some (l, slept)"
  shows "\<exists>x ts. wt_at env config x ts \<and> got x = [(i, 0, bytes)] \<and> tx x = [Connected i, Data i (b64_encode (codec env) bytes)]"
proof -
  let ?x0 = "Ctx_new config"
  have "task_step env (?x0, Connecting i addr port None) (?x0, [Dialing i t None])"
    using task_step.approve [of env ?x0 i addr port None lookup] assms(4)
    by (simp add: connect_approve_def approved_target_def Ctx_new_def)
  from wt_at_task [OF assms(1) this] have at: "wt_at env config ?x0 [Dialing i t None]" .
  define x1 where "x1 = snd (channel (notify (Connected i) ((emit (TcpDial t) ?x0)\<lparr>active := 1\<rparr>)))"
  have "task_step env (?x0, Dialing i t None) (x1, [Registering i 0 0])"
    using task_step.dial [of env ?x0 i t clk "Established 0"] assms(2,3)
    by (simp add: op_defs empty_pool_get Let_def x1_def Ctx_new_def)
  from wt_at_task [OF at this] have at: "wt_at env config x1 [Registering i 0 0]" .
  define x2 where "x2 = register_tcp i 0 x1"
  from wt_at_task [OF at task_step.register] have at: "wt_at env config x2 [Bridging i 0 0 True Reading Waiting]" by (simp add: x2_def)
  define x3 where "x3 = x2\<lparr>got := [(i, 0, bytes)], rl := l\<rparr>"
  have "bridge_read True i 0 (Inr bytes) now x2 = Some (x3, Delivering bytes)"
    using assms(5-7) by (simp add: bridge_read_def meter_def x3_def x2_def x1_def register_tcp_def channel_def emit_def Ctx_new_def)
  from wt_at_task [OF wt_at_task [OF at task_step.read [OF this]] task_step.deliver] show ?thesis
    by (intro exI conjI, assumption)
      (simp_all add: bridge_deliver_def x3_def x2_def x1_def register_tcp_def channel_def emit_def Ctx_new_def)
qed


definition demo_history :: "feed list" where
  "demo_history = [App (DoOnData 1), Frame (encode_event (codec marking_env) (Connected 1)),
     Frame (encode_event (codec marking_env) (Data 1 ''hi''))]"

lemma demo_history_facts:
  "list_all (calls_ok 1) demo_history" "sock_ok 1 (c_connect ''a'' 1 client_new)" "delivered 1 (calls (c_connect ''a'' 1 client_new)) = []"
  "buffered 1 (c_connect ''a'' 1 client_new) = []" "stays_open (codec marking_env) 1 [Connected 1, Data 1 ''hi'']"
  "events_fit (codec marking_env) [Connected 1, Data 1 ''hi'']"
  "delivered 1 (calls (fed marking_js demo_history (c_connect ''a'' 1 client_new))) = [[104, 105]]"
  by code_simp+

lemma demo_path:
  "\<exists>w. reachable (wt_started demo_config) (wt_step marking_env) w \<and> got (wt_ctx w) = [(1, 0, [104, 105])] \<and>
    tx (wt_ctx w) = [Connected 1, Data 1 ''hi''] \<and> outbox w = event_stream (codec marking_env) (tx (wt_ctx w))"
proof -
  obtain l slept where "consume (of_nat (length [104 :: u8, 105])) 0 (cfg_rate_limiter demo_config) = Some (l, slept)"
    using consume_ok [OF limiter_ok_new] by (fastforce simp: demo_config_def)
  note consume = this
  have "decode_request (codec marking_env) (js_connect 1 ''8.8.8.8'' 53) = Some (Inr (Connect 1 ''8.8.8.8'' 53))"
    "js_connect 1 ''8.8.8.8'' 53 \<noteq> []" "length (js_connect 1 ''8.8.8.8'' 53) \<le> unat MAX_FRAME"
    "b64_encode (codec marking_env) [104, 105] = ''hi''" by code_simp+
  note start = wt_at_connect [OF this(1-3) demo_policy] and enc = this(4)
  have "cfg_pool demo_config = Some (ConnectionPool_new 30 8)" "idle (ConnectionPool_new 30 8 :: conn connection_pool) = []"
    "resolve_and_check (net marking_env) (cfg_policy demo_config) (\<lambda>_. Inl []) ''8.8.8.8'' 53 = Inr (SockV4 0x08080808 53)"
    using demo_approved by (simp_all add: demo_config_def ConnectionPool_new_def marking_env_def)
  from wt_at_read [OF start this _ _ consume] obtain x ts where at: "wt_at marking_env demo_config x ts"
    "got x = [(1, 0, [104, 105])]" "tx x = [Connected 1, Data 1 ''hi'']" by (auto simp: enc)
  from wt_at_written [OF at(1)] at(2,3) show ?thesis by auto
qed

theorem application_receives_what_the_peer_sent_witness:
  "\<exists>w. reachable (wt_started demo_config) (wt_step marking_env) w \<and> bytes_of 1 (got (wt_ctx w)) = [[104, 105]] \<and>
    prefix (delivered 1 (calls (fed marking_js demo_history (c_connect ''a'' 1 client_new)))) (bytes_of 1 (got (wt_ctx w))) \<and>
    delivered 1 (calls (fed marking_js demo_history (c_connect ''a'' 1 client_new))) = [[104, 105]]"
proof -
  from demo_path obtain w where w: "reachable (wt_started demo_config) (wt_step marking_env) w"
    "got (wt_ctx w) = [(1, 0, [104, 105])]" "tx (wt_ctx w) = [Connected 1, Data 1 ''hi'']"
    "outbox w = event_stream (codec marking_env) [Connected 1, Data 1 ''hi'']" by auto
  have "frames_of demo_history = fst (readLoop [take 5 (outbox w), drop 5 (outbox w)] [])"
    using js_frames_stream [OF demo_history_facts(6)] by (simp add: readLoop_stream w(4) demo_history_def)
  moreover have "lawful marking_env marking_js (tx (wt_ctx w))" using marking_lawful by (simp add: lawful_def w(3))
  moreover have "one_source (of_nat 1) (got (wt_ctx w))" by (simp add: one_source_def w(2))
  ultimately have "prefix (delivered 1 (calls (fed marking_js demo_history (c_connect ''a'' 1 client_new))) @
      buffered 1 (fed marking_js demo_history (c_connect ''a'' 1 client_new))) (bytes_of (of_nat 1) (got (wt_ctx w)))"
    using demo_history_facts w
    by (intro application_receives_what_the_peer_sent [OF w(1), where chunks = "[take 5 (outbox w), drop 5 (outbox w)]"]) simp_all
  then show ?thesis using w demo_history_facts(7) by (intro exI [of _ w]) (auto dest: append_prefixD)
qed

end
