(* ===== verification/Winddown.thy ===== *)
theory Winddown
  imports Streams
begin

text \<open>
  How a connection ends. Once the client has closed a socket its writer channel has no sender any more, and once the
  peer has closed the reader is done. From then on the bridge writes what is queued and ends, unless a write fails: no other
  part of the session can add to its channel or hold it up, whatever runs in between. When only the peer has closed, it waits.
\<close>

section \<open>Channels of the session loop\<close>

text \<open>The channel a handler has created and not yet entered into the map is no connection's.\<close>

fun main_chan :: "main_state \<Rightarrow> chan list" where
  "main_chan (UdpRegistering _ _ _ _ ch) = [ch]"
| "main_chan (BindRegistering _ _ ch) = [ch]"
| "main_chan _ = []"

definition apart :: "'net ctx \<Rightarrow> main_state \<Rightarrow> task list \<Rightarrow> bool" where
  "apart c m ts \<longleftrightarrow> (\<forall>ch \<in> set (main_chan m). ch < next_chan c \<and> ch \<notin> snd ` set (holders ts))"

definition apart_ok :: "'net ctx \<Rightarrow> main_state \<Rightarrow> task list \<Rightarrow> bool" where
  "apart_ok c m ts \<longleftrightarrow> streams_ok c m ts \<and> apart c m ts"

lemma handler_step_chan:
  "handler_step env (c, m) (c', m', new) \<Longrightarrow>
    holders new = [] \<and> (main_chan m' = [] \<or> main_chan m' = [next_chan c] \<and> next_chan c' = Suc (next_chan c))"
  by (cases rule: handler_stepE) (auto simp: op_defs Let_def split: op_splits)

lemma dispatch_chan: "dispatch env r c = (c', m', new) \<Longrightarrow> main_chan m' = []"
  by (cases r) (auto simp: op_defs Let_def split: op_splits)

lemma holders_fresh: "owned c ts \<Longrightarrow> (x, next_chan c) \<notin> set (holders ts)"
  using owned_bound by fastforce

interpretation apart_inv: session_invariant env config apart_ok
  for env :: "'net env" and config
proof
  show "apart_ok (Ctx_new config) Ready []"
    using streams_inv.good_new [of config] by (simp add: apart_ok_def apart_def)
  fix c c' :: "'net ctx" and m m' xs t ys ts new r e
  show "apart_ok c' m' (ts @ new)" if "apart_ok c Ready ts" and "dispatch env r c = (c', m', new)"
    using that streams_inv.good_dispatch [OF _ that(2)] dispatch_chan [OF that(2)] by (simp add: apart_ok_def apart_def)
  show "apart_ok c' m' (ts @ new)" if "apart_ok c m ts" and "handler_step env (c, m) (c', m', new)"
  proof -
    have "streams_ok c' m' (ts @ new)" using that streams_inv.good_handler by (auto simp: apart_ok_def)
    moreover have "(x, next_chan c) \<notin> set (holders ts)" for x
      using that(1) by (intro holders_fresh) (simp add: apart_ok_def streams_ok_def)
    ultimately show ?thesis using handler_step_chan [OF that(2)] unfolding apart_ok_def apart_def by auto
  qed
  show "apart_ok c' m (xs @ new @ ys)" if "apart_ok c m (xs @ t # ys)" and "task_step env (c, t) (c', new)"
    using that(1) streams_inv.good_task [OF _ that(2)] task_step_holder [OF that(2)]
    by (fastforce simp: apart_ok_def apart_def image_Un)
  show "apart_ok c m ts \<Longrightarrow> shared_step c c' \<Longrightarrow> apart_ok c' m ts"
    using streams_inv.good_shared [of c m ts c'] by (auto simp: apart_ok_def apart_def elim!: shared_stepE)
  show "apart_ok c Ready ts \<Longrightarrow> apart_ok (notify (event_error 0 e) c) Ready ts"
    using streams_inv.good_error [of c ts e] by (simp add: apart_ok_def apart_def)
  show "apart_ok c Ready ts \<Longrightarrow> apart_ok c CleaningUp ts"
    using streams_inv.good_stop [of c ts] by (simp add: apart_ok_def apart_def)
qed

section \<open>Closed channels stay closed\<close>

text \<open>The channels that are about to be entered into the map.\<close>

fun entering :: "task \<Rightarrow> chan list" where
  "entering (Registering _ _ ch) = [ch]"
| "entering (AcceptRegistering _ _ _ _ _ _ ch) = [ch]"
| "entering _ = []"

lemma entering_holder: "ch \<in> set (entering t) \<Longrightarrow> ch \<in> snd ` set (holder t)"
  by (cases t) auto

lemma task_step_sender:
  assumes "task_step env (c, t) (c', new)" and "sender_dropped c ch" and "ch \<notin> set (entering t)"
  shows "sender_dropped c' ch"
  using assms unfolding dropped_iff
  by (cases rule: task_stepE)
    (auto simp: op_defs Let_def split: op_splits elim!: task_cases)

lemma task_step_dropped:
  assumes "task_step env (c, t) (c', new)" and "sender_dropped c ch" and "ch \<notin> snd ` set (holder t)"
  shows "sender_dropped c' ch \<and> queue_of c' ch = queue_of c ch"
  using task_step_sender [OF assms(1,2)] task_step_frame [OF assms(1), of ch] assms(3) entering_holder by blast

lemma handler_step_dropped:
  assumes "handler_step env (c, m) (c', m', new)" and "sender_dropped c ch" and "ch \<notin> set (main_chan m)"
  shows "sender_dropped c' ch \<and> queue_of c' ch = queue_of c ch"
  using assms unfolding dropped_iff
  by (cases rule: handler_stepE) (auto simp: op_defs Let_def queue_of_def split: op_splits)

lemma dispatch_dropped:
  assumes "dispatch env r c = (c', m', new)" and "sender_dropped c ch"
  shows "sender_dropped c' ch \<and> queue_of c' ch = queue_of c ch"
  using assms dropped_no_entry [OF assms(2)] unfolding dropped_iff
  by (cases r) (auto simp: op_defs Let_def queue_of_def split: op_splits)

lemma shared_step_dropped: "shared_step c c' \<Longrightarrow> sender_dropped c' ch = sender_dropped c ch \<and> queue_of c' ch = queue_of c ch"
  by (erule shared_stepE) (simp_all add: dropped_iff queue_of_def)

section \<open>A drained bridge ends\<close>

text \<open>The steps a writer has still to make, with \<open>n\<close> messages in its closed channel.\<close>

fun writer_steps :: "writer_half \<Rightarrow> nat \<Rightarrow> nat" where
  "writer_steps Waiting n = 2 * n + 1"
| "writer_steps (Writing _) n = 2 * n + 2"
| "writer_steps WriterDone n = 0"

text \<open>The bridge is there, its peer and its client are done with it, its writer has \<open>n\<close> steps to make and the messages \<open>left\<close>
  to write.\<close>

definition draining :: "u64 \<Rightarrow> conn \<Rightarrow> chan \<Rightarrow> bool \<Rightarrow> nat \<Rightarrow> u8 list list \<Rightarrow> 'net ctx \<Rightarrow> task list \<Rightarrow> bool" where
  "draining i x ch counted n left c ts \<longleftrightarrow>
     sender_dropped c ch \<and>
     (\<exists>wr. Bridging i x ch counted ReaderDone wr \<in> set ts \<and> n = writer_steps wr (length (queue_of c ch)) \<and>
        left = writer_flight wr @ queue_of c ch)"

text \<open>A step of the bridge itself.\<close>

lemma bridge_progress:
  assumes "task_step env (c, Bridging i x ch counted ReaderDone wr) (c', new)" and "sender_dropped c ch"
  obtains (broke) part where "broken_by ch (effects c') = broken_by ch (effects c) @ [part]"
  | (ended) "c' = bridge_end counted c" "new = [Unregistering i]" "wr = WriterDone"
  | (moved) wr' where "sender_dropped c' ch" "new = [Bridging i x ch counted ReaderDone wr']"
      "writer_steps wr' (length (queue_of c' ch)) < writer_steps wr (length (queue_of c ch))"
      "broken_by ch (effects c') = broken_by ch (effects c)"
      "written_by ch (effects c') @ writer_flight wr' @ queue_of c' ch =
        written_by ch (effects c) @ writer_flight wr @ queue_of c ch"
  using assms(1)
proof (cases rule: task_step.cases)
  case (take now wr')
  then show thesis using moved assms(2) by (elim bridge_take_cases) (auto simp: dropped_iff queue_of_def)
next
  case (wrote data failed_at wr')
  then show thesis using moved broke assms(2)
    by (cases failed_at) (auto simp: bridge_write_def dropped_iff queue_of_def)
qed (use ended in simp_all)

lemma bridge_enabled:
  assumes "limiter_ok mbps (rl c)" and "sender_dropped c ch"
  obtains c' new where "task_step env (c, Bridging i x ch counted ReaderDone wr) (c', new)"
    "broken_by ch (effects c') = broken_by ch (effects c)"
proof (cases wr)
  case Waiting
  from meter_ok [OF assms(1)] have "meter counted n now c \<noteq> None" for n now by blast
  then have "bridge_take counted ch 0 c \<noteq> None" using assms(2) by (auto simp: bridge_take_def split: list.splits)
  then obtain c' wr' where took: "bridge_take counted ch 0 c = Some (c', wr')" by auto
  from took have "effects c' = effects c" by (elim bridge_take_cases) simp_all
  with that [of c'] task_step.take [OF took] Waiting show thesis by fastforce
next
  case (Writing data)
  have "bridge_write x ch data None c = (emit (TcpWrite x ch data) c, Waiting)" by (simp add: bridge_write_def)
  from task_step.wrote [OF _ this] that [of "emit (TcpWrite x ch data) c"] Writing show thesis by fastforce
next
  case WriterDone
  with that [OF task_step.joined [of env c i x ch counted, folded WriterDone]] show thesis by (simp add: bridge_end_def)
qed

text \<open>A writer that has ended has left nothing in its channel.\<close>

lemma ended_writer_empty:
  assumes "streams_ok c m ts" and "Bridging i x ch counted rd WriterDone \<in> set ts"
  shows "queue_of c ch = []"
proof -
  from assms(2) obtain xs ys where ts: "ts = xs @ Bridging i x ch counted rd WriterDone # ys" by (auto dest: split_list)
  have "owned c ts" using assms(1) by (simp add: streams_ok_def)
  from owned_apart [OF this [unfolded ts], of ch] have "ch \<notin> set (writers ts)"
    by (auto simp: ts dest: writers_holders)
  with assms(1) show ?thesis by (auto simp: streams_ok_def served_def)
qed

text \<open>From a draining state on, with \<open>w\<close> the messages written in the end and \<open>b\<close> the failed writes until now: a write fails,
  the bridge is still draining, or it is gone with everything written.\<close>

definition winding :: "u64 \<Rightarrow> conn \<Rightarrow> chan \<Rightarrow> bool \<Rightarrow> nat \<Rightarrow> u8 list list \<Rightarrow> nat \<Rightarrow> 'net ctx \<Rightarrow> task list \<Rightarrow> bool" where
  "winding i x ch counted n w b c ts \<longleftrightarrow>
     b < length (broken_by ch (effects c)) \<or>
     b = length (broken_by ch (effects c)) \<and>
       ((\<exists>n' left. n' \<le> n \<and> draining i x ch counted n' left c ts \<and> written_by ch (effects c) @ left = w) \<or>
        ch < next_chan c \<and> ch \<notin> snd ` set (holders ts) \<and> written_by ch (effects c) = w)"

lemma winding_cases:
  assumes "winding i x ch counted n w b c ts"
  obtains (broken) "b < length (broken_by ch (effects c))"
  | (draining) wr where "b = length (broken_by ch (effects c))" "sender_dropped c ch"
      "Bridging i x ch counted ReaderDone wr \<in> set ts" "writer_steps wr (length (queue_of c ch)) \<le> n"
      "written_by ch (effects c) @ writer_flight wr @ queue_of c ch = w"
  | (gone) "b = length (broken_by ch (effects c))" "ch < next_chan c" "ch \<notin> snd ` set (holders ts)"
      "written_by ch (effects c) = w"
  using assms unfolding winding_def draining_def by blast

lemma windingI:
  assumes "b = length (broken_by ch (effects c))" and "sender_dropped c ch" and "Bridging i x ch counted ReaderDone wr \<in> set ts"
    and "writer_steps wr (length (queue_of c ch)) \<le> n" and "written_by ch (effects c) @ writer_flight wr @ queue_of c ch = w"
  shows "winding i x ch counted n w b c ts"
  using assms unfolding winding_def draining_def by blast

text \<open>Steps that leave the channel alone, and those of its holder.\<close>

lemma winding_frame:
  assumes "winding i x ch counted n w b c ts" and "next_chan c \<le> next_chan c'"
    and "broken_by ch (effects c') = broken_by ch (effects c)" "written_by ch (effects c') = written_by ch (effects c)"
    and "sender_dropped c ch \<Longrightarrow> \<exists>wr. Bridging i x ch counted ReaderDone wr \<in> set ts \<Longrightarrow>
      sender_dropped c' ch \<and> queue_of c' ch = queue_of c ch"
    and "\<And>wr. Bridging i x ch counted ReaderDone wr \<in> set ts \<Longrightarrow> Bridging i x ch counted ReaderDone wr \<in> set ts'"
    and "ch < next_chan c \<Longrightarrow> ch \<notin> snd ` set (holders ts) \<Longrightarrow> ch \<notin> snd ` set (holders ts')"
  shows "winding i x ch counted n w b c' ts'"
  using assms(1)
proof (cases rule: winding_cases)
  case broken
  with assms(3) show ?thesis by (simp add: winding_def)
next
  case (draining wr)
  then have "sender_dropped c' ch \<and> queue_of c' ch = queue_of c ch" using assms(5) by blast
  with draining assms(3,4,6) show ?thesis by (intro windingI [of _ _ _ _ _ _ wr]) simp_all
next
  case gone
  with assms(2-4,7) show ?thesis by (simp add: winding_def)
qed

lemma winding_task:
  assumes "winding i x ch counted n w b c (xs @ t # ys)" and "streams_ok c m (xs @ t # ys)" and "task_step env (c, t) (c', new)"
  shows "winding i x ch counted n w b c' (xs @ new @ ys)"
proof (cases "ch \<in> snd ` set (holder t)")
  case False
  note step = task_step_frame [OF assms(3), of ch] task_step_holder [OF assms(3)]
  from assms(1) show ?thesis
  proof (rule winding_frame)
    show "sender_dropped c ch \<Longrightarrow> \<exists>wr. Bridging i x ch counted ReaderDone wr \<in> set (xs @ t # ys) \<Longrightarrow>
        sender_dropped c' ch \<and> queue_of c' ch = queue_of c ch"
      using task_step_dropped [OF assms(3) _ False] by blast
    show "ch < next_chan c \<Longrightarrow> ch \<notin> snd ` set (holders (xs @ t # ys)) \<Longrightarrow> ch \<notin> snd ` set (holders (xs @ new @ ys))"
      using step(2) by auto
    show "Bridging i x ch counted ReaderDone wr \<in> set (xs @ t # ys) \<Longrightarrow> Bridging i x ch counted ReaderDone wr \<in> set (xs @ new @ ys)"
      for wr using False by auto
  qed (use step False in auto)
next
  case True
  have owned: "owned c (xs @ t # ys)" using assms(2) by (simp add: streams_ok_def)
  note alone = owned_apart [OF owned True]
  from assms(1) show ?thesis
  proof (cases rule: winding_cases)
    case broken
    moreover have "length (broken_by ch (effects c)) \<le> length (broken_by ch (effects c'))"
      using task_step_moves [OF assms(3), of ch] by auto
    ultimately show ?thesis by (simp add: winding_def)
  next
    case (draining wr)
    have "Bridging i x ch counted ReaderDone wr \<notin> set xs \<union> set ys" using alone by (force simp: holders_def)
    with draining(3) have t: "t = Bridging i x ch counted ReaderDone wr" by auto
    from assms(3) [unfolded t] draining(2) show ?thesis
    proof (cases rule: bridge_progress)
      case (broke part)
      with draining(1) show ?thesis by (simp add: winding_def)
    next
      case ended
      moreover have "ch < next_chan c" using True owned_bound [OF owned] by fastforce
      moreover have "queue_of c ch = []" using ended_writer_empty [OF assms(2)] draining(3) ended by blast
      ultimately show ?thesis using draining alone by (auto simp: winding_def bridge_end_def)
    next
      case (moved wr')
      with draining show ?thesis by (intro windingI [of _ _ _ _ _ _ wr']) simp_all
    qed
  next
    case gone
    with True show ?thesis by auto
  qed
qed

lemma winding_quiet:
  assumes "winding i x ch counted n w b c ts" and "quiet c c' new"
    and "sender_dropped c ch \<Longrightarrow> \<exists>wr. Bridging i x ch counted ReaderDone wr \<in> set ts \<Longrightarrow>
      sender_dropped c' ch \<and> queue_of c' ch = queue_of c ch"
  shows "winding i x ch counted n w b c' (ts @ new)"
  using assms(1) by (rule winding_frame) (use assms(2,3) in \<open>auto simp: quiet_def\<close>)

lemma winding_same:
  assumes "winding i x ch counted n w b c ts" and "sockets c' = sockets c" "queued c' = queued c" "effects c' = effects c"
    "next_chan c' = next_chan c"
  shows "winding i x ch counted n w b c' ts"
  using assms(1) by (rule winding_frame) (use assms(2-) in \<open>simp_all add: dropped_iff queue_of_def\<close>)

lemma bridging_holder: "Bridging i x ch counted rd wr \<in> set ts \<Longrightarrow> (x, ch) \<in> set (holders ts)"
  unfolding holders_def by force

interpretation winding_kept: session_kept env "\<lambda>c m ts. apart_ok c m ts \<and> winding i x ch counted n w b c ts"
  for env :: "'net env" and i x ch counted n w b
proof
  fix c c' :: "'net ctx" and m m' xs t ys ts new r e
  show "apart_ok c' m' (ts @ new) \<and> winding i x ch counted n w b c' (ts @ new)"
    if "apart_ok c Ready ts \<and> winding i x ch counted n w b c ts" and "dispatch env r c = (c', m', new)"
    using that apart_inv.good_dispatch [OF _ that(2)] winding_quiet [OF _ dispatch_quiet [OF that(2)]] dispatch_dropped [OF that(2)]
    by blast
  show "apart_ok c' m' (ts @ new) \<and> winding i x ch counted n w b c' (ts @ new)"
    if "apart_ok c m ts \<and> winding i x ch counted n w b c ts" and "handler_step env (c, m) (c', m', new)"
  proof -
    have "sender_dropped c' ch \<and> queue_of c' ch = queue_of c ch"
      if "sender_dropped c ch" and "\<exists>wr. Bridging i x ch counted ReaderDone wr \<in> set ts"
    proof -
      from that(2) obtain wr where "Bridging i x ch counted ReaderDone wr \<in> set ts" ..
      from bridging_holder [OF this] \<open>apart_ok c m ts \<and> _\<close> have "ch \<notin> set (main_chan m)"
        by (force simp: apart_ok_def apart_def)
      with handler_step_dropped [OF \<open>handler_step env (c, m) (c', m', new)\<close> that(1)] show ?thesis by blast
    qed
    with that apart_inv.good_handler [OF _ that(2)] winding_quiet [OF _ handler_step_quiet [OF that(2)]] show ?thesis by blast
  qed
  show "apart_ok c' m (xs @ new @ ys) \<and> winding i x ch counted n w b c' (xs @ new @ ys)"
    if "apart_ok c m (xs @ t # ys) \<and> winding i x ch counted n w b c (xs @ t # ys)" and "task_step env (c, t) (c', new)"
    using that apart_inv.good_task [OF _ that(2)] winding_task [OF _ _ that(2)] by (auto simp: apart_ok_def)
  show "apart_ok c' m ts \<and> winding i x ch counted n w b c' ts"
    if "apart_ok c m ts \<and> winding i x ch counted n w b c ts" and "shared_step c c'"
    using that apart_inv.good_shared [OF _ that(2)] by (auto elim!: shared_stepE winding_same)
  show "apart_ok c Ready ts \<and> winding i x ch counted n w b c ts \<Longrightarrow>
      apart_ok (notify (event_error 0 e) c) Ready ts \<and> winding i x ch counted n w b (notify (event_error 0 e) c) ts"
    using apart_inv.good_error by (auto elim!: winding_same)
  show "apart_ok c Ready ts \<and> winding i x ch counted n w b c ts \<Longrightarrow>
      apart_ok c CleaningUp ts \<and> winding i x ch counted n w b c ts"
    using apart_inv.good_stop by auto
qed

lemma draining_next:
  assumes "limiter_ok mbps (rl (ctx s))" and "owned (ctx s) (tasks s)" and "draining i x ch counted n left (ctx s) (tasks s)"
  shows "\<exists>s'. session_step env s s' \<and> broken_by ch (effects (ctx s')) = broken_by ch (effects (ctx s)) \<and>
    ((x, ch) \<notin> set (holders (tasks s')) \<or> (\<exists>n' left'. n' < n \<and> draining i x ch counted n' left' (ctx s') (tasks s')))"
proof -
  from assms(3) obtain wr xs ys where wr: "sender_dropped (ctx s) ch" "n = writer_steps wr (length (queue_of (ctx s) ch))"
    and ts: "tasks s = xs @ Bridging i x ch counted ReaderDone wr # ys"
    by (auto simp: draining_def dest!: split_list)
  from bridge_enabled [OF assms(1) wr(1)] obtain c' new
    where step: "task_step env (ctx s, Bridging i x ch counted ReaderDone wr) (c', new)"
      and same: "broken_by ch (effects c') = broken_by ch (effects (ctx s))" by blast
  from step wr(1)
  have "(x, ch) \<notin> set (holders (xs @ new @ ys)) \<or> (\<exists>n' left'. n' < n \<and> draining i x ch counted n' left' c' (xs @ new @ ys))"
  proof (cases rule: bridge_progress)
    case ended
    with owned_apart [OF assms(2) [unfolded ts], of ch] show ?thesis by force
  next
    case (moved wr')
    with wr(2) show ?thesis by (intro disjI2 exI [of _ "writer_steps wr' (length (queue_of c' ch))"]) (auto simp: draining_def)
  qed (use same in simp)
  with session_step.task [OF ts step] same show ?thesis by fastforce
qed

text \<open>C19. A connection whose two ends are closed winds down and writes what is left: once the peer has closed and the client has
  closed the socket (or hung up), the bridge has \<open>n\<close> steps to make and the messages \<open>left\<close> to write. Whatever the session does
  from then on, unless a write to the peer fails, either the bridge is still there, with at most \<open>n\<close> steps to
  make, what it has written and what it has left are together what they were, and it can make a step that leaves fewer or
  ends it; or the bridge of this connection is gone and exactly the messages left were written.\<close>

theorem drained_bridge_ends:
  assumes "reachable (started (config\<lparr>cfg_rate_limiter := RateLimiter_new mbps t0\<rparr>)) (session_step env) s"
    and "draining i x ch counted n left (ctx s) (tasks s)"
    and "reachable (\<lambda>u. u = s) (session_step env) s'"
    and "broken_by ch (effects (ctx s')) = broken_by ch (effects (ctx s))"
  shows "(\<exists>n' left'. n' \<le> n \<and> draining i x ch counted n' left' (ctx s') (tasks s') \<and>
      written_by ch (effects (ctx s')) @ left' = written_by ch (effects (ctx s)) @ left \<and>
      (\<exists>s''. session_step env s' s'' \<and> broken_by ch (effects (ctx s'')) = broken_by ch (effects (ctx s')) \<and>
        ((x, ch) \<notin> set (holders (tasks s'')) \<or> (\<exists>n'' left''. n'' < n' \<and> draining i x ch counted n'' left'' (ctx s'') (tasks s''))))) \<or>
    ((x, ch) \<notin> set (holders (tasks s')) \<and> written_by ch (effects (ctx s')) = written_by ch (effects (ctx s)) @ left)"
proof -
  let ?w = "written_by ch (effects (ctx s)) @ left" and ?b = "length (broken_by ch (effects (ctx s)))"
  have "apart_ok (ctx s) (main s) (tasks s)" by (rule apart_inv.good_reachable [OF assms(1)])
  moreover have "winding i x ch counted n ?w ?b (ctx s) (tasks s)" using assms(2) unfolding winding_def by blast
  ultimately have later: "apart_ok (ctx s') (main s') (tasks s') \<and> winding i x ch counted n ?w ?b (ctx s') (tasks s')"
    using winding_kept.good_from [OF assms(3)] by blast
  then have owned: "owned (ctx s') (tasks s')" by (simp add: apart_ok_def streams_ok_def)
  have "reachable (started (config\<lparr>cfg_rate_limiter := RateLimiter_new mbps t0\<rparr>)) (session_step env) s'"
    using assms(3,1) by (induction rule: reachable.induct) (auto intro: reachable.move)
  from limits_inv.good_reachable [OF this] have "limiter_ok mbps (rl (ctx s'))" by (simp add: limits_ok_def)
  note next_step = draining_next [OF this owned]
  from conjunct2 [OF later] assms(4) consider (draining) n' left' where "n' \<le> n" "draining i x ch counted n' left' (ctx s') (tasks s')"
      "written_by ch (effects (ctx s')) @ left' = ?w"
    | (gone) "ch \<notin> snd ` set (holders (tasks s'))" "written_by ch (effects (ctx s')) = ?w"
    unfolding winding_def by auto
  then show ?thesis
  proof cases
    case (draining n' left')
    with next_step [OF draining(2)] show ?thesis by blast
  next
    case gone
    then show ?thesis by force
  qed
qed

text \<open>A run to such a state: a connection is made, the client sends a message and closes it, then the peer closes.\<close>

lemma close_run:
  assumes "max_connections (cfg_policy config) \<noteq> 0" and "\<forall>p. cfg_pool config = Some p \<longrightarrow> idle p = []"
    and "receive (codec env) msg = Request (Connect i addr port)"
    and "resolve_and_check (net env) (cfg_policy config) lookup addr port = Inr t"
    and "receive (codec env) msg' = Request (Send i data)" and "b64_decode (codec env) data = Some bytes"
    and "receive (codec env) msg'' = Request (Close i)"
  shows "\<exists>s. reachable (started config) (session_step env) s \<and> draining i 0 0 True 3 [bytes] (ctx s) (tasks s) \<and>
    effects (ctx s) = [TcpDial t]"
proof -
  from connects_run [OF assms(1,2), of env "\<lambda>_. msg" "\<lambda>_. i" addr port lookup t 1] assms(3,4)
  obtain c0 where v: "visits env config c0 Ready ([] @ Registering i 0 0 # [])" and c0: "dialled (\<lambda>_. i) t 1 config c0" by auto
  define c1 where "c1 = register_tcp i 0 c0"
  define c2 where "c2 = c1\<lparr>queued := hm_insert 0 [bytes] (queued c1), pushed := [(0, bytes)]\<rparr>"
  define c3 where "c3 = c2\<lparr>sockets := [], active := active c1 - 1, closes := Suc (closes c1)\<rparr>"
  have c1: "hm_get (sockets c1) i = Some (Tcp 0)" "hm_remove i (sockets c1) = []" "queued c1 = []" "pushed c1 = []"
    "closed_rx c1 = []" "effects c1 = [TcpDial t]"
    using c0 by (simp_all add: c1_def register_tcp_def dialled_def hm_remove_def hm_insert_def hm_get_def AList.delete_eq)
  from visits_task [OF v task_step.register]
  have v: "visits env config c1 Ready [Bridging i 0 0 True Reading Waiting]" by (simp add: c1_def)
  have "dispatch env (Send i data) c1 = (c2, Ready, [])"
    using assms(6) c1 by (simp add: handle_send_def c2_def queue_of_def Let_def)
  from visits_message [OF v assms(5) this]
  have v: "visits env config c2 Ready [Bridging i 0 0 True Reading Waiting]" by simp
  have "dispatch env (Close i) c2 = (c3, Ready, [])"
    using c1 by (simp add: handle_close_def c2_def c3_def)
  from visits_message [OF v assms(7) this]
  have v: "visits env config c3 Ready ([] @ Bridging i 0 0 True Reading Waiting # [])" by simp
  have "bridge_read True i 0 (Inr []) 0 c3 = Some (notify (Closed i) c3, ReaderDone)" by (simp add: bridge_read_def)
  from visits_task [OF v task_step.read [OF this]]
  obtain s where s: "reachable (started config) (session_step env) s" "ctx s = notify (Closed i) c3"
    "tasks s = [Bridging i 0 0 True ReaderDone Waiting]" by (auto simp: visits_def)
  have "draining i 0 0 True 3 [bytes] (ctx s) (tasks s) \<and> effects (ctx s) = [TcpDial t]"
    using s c1 by (simp add: draining_def dropped_iff c2_def c3_def queue_of_def)
  with s(1) show ?thesis by blast
qed

text \<open>Step by step, a draining bridge comes to its end.\<close>

lemma drained_run:
  assumes "reachable (started (config\<lparr>cfg_rate_limiter := RateLimiter_new mbps t0\<rparr>)) (session_step env) s"
    and "draining i x ch counted n left (ctx s) (tasks s)"
  shows "\<exists>s'. reachable (\<lambda>u. u = s) (session_step env) s' \<and> (x, ch) \<notin> set (holders (tasks s')) \<and>
    broken_by ch (effects (ctx s')) = broken_by ch (effects (ctx s))"
  using assms
proof (induction n arbitrary: s left rule: less_induct)
  case (less n)
  have "limiter_ok mbps (rl (ctx s))" using limits_inv.good_reachable [OF less(2)] by (simp add: limits_ok_def)
  moreover have "owned (ctx s) (tasks s)" using streams_inv.good_reachable [OF less(2)] by (simp add: streams_ok_def)
  ultimately obtain s1 where step: "session_step env s s1" "broken_by ch (effects (ctx s1)) = broken_by ch (effects (ctx s))"
    and "(x, ch) \<notin> set (holders (tasks s1)) \<or> (\<exists>n' left'. n' < n \<and> draining i x ch counted n' left' (ctx s1) (tasks s1))"
    using draining_next [OF _ _ less(3)] by blast
  then obtain s2 where "reachable (\<lambda>u. u = s1) (session_step env) s2" "(x, ch) \<notin> set (holders (tasks s2))"
    "broken_by ch (effects (ctx s2)) = broken_by ch (effects (ctx s1))"
    using less(1) [OF _ reachable.move [OF less(2) step(1)]] reachable.start [of "\<lambda>u. u = s1"] by blast
  moreover have "reachable (\<lambda>u. u = s) (session_step env) u" if "reachable (\<lambda>u. u = s1) (session_step env) u" for u
    using that by (induction rule: reachable.induct) (auto intro: reachable.intros step(1))
  ultimately show ?case using step(2) by metis
qed

theorem drained_bridge_ends_witness:
  "\<exists>s s'. reachable (started demo_config) (session_step demo_env) s \<and> draining 1 0 0 True 3 [[104, 105]] (ctx s) (tasks s) \<and>
    reachable (\<lambda>u. u = s) (session_step demo_env) s' \<and> (0, 0) \<notin> set (holders (tasks s')) \<and>
    written_by 0 (effects (ctx s')) = [[104, 105]]"
proof -
  have msg: "receive (codec demo_env) (BinaryMsg (js_send 1 [104, 105])) = Request (Send 1 ''hi'')"
    and data: "b64_decode (codec demo_env) ''hi'' = Some [104, 105]" by code_simp+
  from close_run [OF demo_policy demo_idle demo_messages(1) demo_approved msg data demo_messages(3)]
  obtain s where s: "reachable (started demo_config) (session_step demo_env) s"
    "draining 1 0 0 True 3 [[104, 105]] (ctx s) (tasks s)" "effects (ctx s) = [TcpDial (SockV4 0x08080808 53)]" by blast
  from s(1) have r: "reachable (started (demo_config\<lparr>cfg_rate_limiter := RateLimiter_new 10 0\<rparr>)) (session_step demo_env) s"
    by (simp only: demo_config_limit [symmetric])
  from drained_run [OF this s(2)] obtain s' where s': "reachable (\<lambda>u. u = s) (session_step demo_env) s'"
    "(0, 0) \<notin> set (holders (tasks s'))" "broken_by 0 (effects (ctx s')) = broken_by 0 (effects (ctx s))" by blast
  have "\<not> draining 1 0 0 True n left (ctx s') (tasks s')" for n left
    using s'(2) bridging_holder by (fastforce simp: draining_def)
  with drained_bridge_ends [OF r s(2) s'(1,3)] s s' show ?thesis by (intro exI [of _ s] exI [of _ s']) auto
qed

section \<open>A peer that closes does not release its connection\<close>

text \<open>The channel is past its registration, and the bridge waits on it with nothing to do, until the client sends on
  it or drops it.\<close>

definition stuck :: "u64 \<Rightarrow> conn \<Rightarrow> chan \<Rightarrow> bool \<Rightarrow> nat \<Rightarrow> 'net ctx \<Rightarrow> main_state \<Rightarrow> task list \<Rightarrow> bool" where
  "stuck i x ch counted n c m ts \<longleftrightarrow>
     ch < next_chan c \<and> ch \<notin> set (main_chan m) \<and> (\<forall>t \<in> set ts. ch \<notin> set (entering t)) \<and>
     n \<le> length (pushed_to ch c) \<and>
     (sender_dropped c ch \<or> n < length (pushed_to ch c) \<or>
      Bridging i x ch counted ReaderDone Waiting \<in> set ts \<and> queue_of c ch = [])"

lemma waiting_no_step:
  assumes "queue_of c ch = []" and "\<not> sender_dropped c ch"
  shows "\<not> task_step env (c, Bridging i x ch counted ReaderDone Waiting) out"
proof
  assume "task_step env (c, Bridging i x ch counted ReaderDone Waiting) out"
  then show False using assms by (cases rule: task_stepE) (auto simp: bridge_take_def)
qed

lemma task_step_entering:
  assumes "task_step env (c, t) (c', new)" and "u \<in> set new" and "ch \<in> set (entering u)"
  shows "ch = next_chan c"
  using assms
  by (cases rule: task_stepE) (auto simp: op_defs Let_def split: op_splits elim!: task_cases)

lemma stuck_task:
  assumes "stuck i x ch counted n c m (xs @ t # ys)" and "streams_ok c m (xs @ t # ys)" and "task_step env (c, t) (c', new)"
  shows "stuck i x ch counted n c' m (xs @ new @ ys)"
proof -
  let ?b = "Bridging i x ch counted ReaderDone Waiting"
  note step = task_step_frame [OF assms(3)] task_step_holder [OF assms(3)]
  have old: "ch < next_chan c" "ch \<notin> set (main_chan m)" "ch \<notin> set (entering t)" "\<And>u. u \<in> set xs \<union> set ys \<Longrightarrow> ch \<notin> set (entering u)"
      "n \<le> length (pushed_to ch c)"
    using assms(1) by (auto simp: stuck_def)
  have same: "pushed_to ch c' = pushed_to ch c" using step(1) by (simp add: pushed_to_def)
  have "ch \<notin> set (entering u)" if "u \<in> set (xs @ new @ ys)" for u
    using that old(1,4) task_step_entering [OF assms(3), of u ch] by auto
  moreover have "sender_dropped c' ch \<or> n < length (pushed_to ch c') \<or> ?b \<in> set (xs @ new @ ys) \<and> queue_of c' ch = []"
  proof (cases "sender_dropped c ch \<or> n < length (pushed_to ch c)")
    case True
    with same task_step_sender [OF assms(3) _ old(3)] show ?thesis by auto
  next
    case False
    with assms(1) have b: "?b \<in> set (xs @ t # ys)" "queue_of c ch = []" by (auto simp: stuck_def)
    with waiting_no_step [OF b(2)] False assms(3) have "t \<noteq> ?b" by blast
    with b(1) have b': "?b \<in> set xs \<union> set ys" by auto
    have "owned c (xs @ t # ys)" using assms(2) by (simp add: streams_ok_def)
    with b' bridging_holder [of i x ch counted ReaderDone Waiting] have "ch \<notin> snd ` set (holder t)"
      using owned_apart [of c xs t ys ch] by force
    with step(1) [of ch] b(2) b' show ?thesis by auto
  qed
  moreover have "ch < next_chan c'" using old(1) step(2) by simp
  ultimately show ?thesis using old(2,5) same unfolding stuck_def by metis
qed

lemma stuck_quiet:
  assumes "stuck i x ch counted n c m ts" and "quiet c c' new" and "ch \<notin> set (main_chan m')"
    and "sender_dropped c ch \<Longrightarrow> sender_dropped c' ch"
  shows "stuck i x ch counted n c' m' (ts @ new)"
proof -
  have "holders new = []" "next_chan c \<le> next_chan c'" using assms(2) by (simp_all add: quiet_def)
  then have "ch \<notin> set (entering u)" if "u \<in> set new" for u
    using that entering_holder [of ch u] by (force simp: holders_def)
  moreover have "length (pushed_to ch c) < length (pushed_to ch c') \<or> pushed_to ch c' = pushed_to ch c \<and> queue_of c' ch = queue_of c ch"
    using assms(2) by (cases rule: quiet_pushed) (auto simp: pushed_to_def queue_of_def)
  ultimately show ?thesis using assms(1,3,4) \<open>next_chan c \<le> next_chan c'\<close> by (auto simp: stuck_def)
qed

lemma stuck_same:
  "stuck i x ch counted n c m ts \<Longrightarrow> sockets c' = sockets c \<Longrightarrow> queued c' = queued c \<Longrightarrow> pushed c' = pushed c \<Longrightarrow>
    next_chan c' = next_chan c \<Longrightarrow> stuck i x ch counted n c' m ts"
  by (simp add: stuck_def dropped_iff queue_of_def pushed_to_def)

interpretation stuck_kept: session_kept env "\<lambda>c m ts. apart_ok c m ts \<and> stuck i x ch counted n c m ts"
  for env :: "'net env" and i x ch counted n
proof
  fix c c' :: "'net ctx" and m m' xs t ys ts new r e
  show "apart_ok c' m' (ts @ new) \<and> stuck i x ch counted n c' m' (ts @ new)"
    if "apart_ok c Ready ts \<and> stuck i x ch counted n c Ready ts" and "dispatch env r c = (c', m', new)"
    using that apart_inv.good_dispatch [OF _ that(2)] stuck_quiet [OF _ dispatch_quiet [OF that(2)]] dispatch_chan [OF that(2)]
      dispatch_dropped [OF that(2)] by fastforce
  show "apart_ok c' m' (ts @ new) \<and> stuck i x ch counted n c' m' (ts @ new)"
    if "apart_ok c m ts \<and> stuck i x ch counted n c m ts" and "handler_step env (c, m) (c', m', new)"
  proof -
    have "ch < next_chan c" "ch \<notin> set (main_chan m)" using that(1) by (simp_all add: stuck_def)
    then have "ch \<notin> set (main_chan m')" "sender_dropped c ch \<Longrightarrow> sender_dropped c' ch"
      using handler_step_chan [OF that(2)] handler_step_dropped [OF that(2)] by auto
    with that apart_inv.good_handler [OF _ that(2)] stuck_quiet [OF _ handler_step_quiet [OF that(2)]] show ?thesis by blast
  qed
  show "apart_ok c' m (xs @ new @ ys) \<and> stuck i x ch counted n c' m (xs @ new @ ys)"
    if "apart_ok c m (xs @ t # ys) \<and> stuck i x ch counted n c m (xs @ t # ys)" and "task_step env (c, t) (c', new)"
    using that apart_inv.good_task [OF _ that(2)] stuck_task [OF _ _ that(2)] by (auto simp: apart_ok_def)
  show "apart_ok c' m ts \<and> stuck i x ch counted n c' m ts"
    if "apart_ok c m ts \<and> stuck i x ch counted n c m ts" and "shared_step c c'"
    using that apart_inv.good_shared [OF _ that(2)] by (auto elim!: shared_stepE stuck_same)
  show "apart_ok c Ready ts \<and> stuck i x ch counted n c Ready ts \<Longrightarrow>
      apart_ok (notify (event_error 0 e) c) Ready ts \<and> stuck i x ch counted n (notify (event_error 0 e) c) Ready ts"
    using apart_inv.good_error by (auto elim!: stuck_same)
  show "apart_ok c Ready ts \<and> stuck i x ch counted n c Ready ts \<Longrightarrow>
      apart_ok c CleaningUp ts \<and> stuck i x ch counted n c CleaningUp ts"
    using apart_inv.good_stop by (auto simp: stuck_def)
qed

lemma stuck_start:
  assumes "apart_ok c m ts" and "Bridging i x ch counted ReaderDone Waiting \<in> set ts" and "queue_of c ch = []"
  shows "stuck i x ch counted (length (pushed_to ch c)) c m ts"
proof -
  let ?b = "Bridging i x ch counted ReaderDone Waiting"
  have owned: "owned c ts" using assms(1) by (simp add: apart_ok_def streams_ok_def)
  note held = bridging_holder [OF assms(2)]
  obtain xs ys where ts: "ts = xs @ ?b # ys" using assms(2) by (auto dest: split_list)
  have "ch \<notin> set (entering u)" if "u \<in> set ts" for u
  proof
    assume "ch \<in> set (entering u)"
    moreover from this that have "u \<in> set xs \<union> set ys" using ts by auto
    ultimately have "ch \<in> snd ` set (holders xs) \<union> snd ` set (holders ys)"
      using entering_holder [of ch u] by (force simp: holders_def)
    with owned_apart [OF owned [unfolded ts], of ch] show False by auto
  qed
  moreover have "ch \<notin> set (main_chan m)" using assms(1) held by (force simp: apart_ok_def apart_def)
  ultimately show ?thesis using assms(2,3) owned_bound [OF owned held] by (simp add: stuck_def)
qed

text \<open>C36. A peer that closes does not release its connection: when the peer has closed and nothing is queued for it, the bridge
  waits on its writer channel, and in every later state it still waits and has no step, whatever the network answers,
  for as long as the client has sent nothing more on the socket and its entry is in the map. It goes on being counted
  as active.\<close>

theorem peer_close_does_not_release:
  assumes "reachable (started config) (session_step env) s"
    and "Bridging i x ch counted ReaderDone Waiting \<in> set (tasks s)" and "queue_of (ctx s) ch = []"
    and "reachable (\<lambda>u. u = s) (session_step env) s'"
    and "\<not> sender_dropped (ctx s') ch" and "pushed_to ch (ctx s') = pushed_to ch (ctx s)"
  shows "Bridging i x ch counted ReaderDone Waiting \<in> set (tasks s') \<and>
    (\<forall>out. \<not> task_step env (ctx s', Bridging i x ch counted ReaderDone Waiting) out)"
proof -
  note ok = apart_inv.good_reachable [OF assms(1)]
  from stuck_kept.good_from [OF assms(4), of i x ch counted] ok stuck_start [OF ok assms(2,3)]
  have "stuck i x ch counted (length (pushed_to ch (ctx s))) (ctx s') (main s') (tasks s')" by blast
  with assms(5,6) have "Bridging i x ch counted ReaderDone Waiting \<in> set (tasks s')" "queue_of (ctx s') ch = []"
    by (auto simp: stuck_def)
  with waiting_no_step assms(5) show ?thesis by blast
qed

text \<open>The peer of the only connection closes, and the client's next message is a \<^verbatim>\<open>listen\<close> on another socket.\<close>

lemma half_closed_run:
  assumes "max_connections (cfg_policy config) \<noteq> 0" and "\<forall>p. cfg_pool config = Some p \<longrightarrow> idle p = []"
    and "receive (codec env) msg = Request (Connect i addr port)"
    and "resolve_and_check (net env) (cfg_policy config) lookup addr port = Inr t"
    and "receive (codec env) msg' = Request (Listen k backlog)"
  shows "\<exists>s s'. reachable (started config) (session_step env) s \<and> tasks s = [Bridging i 0 0 True ReaderDone Waiting] \<and>
    queue_of (ctx s) 0 = [] \<and> reachable (\<lambda>u. u = s) (session_step env) s' \<and> tx (ctx s') = [Connected i, Closed i, Listening k 0] \<and>
    active (ctx s') = 1 \<and> \<not> sender_dropped (ctx s') 0 \<and> pushed_to 0 (ctx s') = pushed_to 0 (ctx s)"
proof -
  from connects_run [OF assms(1,2), of env "\<lambda>_. msg" "\<lambda>_. i" addr port lookup t 1] assms(3,4)
  obtain c0 where v: "visits env config c0 Ready ([] @ Registering i 0 0 # [])" and c0: "dialled (\<lambda>_. i) t 1 config c0" by auto
  define c1 where "c1 = register_tcp i 0 c0"
  have c1: "queued c1 = []" "tx c1 = [Connected i]" "active c1 = 1" "\<not> sender_dropped c1 0"
    using c0 by (simp_all add: c1_def register_tcp_def dialled_def sender_dropped_def hm_insert_def)
  from visits_task [OF v task_step.register]
  have v: "visits env config c1 Ready ([] @ Bridging i 0 0 True Reading Waiting # [])" by (simp add: c1_def)
  have "bridge_read True i 0 (Inr []) 0 c1 = Some (notify (Closed i) c1, ReaderDone)" by (simp add: bridge_read_def)
  from visits_task [OF v task_step.read [OF this]]
  obtain s where s: "reachable (started config) (session_step env) s" "ctx s = notify (Closed i) c1" "main s = Ready"
    "tasks s = [Bridging i 0 0 True ReaderDone Waiting]" by (auto simp: visits_def)
  define s' where "s' = on_message env msg' s"
  have "reachable (\<lambda>u. u = s) (session_step env) s'"
    unfolding s'_def using reachable.start [of "\<lambda>u. u = s" s] session_step.message [OF s(3)] by (auto intro: reachable.move)
  moreover have "ctx s' = notify (Listening k 0) (ctx s)"
    by (simp add: s'_def on_message_def Let_def assms(5))
  ultimately show ?thesis using s c1
    by (intro exI [of _ s] exI [of _ s']) (simp add: queue_of_def pushed_to_def dropped_iff)
qed

theorem peer_close_does_not_release_witness:
  "\<exists>s'. reachable (started demo_config) (session_step demo_env) s' \<and> tx (ctx s') = [Connected 1, Closed 1, Listening 5 0] \<and>
    active (ctx s') = 1 \<and> Bridging 1 0 0 True ReaderDone Waiting \<in> set (tasks s') \<and>
    (\<forall>out. \<not> task_step demo_env (ctx s', Bridging 1 0 0 True ReaderDone Waiting) out)"
proof -
  have listen: "receive (codec demo_env) (BinaryMsg (js_listen 5 1)) = Request (Listen 5 1)" by code_simp
  from half_closed_run [OF demo_policy demo_idle demo_messages(1) demo_approved listen]
  obtain s s' where s: "reachable (started demo_config) (session_step demo_env) s"
      "tasks s = [Bridging 1 0 0 True ReaderDone Waiting]" "queue_of (ctx s) 0 = []"
    and s': "reachable (\<lambda>u. u = s) (session_step demo_env) s'" "tx (ctx s') = [Connected 1, Closed 1, Listening 5 0]"
      "active (ctx s') = 1" "\<not> sender_dropped (ctx s') 0" "pushed_to 0 (ctx s') = pushed_to 0 (ctx s)" by blast
  have "reachable (started demo_config) (session_step demo_env) s'"
    using s'(1) s(1) by (induction rule: reachable.induct) (auto intro: reachable.move)
  moreover have "Bridging 1 0 0 True ReaderDone Waiting \<in> set (tasks s)" using s(2) by simp
  from peer_close_does_not_release [OF s(1) this s(3) s'(1,4,5)]
  have "Bridging 1 0 0 True ReaderDone Waiting \<in> set (tasks s') \<and>
    (\<forall>out. \<not> task_step demo_env (ctx s', Bridging 1 0 0 True ReaderDone Waiting) out)" .
  ultimately show ?thesis using s'(2,3) by blast
qed

end
