(* ===== verification/Rule_Lists.thy ===== *)
theory Rule_Lists
  imports Policy
begin

text \<open>
  How \<^verbatim>\<open>parse_rules\<close> of \<^verbatim>\<open>src/policy.rs\<close> sorts a rule list: each entry is the catch-all, a network, a domain or nothing,
  by itself and independently of the others, and which entries are nothing.
\<close>

section \<open>Each entry by itself\<close>

text \<open>The class of one entry, in the order in which the loop tries them.\<close>

datatype 'net rule_class = CatchAll | Network "'net net_rule" | Domain domain_pattern | Dropped

definition classify :: "'net net_lib \<Rightarrow> str \<Rightarrow> 'net rule_class" where
  "classify lib entry =
     (if trim entry = ''*'' then CatchAll
      else (case NetRule_parse lib (trim entry) of
              Some rule \<Rightarrow> Network rule
            | None \<Rightarrow> (case DomainPattern_parse lib (trim entry) of Some dp \<Rightarrow> Domain dp | None \<Rightarrow> Dropped)))"

fun network_of :: "'net rule_class \<Rightarrow> 'net net_rule list" where
  "network_of (Network rule) = [rule]"
| "network_of _ = []"

fun domain_of :: "'net rule_class \<Rightarrow> domain_pattern list" where
  "domain_of (Domain dp) = [dp]"
| "domain_of _ = []"

lemma parse_rules_loop_sorts:
  "parse_rules_loop lib entries nets domains all =
     (nets @ concat (map (network_of \<circ> classify lib) entries), domains @ concat (map (domain_of \<circ> classify lib) entries),
      all \<or> (\<exists>e \<in> set entries. classify lib e = CatchAll))"
  by (induction entries arbitrary: nets domains all) (auto simp: classify_def Let_def split: option.splits)

lemma parse_rules_sorts:
  "parse_rules lib entries =
     (concat (map (network_of \<circ> classify lib) entries), concat (map (domain_of \<circ> classify lib) entries),
      \<exists>e \<in> set entries. classify lib e = CatchAll)"
  by (simp add: parse_rules_def parse_rules_loop_sorts)

lemma parse_rules_dropped:
  "classify lib e = Dropped \<Longrightarrow> parse_rules lib (xs @ e # ys) = parse_rules lib (xs @ ys)"
  by (simp add: parse_rules_sorts)

text \<open>What is dropped: an entry that is no network, and whose host is empty or \<^verbatim>\<open>*\<close> once the port, a leading \<^verbatim>\<open>*.\<close> and a final dot are
  taken off.\<close>

lemma classify_dropped:
  "classify lib entry = Dropped \<longleftrightarrow>
     trim entry \<noteq> ''*'' \<and> NetRule_parse lib (trim entry) = None \<and> DomainPattern_parse lib (trim entry) = None"
  by (auto simp: classify_def split: option.splits)

section \<open>A port on the catch-all\<close>

lemma star_no_ip: "parse_ip (CHR ''*'' # s) = None"
proof -
  have "takeWhile (is_digit r) (CHR ''*'' # s) = []" if "r \<in> {10, 16}" for r
  proof -
    have "\<not> is_digit 10 CHR ''*''" "\<not> is_digit 16 CHR ''*''" by code_simp+
    with that show ?thesis by auto
  qed
  then have number: "read_number r m z b (CHR ''*'' # s) = None" if "r \<in> {10, 16}" for r m z b
    using that by (auto simp: read_number_def Let_def)
  then have octets: "read_octets (Suc k) True (CHR ''*'' # s) = None" for k by (simp add: read_separator_def)
  then have v4: "read_ipv4_addr (CHR ''*'' # s) = None" using octets [of 3] by (simp add: read_ipv4_addr_def)
  with number have "read_groups (Suc k) True (CHR ''*'' # s) = ([], False, CHR ''*'' # s)" for k
    by (simp add: read_separator_def)
  from this [of 7] have "read_ipv6_addr (CHR ''*'' # s) = None" by (simp add: read_ipv6_addr_def read_char_def)
  with v4 show ?thesis by (simp add: parse_ip_def parse_with_def read_ip_addr_def)
qed

lemma star_port_split: "split_host_port (''*:'' @ print_u16 q) = (''*'', Some q)"
  using split_last_colon_port [of "''*''" q] by (simp add: split_host_port_unbracketed)

lemma star_port_dropped:
  assumes "net_from_str lib ''*'' = None" and "net_from_str lib (''*:'' @ print_u16 q) = None"
  shows "classify lib (''*:'' @ print_u16 q) = Dropped"
proof -
  have "is_digit 10 (last (print_u16 q))" using print_u16_digits [of q] by (simp add: list_all_iff)
  moreover have "is_graphic CHR ''*''" by code_simp
  ultimately have "trim (''*:'' @ print_u16 q) = ''*:'' @ print_u16 q"
    by (intro trim_graphic) (simp add: is_digit_graphic)
  moreover have "NetRule_parse lib (''*:'' @ print_u16 q) = None"
    using assms star_no_ip star_port_split [of q] by (simp add: NetRule_parse_def parse_net_def)
  moreover have "normalize_domain lib ''*'' = ''*''" "strip_prefix ''*.'' ''*'' = None"
    by (simp_all add: normalize_domain_def to_lowercase_def strip_suffix_def strip_prefix_def is_ascii_def ascii_lower_def)
  then have "DomainPattern_parse lib (''*:'' @ print_u16 q) = None"
    using star_port_split [of q] by (simp add: DomainPattern_parse_def)
  ultimately show ?thesis by (simp add: classify_dropped)
qed

text \<open>C30. A port on the catch-all disables the rule. An entry \<^verbatim>\<open>*:port\<close> of the deny or of the allow list is neither the
  catch-all nor a network nor a domain pattern: the policy is the one without that entry, so a deny list of \<^verbatim>\<open>*:22\<close> refuses
  nothing.\<close>

theorem port_on_the_catch_all_disables_the_rule:
  assumes "net_from_str lib ''*'' = None" and "net_from_str lib (''*:'' @ print_u16 q) = None"
  shows "Policy_new lib (config\<lparr>np_deny := xs @ (''*:'' @ print_u16 q) # ys\<rparr>) = Policy_new lib (config\<lparr>np_deny := xs @ ys\<rparr>) \<and>
    Policy_new lib (config\<lparr>np_allow := xs @ (''*:'' @ print_u16 q) # ys\<rparr>) = Policy_new lib (config\<lparr>np_allow := xs @ ys\<rparr>)"
  using parse_rules_dropped [OF star_port_dropped [OF assms]] by (simp add: Policy_new_def)

theorem port_on_the_catch_all_disables_the_rule_witness:
  "is_ok (check_connect demo_net (Policy_new demo_net (network_policy_default\<lparr>np_deny := [''*:22'']\<rparr>)) ''8.8.8.8'' 22) \<and>
   is_err (check_connect demo_net (Policy_new demo_net (network_policy_default\<lparr>np_deny := [''*'']\<rparr>)) ''8.8.8.8'' 22)"
proof -
  have rule: "''*:22'' = ''*:'' @ print_u16 22" by code_simp
  have "net_from_str demo_net ''*'' = None" "net_from_str demo_net (''*:'' @ print_u16 22) = None" by code_simp+
  from port_on_the_catch_all_disables_the_rule [OF this, where config = network_policy_default and xs = "[]" and ys = "[]"]
  have "Policy_new demo_net (network_policy_default\<lparr>np_deny := [''*:22'']\<rparr>) = Policy_new demo_net (network_policy_default\<lparr>np_deny := []\<rparr>)"
    unfolding rule by simp
  moreover have "is_ok (check_connect demo_net (Policy_new demo_net (network_policy_default\<lparr>np_deny := []\<rparr>)) ''8.8.8.8'' 22)"
    "is_err (check_connect demo_net (Policy_new demo_net (network_policy_default\<lparr>np_deny := [''*'']\<rparr>)) ''8.8.8.8'' 22)" by code_simp+
  ultimately show ?thesis by simp
qed

end
