(* ===== verification/Unit_Tests.thy ===== *)
theory Unit_Tests
  imports Proxy
begin

text \<open>
  The tests of the repository: the \<^verbatim>\<open>#[cfg(test)]\<close> modules of \<^verbatim>\<open>src/policy.rs\<close>, \<^verbatim>\<open>src/binary.rs\<close>, \<^verbatim>\<open>src/pool.rs\<close>, \<^verbatim>\<open>src/rate_limit.rs\<close> and
  \<^verbatim>\<open>src/dns.rs\<close>, and \<^verbatim>\<open>tests/policy_enforcement.rs\<close>: one predicate per test, the conjunction of its assertions, on the model's operations. What a test leaves
  to its surroundings is an argument: the network library of the policy, the codec crate, the instants at which the clock is
  read, the streams that were connected, the answers of the resolver. The lemmas show that the model passes every test.
\<close>

section \<open>Policy\<close>

text \<open>The helper \<^verbatim>\<open>policy(deny, allow)\<close> of the test module.\<close>

definition test_policy :: "'net net_lib \<Rightarrow> str list \<Rightarrow> str list \<Rightarrow> 'net policy" where
  "test_policy lib deny allow = Policy_new lib (network_policy_default\<lparr>np_deny := deny, np_allow := allow\<rparr>)"

text \<open>\<^verbatim>\<open>check_resolved("...".parse().unwrap(), port)\<close>; a text that is no address would panic.\<close>

definition check_resolved_text :: "'net net_lib \<Rightarrow> 'net policy \<Rightarrow> str \<Rightarrow> u16 \<Rightarrow> unit rresult option" where
  "check_resolved_text lib pol addr port = map_option (\<lambda>ip. check_resolved lib pol ip port) (parse_ip addr)"

definition default_policy_blocks_private :: "'net net_lib \<Rightarrow> bool" where
  "default_policy_blocks_private lib \<longleftrightarrow>
     (let policy = Policy_new lib network_policy_default in
      is_err (check_connect lib policy ''10.0.0.1'' 22) \<and>
      is_err (check_connect lib policy ''192.168.1.1'' 80) \<and>
      is_err (check_connect lib policy ''127.0.0.1'' 8080))"

definition default_policy_allows_public :: "'net net_lib \<Rightarrow> bool" where
  "default_policy_allows_public lib \<longleftrightarrow>
     (let policy = Policy_new lib network_policy_default in
      is_ok (check_connect lib policy ''8.8.8.8'' 53) \<and>
      is_ok (check_connect lib policy ''api.example.com'' 443))"

definition bind_port_check :: "'net net_lib \<Rightarrow> bool" where
  "bind_port_check lib \<longleftrightarrow>
     (let policy = Policy_new lib network_policy_default in
      is_ok (check_bind policy 3000) \<and> is_ok (check_bind policy 9999) \<and>
      is_err (check_bind policy 80) \<and> is_err (check_bind policy 22))"

definition deny_all_with_allowlist :: "'net net_lib \<Rightarrow> bool" where
  "deny_all_with_allowlist lib \<longleftrightarrow>
     (let policy = test_policy lib [''*''] [''api.example.com:443''] in
      is_ok (check_connect lib policy ''api.example.com'' 443) \<and>
      is_err (check_connect lib policy ''evil.com'' 80))"

definition resolved_address_hits_the_deny_list :: "'net net_lib \<Rightarrow> bool" where
  "resolved_address_hits_the_deny_list lib \<longleftrightarrow>
     (let policy = Policy_new lib network_policy_default in
      is_ok (check_connect lib policy ''localhost'' 80) \<and>
      map_option is_err (check_resolved_text lib policy ''127.0.0.1'' 80) = Some True \<and>
      map_option is_err (check_resolved_text lib policy ''169.254.169.254'' 80) = Some True \<and>
      map_option is_ok (check_resolved_text lib policy ''8.8.8.8'' 80) = Some True)"

definition domain_rule_port_is_enforced :: "'net net_lib \<Rightarrow> bool" where
  "domain_rule_port_is_enforced lib \<longleftrightarrow>
     (let policy = test_policy lib [] [''api.example.com:443''] in
      is_ok (check_connect lib policy ''api.example.com'' 443) \<and>
      is_err (check_connect lib policy ''api.example.com'' 22))"

definition domain_rule_without_port_covers_every_port :: "'net net_lib \<Rightarrow> bool" where
  "domain_rule_without_port_covers_every_port lib \<longleftrightarrow>
     (let policy = test_policy lib [] [''api.example.com''] in
      is_ok (check_connect lib policy ''api.example.com'' 443) \<and>
      is_ok (check_connect lib policy ''api.example.com'' 22))"

definition deny_rule_port_is_enforced :: "'net net_lib \<Rightarrow> bool" where
  "deny_rule_port_is_enforced lib \<longleftrightarrow>
     (let policy = test_policy lib [''evil.com:22''] [''*''] in
      is_err (check_connect lib policy ''evil.com'' 22) \<and>
      is_ok (check_connect lib policy ''evil.com'' 443))"

definition cidr_rule_port_is_enforced :: "'net net_lib \<Rightarrow> bool" where
  "cidr_rule_port_is_enforced lib \<longleftrightarrow>
     (let policy = test_policy lib [''10.0.0.0/8:22''] [''*''] in
      is_err (check_connect lib policy ''10.1.2.3'' 22) \<and>
      is_ok (check_connect lib policy ''10.1.2.3'' 443))"

definition bare_ip_rule_is_a_single_host_network :: "'net net_lib \<Rightarrow> bool" where
  "bare_ip_rule_is_a_single_host_network lib \<longleftrightarrow>
     (let policy = test_policy lib [''1.2.3.4''] [''*''] in
      is_err (check_connect lib policy ''1.2.3.4'' 80) \<and>
      is_ok (check_connect lib policy ''1.2.3.5'' 80))"

definition bracketed_ipv6_rule_carries_a_port :: "'net net_lib \<Rightarrow> bool" where
  "bracketed_ipv6_rule_carries_a_port lib \<longleftrightarrow>
     (let policy = test_policy lib [''[::1]:80'', ''fd00::/8''] [''*''] in
      is_err (check_connect lib policy ''::1'' 80) \<and>
      is_ok (check_connect lib policy ''::1'' 443) \<and>
      is_err (check_connect lib policy ''fd00::1'' 443))"

definition deny_covers_subdomains_and_the_apex :: "'net net_lib \<Rightarrow> bool" where
  "deny_covers_subdomains_and_the_apex lib \<longleftrightarrow>
     (let policy = test_policy lib [''evil.com'', ''*.blocked.com''] [''*''] in
      is_err (check_connect lib policy ''evil.com'' 80) \<and>
      is_err (check_connect lib policy ''EVIL.com'' 80) \<and>
      is_err (check_connect lib policy ''sub.evil.com'' 80) \<and>
      is_err (check_connect lib policy ''deep.sub.evil.com'' 80) \<and>
      is_err (check_connect lib policy ''blocked.com'' 80) \<and>
      is_err (check_connect lib policy ''x.blocked.com'' 80))"

definition trailing_dot_does_not_escape_a_rule :: "'net net_lib \<Rightarrow> bool" where
  "trailing_dot_does_not_escape_a_rule lib \<longleftrightarrow>
     (let policy = test_policy lib [''evil.com''] [''*''] in
      is_err (check_connect lib policy ''evil.com.'' 80) \<and>
      is_err (check_connect lib policy ''sub.evil.com.'' 80))"

definition allow_covers_subdomains_and_the_apex :: "'net net_lib \<Rightarrow> bool" where
  "allow_covers_subdomains_and_the_apex lib \<longleftrightarrow>
     (let policy = test_policy lib [''*''] [''*.github.com''] in
      is_ok (check_connect lib policy ''api.github.com'' 443) \<and>
      is_ok (check_connect lib policy ''github.com'' 443) \<and>
      is_ok (check_connect lib policy ''api.github.com.'' 443) \<and>
      is_err (check_connect lib policy ''notgithub.com'' 443))"

definition a_lookalike_suffix_does_not_match :: "'net net_lib \<Rightarrow> bool" where
  "a_lookalike_suffix_does_not_match lib \<longleftrightarrow>
     (let policy = test_policy lib [''evil.com''] [''*''] in
      is_ok (check_connect lib policy ''notevil.com'' 80) \<and>
      is_ok (check_connect lib policy ''evil.com.attacker.net'' 80))"

definition deny_wins_over_allow :: "'net net_lib \<Rightarrow> bool" where
  "deny_wins_over_allow lib \<longleftrightarrow>
     (let policy = test_policy lib [''sub.example.com''] [''example.com''] in
      is_ok (check_connect lib policy ''example.com'' 443) \<and>
      is_err (check_connect lib policy ''sub.example.com'' 443))"

named_theorems test_passes "the tests of the repository that the model passes"

text \<open>The tests of the default policy, with every network library that reads CIDR blocks.\<close>

lemmas default_policy_checks = check_connect_def check_ip_ok check_domain_ok check_resolved_ok check_resolved_text_def admits_def
  default_policy_parts name_denied_def is_err_not_ok

lemma literal_texts:
  "parse_ip ''10.0.0.1'' = Some (V4 0x0A000001)" "parse_ip ''192.168.1.1'' = Some (V4 0xC0A80101)"
  "parse_ip ''127.0.0.1'' = Some (V4 0x7F000001)" "parse_ip ''169.254.169.254'' = Some (V4 0xA9FEA9FE)"
  "parse_ip ''8.8.8.8'' = Some (V4 0x08080808)" "parse_ip ''api.example.com'' = None" "parse_ip ''localhost'' = None"
  by code_simp+

lemma private_texts:
  "is_private_v4 (V4 0x0A000001)" "is_private_v4 (V4 0xC0A80101)" "is_private_v4 (V4 0x7F000001)" "is_private_v4 (V4 0xA9FEA9FE)"
  "\<not> is_private_v4 (V4 0x08080808)"
  by code_simp+

lemma default_policy_blocks_private_passes [test_passes]: "ipnet_cidr4 lib \<Longrightarrow> default_policy_blocks_private lib"
  by (simp add: default_policy_blocks_private_def default_policy_checks literal_texts private_texts Let_def)

lemma default_policy_allows_public_passes [test_passes]: "ipnet_cidr4 lib \<Longrightarrow> default_policy_allows_public lib"
  by (simp add: default_policy_allows_public_def default_policy_checks literal_texts private_texts Let_def)

lemma resolved_address_hits_the_deny_list_passes [test_passes]:
  "ipnet_cidr4 lib \<Longrightarrow> resolved_address_hits_the_deny_list lib"
  by (simp add: resolved_address_hits_the_deny_list_def default_policy_checks literal_texts private_texts Let_def)

lemma bind_port_check_passes [test_passes]: "bind_port_check lib"
proof -
  have "np_bind_ports network_policy_default = join CHR '','' (map print_range [(3000, 9999)])" by code_simp
  note decision = bind_ports_decision [OF this, of lib]
  show ?thesis by (simp add: bind_port_check_def is_err_not_ok decision)
qed

text \<open>The tests of particular rules, with networks as CIDR blocks, by evaluation.\<close>

lemma deny_all_with_allowlist_passes [test_passes]: "deny_all_with_allowlist demo_net"
  by code_simp

lemma domain_rule_port_is_enforced_passes [test_passes]: "domain_rule_port_is_enforced demo_net"
  by code_simp

lemma domain_rule_without_port_covers_every_port_passes [test_passes]:
  "domain_rule_without_port_covers_every_port demo_net"
  by code_simp

lemma deny_rule_port_is_enforced_passes [test_passes]: "deny_rule_port_is_enforced demo_net"
  by code_simp

lemma cidr_rule_port_is_enforced_passes [test_passes]: "cidr_rule_port_is_enforced demo_net"
  by code_simp

lemma bare_ip_rule_is_a_single_host_network_passes [test_passes]: "bare_ip_rule_is_a_single_host_network demo_net"
  by code_simp

lemma ipv6_rules:
  "parse_rules demo_net [''[::1]:80'', ''fd00::/8''] =
    ([\<lparr>nr_net = (V6 1, 128), nr_port = Some 80\<rparr>, \<lparr>nr_net = (V6 0xfd000000000000000000000000000000, 8), nr_port = None\<rparr>], [], False)"
  by code_simp

lemma ipv6_texts: "parse_ip ''::1'' = Some (V6 1)" "parse_ip ''fd00::1'' = Some (V6 0xfd000000000000000000000000000001)"
  by code_simp+

lemma bracketed_ipv6_rule_carries_a_port_passes [test_passes]: "bracketed_ipv6_rule_carries_a_port demo_net"
proof -
  have "parse_rules demo_net [''*''] = ([], [], True)" by code_simp
  moreover have "net_contains demo_net = cidr_contains" by (simp add: demo_net_def)
  ultimately have pol: "ip_denied demo_net (test_policy demo_net [''[::1]:80'', ''fd00::/8''] [''*'']) ip port \<longleftrightarrow>
      cidr_contains (V6 1, 128) ip \<and> port = 80 \<or> cidr_contains (V6 0xfd000000000000000000000000000000, 8) ip"
    "allow_all (test_policy demo_net [''[::1]:80'', ''fd00::/8''] [''*''])"
    "\<not> deny_all (test_policy demo_net [''[::1]:80'', ''fd00::/8''] [''*''])" for ip port
    by (auto simp: test_policy_def Policy_new_def ipv6_rules ip_denied_def NetRule_matches_def port_covers_def)
  show ?thesis
    by (simp add: bracketed_ipv6_rule_carries_a_port_def is_err_not_ok check_connect_def ipv6_texts check_ip_ok admits_def pol Let_def)
qed

lemma deny_covers_subdomains_and_the_apex_passes [test_passes]: "deny_covers_subdomains_and_the_apex demo_net"
  by code_simp

lemma trailing_dot_does_not_escape_a_rule_passes [test_passes]: "trailing_dot_does_not_escape_a_rule demo_net"
  by code_simp

lemma allow_covers_subdomains_and_the_apex_passes [test_passes]: "allow_covers_subdomains_and_the_apex demo_net"
  by code_simp

lemma a_lookalike_suffix_does_not_match_passes [test_passes]: "a_lookalike_suffix_does_not_match demo_net"
  by code_simp

lemma deny_wins_over_allow_passes [test_passes]: "deny_wins_over_allow demo_net"
  by code_simp

section \<open>Binary frames\<close>

definition roundtrip_connect :: "codec_lib \<Rightarrow> bool" where
  "roundtrip_connect lib \<longleftrightarrow>
     (let req = Connect 42 ''example.com'' 443;
          data = CONNECT # to_be_bytes_u64 42 @ to_be_bytes_u16 443 @ as_bytes ''example.com''
      in case decode_request lib data of
           Some (Inr decoded) \<Rightarrow> request_id decoded = request_id req
         | _ \<Rightarrow> False)"

definition roundtrip_data_event :: "codec_lib \<Rightarrow> bool" where
  "roundtrip_data_event lib \<longleftrightarrow>
     (let raw = as_bytes ''hello world'';
          encoded = encode_event lib (Data 7 (b64_encode lib raw))
      in index encoded 0 = Some DATA \<and>
         map_option from_be_bytes_u64 (slice encoded 1 9) = Some 7 \<and>
         slice_from encoded 9 = Some raw)"

definition send_carries_raw_bytes :: "codec_lib \<Rightarrow> bool" where
  "send_carries_raw_bytes lib \<longleftrightarrow>
     (let raw = [0xDE, 0xAD, 0xBE, 0xEF];
          data = SEND # to_be_bytes_u64 1 @ raw
      in case decode_request lib data of
           Some (Inr (Send _ payload)) \<Rightarrow> b64_decode lib payload = Some raw
         | _ \<Rightarrow> False)"

definition too_short_rejected :: "codec_lib \<Rightarrow> bool" where
  "too_short_rejected lib \<longleftrightarrow> map_option is_err (decode_request lib [0x01, 0, 0, 0]) = Some True"

text \<open>With any base64 engine that decodes what it encodes.\<close>

lemma roundtrip_connect_passes [test_passes]: "roundtrip_connect lib"
proof -
  have "is_utf8 ''example.com''" by code_simp
  then have "decode_request lib (frame CONNECT 42 (to_be_bytes_u16 443 @ as_bytes ''example.com'')) =
      Some (Inr (Connect 42 ''example.com'' 443))"
    by (simp add: decode_host_port is_utf8_def codec_simps)
  then show ?thesis by (simp add: roundtrip_connect_def frame_def)
qed

lemma roundtrip_data_event_passes [test_passes]: "b64_roundtrip lib \<Longrightarrow> roundtrip_data_event lib"
  by (simp add: roundtrip_data_event_def b64_roundtripD unwrap_or_empty_def codec_simps)

lemma send_carries_raw_bytes_passes [test_passes]:
  assumes "b64_roundtrip lib"
  shows "send_carries_raw_bytes lib"
proof -
  have "decode_request lib (SEND # to_be_bytes_u64 i @ raw) = Some (Inr (Send i (b64_encode lib raw)))" for i raw
    using decode_send [of lib i raw] by (simp add: frame_def)
  then show ?thesis by (simp add: send_carries_raw_bytes_def b64_roundtripD [OF assms])
qed

lemma too_short_rejected_passes [test_passes]: "too_short_rejected lib"
  by (simp add: too_short_rejected_def decode_short)

section \<open>Connection pool\<close>

definition put_and_get :: "str \<Rightarrow> 's \<Rightarrow> nanos \<Rightarrow> clock \<Rightarrow> bool" where
  "put_and_get target client_stream now clk \<longleftrightarrow>
     (let pool = pool_put target client_stream now (ConnectionPool_new 30 4);
          (got, pool') = pool_get target clk pool
      in pool_size pool = 1 \<and> got \<noteq> None \<and> pool_size pool' = 0)"

definition expired_entries_pruned :: "str \<Rightarrow> 's \<Rightarrow> nanos \<Rightarrow> clock \<Rightarrow> bool" where
  "expired_entries_pruned target client_stream now clk \<longleftrightarrow>
     (let pool = pool_put target client_stream now (ConnectionPool_new 0 4) in
      fst (pool_get target clk pool) = None)"

text \<open>Whatever stream was connected to whatever target: the first test as long as the stream is asked for within the pool's
  30 seconds, the second one at all times, even without its sleep.\<close>

lemma put_and_get_passes [test_passes]:
  "clk 0 < now + 30 * NANOS_PER_SEC \<Longrightarrow> put_and_get target client_stream now clk"
  by (auto simp: put_and_get_def pool_put_def pool_get_def ConnectionPool_new_def pool_size_def fresh_def duration_since_def
      hm_get_def hm_insert_def hm_remove_def NANOS_PER_SEC_def Let_def)

lemma expired_entries_pruned_passes [test_passes]: "expired_entries_pruned target client_stream now clk"
  by (simp add: expired_entries_pruned_def pool_put_def pool_get_def ConnectionPool_new_def fresh_def Let_def)

section \<open>Rate limiter\<close>

definition unlimited_does_not_block :: "nanos \<Rightarrow> bool" where
  "unlimited_does_not_block now \<longleftrightarrow> map_option snd (consume 1000000 now unlimited) = Some None"

text \<open>\<^verbatim>\<open>start.elapsed()\<close> after a call is the time the call slept.\<close>

definition slept :: "(rate_limiter \<times> nanos option) option \<Rightarrow> nanos option" where
  "slept r = map_option (\<lambda>(_, wait). case wait of None \<Rightarrow> 0 | Some w \<Rightarrow> w) r"

definition small_transfer_within_budget :: "nanos \<Rightarrow> nanos \<Rightarrow> bool" where
  "small_transfer_within_budget created start \<longleftrightarrow>
     (case slept (consume 1024 start (RateLimiter_new 10 created)) of
        Some elapsed \<Rightarrow> elapsed < 50 * 1000000
      | None \<Rightarrow> False)"

definition over_budget_throttles :: "nanos \<Rightarrow> nanos \<Rightarrow> nanos \<Rightarrow> bool" where
  "over_budget_throttles created drained start \<longleftrightarrow>
     (case consume 125000 drained (RateLimiter_new 1 created) of
        Some (limiter, _) \<Rightarrow>
          (case slept (consume 125000 start limiter) of
             Some elapsed \<Rightarrow> 500 * 1000000 \<le> elapsed
           | None \<Rightarrow> False)
      | None \<Rightarrow> False)"

lemma unlimited_does_not_block_passes [test_passes]: "unlimited_does_not_block now"
  by (simp add: unlimited_does_not_block_def consume_def unlimited_def)

lemma small_transfer_within_budget_passes [test_passes]: "small_transfer_within_budget created start"
proof -
  have "\<exists>limiter. consume_all [(start, 1024)] (RateLimiter_new 10 created) = Some (limiter, [None])"
    using burst_within_capacity_never_waits [of 10 "[(start, 1024)]" created] by (simp add: bytes_per_sec_def)
  then show ?thesis
    by (auto simp: small_transfer_within_budget_def slept_def split: option.splits prod.splits)
qed

text \<open>The third test as long as its two calls are a quarter of a second apart at most; the first one may come at any time.\<close>

lemma drained_bucket: "consume 125000 drained (RateLimiter_new 1 created) = Some (empty_bucket 1 drained, None)"
proof -
  define b where "b = \<lparr>tokens = 125000, capacity = 125000, refill_rate = 125000, last_refill = created\<rparr>"
  have new: "RateLimiter_new 1 created = \<lparr>inner = Some b\<rparr>"
    using new_bps [of 1] by (simp add: RateLimiter_new_def b_def bytes_per_sec_def)
  have "bucket_ok 1 b" by (simp add: bucket_ok_def b_def bytes_per_sec_def)
  then have "rat_of_nat 125000 \<le> tokens (refill drained b)"
    by (rule refill_keeps) (simp_all add: b_def)
  then have "refill drained b = b\<lparr>last_refill := drained\<rparr>" by (simp add: refill_def b_def Let_def)
  moreover have "f64_of_nat 125000 = 125000" by (simp add: f64_of_nat_def f64_round_numeral)
  ultimately show ?thesis
    by (simp add: consume_def new take_tokens_def empty_bucket_def b_def f64_sub_def bytes_per_sec_def)
qed

lemma f64_quarters: "f64_round (1 / 4) = 1 / 4" "f64_round (3 / 4) = 3 / 4"
  by code_simp+

lemma quarter_second: "d \<le> 250000000 \<Longrightarrow> as_secs_f64 d \<le> 1 / 4"
proof -
  assume d: "d \<le> 250000000"
  have "rat_of_nat d \<le> of_nat 250000000" unfolding of_nat_le_iff by (rule d)
  then have "f64_round (of_nat d / 1000000000) \<le> 1 / 4"
    using f64.fl_mono [of "of_nat d / 1000000000" "1 / 4"] f64_quarters by simp
  moreover have "f64_round (f64_round (of_nat d / 1000000000)) \<le> 1 / 4"
    using f64.fl_mono [of "f64_round (of_nat d / 1000000000)" "1 / 4"] f64_quarters calculation f64.fl_nonneg by simp
  moreover have "f64_round (of_nat d) = of_nat d" using d by (intro f64.fl_nat) simp
  ultimately show ?thesis
    using d by (simp add: as_secs_f64_def f64_add_def f64_div_def f64_of_nat_def NANOS_PER_SEC_def f64_round_numeral)
qed

lemma over_budget_throttles_passes [test_passes]:
  assumes "start \<le> drained + 250000000"
  shows "over_budget_throttles created drained start"
proof -
  define b where "b = \<lparr>tokens = 0, capacity = 125000, refill_rate = 125000, last_refill = drained\<rparr>"
  define t where "t = tokens (refill start b)"
  let ?e = "as_secs_f64 (duration_since start drained)"
  have "?e \<le> 1 / 4" using assms by (intro quarter_second) (simp add: duration_since_def)
  then have "f64_mul ?e 125000 \<le> of_nat 31250" "0 \<le> f64_mul ?e 125000"
    unfolding f64_mul_def using as_secs_f64_nonneg by (intro f64.fl_upper f64.fl_nonneg; simp)+
  then have "f64_add 0 (f64_mul ?e 125000) \<le> of_nat 31250" "0 \<le> f64_add 0 (f64_mul ?e 125000)"
    unfolding f64_add_def by (intro f64.fl_upper f64.fl_nonneg; simp)+
  then have t: "0 \<le> t" "t \<le> 31250" and rate: "refill_rate (refill start b) = 125000" by (simp_all add: t_def refill_def b_def Let_def)
  then have "of_nat 93750 \<le> f64_sub 125000 t" "f64_sub 125000 t \<le> of_nat 125000"
    unfolding f64_sub_def by (intro f64.fl_lower f64.fl_upper; simp)+
  then have "3 / 4 \<le> f64_div (f64_sub 125000 t) 125000"
    using f64.fl_mono [of "3 / 4" "f64_sub 125000 t / 125000"] f64_quarters by (simp add: f64_div_def)
  then have "750000000 \<le> round_half_even (f64_div (f64_sub 125000 t) 125000 * of_nat NANOS_PER_SEC)"
    by (intro round_half_even_ge) (simp add: NANOS_PER_SEC_def)
  moreover have need: "f64_of_nat 125000 = 125000" by (simp add: f64_of_nat_def f64_round_numeral)
  moreover have "bucket_ok 1 (refill start b)"
    using refill_ok [of 1 b start] by (simp add: bucket_ok_def b_def bytes_per_sec_def)
  then obtain w where "from_secs_f64 (f64_div (f64_sub 125000 t) 125000) = Some w"
    using wait_defined [of 1 "refill start b" 125000] t rate need by (auto simp flip: t_def)
  ultimately have "take_tokens 125000 (refill start b) = Some ((refill start b)\<lparr>tokens := 0\<rparr>, Some w)" "500000000 \<le> w"
    using t rate by (auto simp: take_tokens_def from_secs_f64_def Let_def simp flip: t_def split: if_splits)
  moreover have "empty_bucket 1 drained = \<lparr>inner = Some b\<rparr>" by (simp add: empty_bucket_def b_def bytes_per_sec_def)
  ultimately have "\<exists>limiter. consume 125000 start (empty_bucket 1 drained) = Some (limiter, Some w)" "500000000 \<le> w"
    by (simp_all add: consume_def)
  then show ?thesis by (auto simp: over_budget_throttles_def drained_bucket slept_def)
qed

section \<open>Name resolution\<close>

definition resolve_localhost :: "resolver \<Rightarrow> bool" where
  "resolve_localhost lookup_host \<longleftrightarrow>
     (case dns_resolve lookup_host ''localhost'' of
        Inr addrs \<Rightarrow> addrs \<noteq> [] \<and> list_ex (\<lambda>a. a = ''127.0.0.1'' \<or> a = ''::1'') addrs
      | Inl _ \<Rightarrow> False)"

definition resolve_nonexistent_fails :: "resolver \<Rightarrow> bool" where
  "resolve_nonexistent_fails lookup_host \<longleftrightarrow>
     is_err (dns_resolve lookup_host ''this.host.does.not.exist.invalid'')"

text \<open>Given a resolver that knows the loopback name, by either of its addresses, and that has nothing for the other one.\<close>

lemma resolve_localhost_passes [test_passes]:
  assumes "lookup_host ''localhost:0'' = Inr answers" and "a \<in> set answers" and "sa_ip a \<in> {V4 0x7F000001, V6 1}"
  shows "resolve_localhost lookup_host"
proof -
  have "print_ip (V4 0x7F000001) = ''127.0.0.1''" "print_ip (V6 1) = ''::1''" by code_simp+
  with assms(3) have "print_ip (sa_ip a) = ''127.0.0.1'' \<or> print_ip (sa_ip a) = ''::1''" by auto
  with assms(2) have "list_ex (\<lambda>a. a = ''127.0.0.1'' \<or> a = ''::1'') (map (\<lambda>a. print_ip (sa_ip a)) answers)"
    unfolding list_ex_iff by fastforce
  moreover have "with_port ''localhost'' = ''localhost:0''" by code_simp
  ultimately show ?thesis using assms
    by (auto simp: resolve_localhost_def dns_resolve_def)
qed

lemma resolve_nonexistent_fails_passes [test_passes]:
  assumes "case lookup_host ''this.host.does.not.exist.invalid:0'' of Inl _ \<Rightarrow> True | Inr answers \<Rightarrow> answers = []"
  shows "resolve_nonexistent_fails lookup_host"
proof -
  have "with_port ''this.host.does.not.exist.invalid'' = ''this.host.does.not.exist.invalid:0''" by code_simp
  with assms show ?thesis by (auto simp: resolve_nonexistent_fails_def dns_resolve_def split: sum.splits)
qed

section \<open>Policy enforcement\<close>

text \<open>The first event that a request raises in a context without events, when the handler, or the task that it
  spawns, asks the policy: \<^verbatim>\<open>denied\<close> is what the integration tests expect.\<close>

fun is_denied :: "event list \<Rightarrow> bool" where
  "is_denied (Denied _ _ # _) \<longleftrightarrow> True"
| "is_denied _ \<longleftrightarrow> False"

definition round_trip :: "'net env \<Rightarrow> resolver \<Rightarrow> request \<Rightarrow> 'net ctx \<Rightarrow> event list" where
  "round_trip env lookup_host request c =
     (case dispatch env request c of
        (c, UdpApproving i addr port, _) \<Rightarrow> tx (fst (udp_approve env lookup_host i addr port c))
      | (c, SendToApproving i s addr port bytes, _) \<Rightarrow> tx (fst (send_to_approve env lookup_host i s addr port bytes c))
      | (c, _, Connecting i addr port sni # _) \<Rightarrow> tx (fst (connect_approve env lookup_host i addr port sni c))
      | (c, _, _) \<Rightarrow> tx c)"

definition hostname_cannot_reach_a_denied_range :: "'net env \<Rightarrow> resolver \<Rightarrow> 'net ctx \<Rightarrow> u16 \<Rightarrow> bool" where
  "hostname_cannot_reach_a_denied_range env lookup_host c echo_port \<longleftrightarrow>
     list_all (\<lambda>op. list_all (\<lambda>addr. is_denied (round_trip env lookup_host (op 1 addr echo_port) c))
         [''127.0.0.1'', ''localhost'', ''localhost.''])
       [Connect, ConnectTls, ConnectUdp]"

definition udp_send_to_is_policy_checked :: "'net env \<Rightarrow> resolver \<Rightarrow> 'net ctx \<Rightarrow> u16 \<Rightarrow> bool" where
  "udp_send_to_is_policy_checked env lookup_host c echo_port \<longleftrightarrow>
     is_denied (round_trip env lookup_host (SendTo 1 ''localhost'' echo_port ''cGluZw=='') c)"

text \<open>A resolver that has an IPv4 loopback address, or another private one, among its answers for the loopback name.\<close>

definition knows_loopback :: "resolver \<Rightarrow> bool" where
  "knows_loopback lookup \<longleftrightarrow>
     (\<forall>name \<in> {''localhost:0'', ''localhost.:0''}. \<exists>answers. lookup name = Inr answers \<and> (\<exists>a \<in> set answers. is_private_v4 (sa_ip a)))"

text \<open>A name with a loopback address among its answers is refused under the default policy.\<close>

lemma loopback_refused:
  assumes "ipnet_cidr4 lib" and "parse_ip addr = None" and "lookup (with_port addr) = Inr answers"
    and "a \<in> set answers" and "is_private_v4 (sa_ip a)"
  shows "\<exists>msg. resolve_and_check lib (Policy_new lib network_policy_default) lookup addr port = Inl msg"
proof (cases "resolve_and_check lib (Policy_new lib network_policy_default) lookup addr port")
  case (Inr t)
  with assms(2-4) have "is_ok (check_resolved lib (Policy_new lib network_policy_default) (sa_ip a) port)"
    by (auto simp: resolve_and_check_def egress.approve_name)
  with assms(1,5) show ?thesis by (simp add: check_resolved_ok default_policy_parts)
qed simp

lemma loopback_names_refused:
  assumes "ipnet_cidr4 lib" and "policy c = Policy_new lib network_policy_default"
    and "knows_loopback lookup"
    and "addr \<in> {''127.0.0.1'', ''localhost'', ''localhost.''}"
  shows "\<exists>msg. resolve_and_check lib (policy c) lookup addr port = Inl msg"
proof (cases "addr = ''127.0.0.1''")
  case True
  have "\<not> is_ok (check_connect lib (policy c) ''127.0.0.1'' port)"
    using assms(1) by (simp add: assms(2) default_policy_checks literal_texts private_texts)
  then show ?thesis
    by (cases "check_connect lib (policy c) ''127.0.0.1'' port") (simp_all add: True resolve_and_check_def approve_def)
next
  case False
  have "with_port ''localhost'' = ''localhost:0''" "with_port ''localhost.'' = ''localhost.:0''"
    "parse_ip ''localhost'' = None" "parse_ip ''localhost.'' = None" by code_simp+
  with False assms(4) have "parse_ip addr = None" "with_port addr \<in> {''localhost:0'', ''localhost.:0''}" by auto
  moreover from this(2) assms(3) obtain answers a where "lookup (with_port addr) = Inr answers"
    "a \<in> set answers" "is_private_v4 (sa_ip a)" unfolding knows_loopback_def by blast
  ultimately have "parse_ip addr = None" "lookup (with_port addr) = Inr answers" "a \<in> set answers" "is_private_v4 (sa_ip a)"
    by blast+
  from loopback_refused [where lookup = lookup, OF assms(1) this] show ?thesis by (simp add: assms(2))
qed

text \<open>Both tests hold for every network library that reads CIDR blocks and every resolver that knows
  the loopback name.\<close>

lemma hostname_cannot_reach_a_denied_range_passes [test_passes]:
  assumes "ipnet_cidr4 (net env)" and "policy c = Policy_new (net env) network_policy_default"
    and "knows_loopback lookup"
    and "tx c = []" and "active c < max_connections (policy c)"
  shows "hostname_cannot_reach_a_denied_range env lookup c echo_port"
proof -
  have "is_denied (round_trip env lookup (op 1 addr echo_port) c)"
    if "addr \<in> {''127.0.0.1'', ''localhost'', ''localhost.''}" and op: "op \<in> {Connect, ConnectTls, ConnectUdp}" for addr op
  proof -
    from loopback_names_refused [OF assms(1-3) that(1)] obtain msg where
      "resolve_and_check (net env) (policy c) lookup addr echo_port = Inl msg" by blast
    with op assms(4,5) show ?thesis
      by (auto simp: round_trip_def handle_connect_def handle_connect_tls_def handle_connect_udp_def at_connection_limit_def
          connect_approve_def udp_approve_def approved_target_def notify_def event_denied_def)
  qed
  then show ?thesis by (simp add: hostname_cannot_reach_a_denied_range_def)
qed

lemma udp_send_to_is_policy_checked_passes [test_passes]:
  assumes "ipnet_cidr4 (net env)" and "policy c = Policy_new (net env) network_policy_default"
    and "knows_loopback lookup"
    and "tx c = []" and "hm_get (sockets c) 1 = Some (Udp s target ch)" and "b64_decode (codec env) ''cGluZw=='' = Some bytes"
  shows "udp_send_to_is_policy_checked env lookup c echo_port"
proof -
  from loopback_names_refused [OF assms(1-3), of "''localhost''"] obtain msg where
    "resolve_and_check (net env) (policy c) lookup ''localhost'' echo_port = Inl msg" by auto
  with assms(4-6) show ?thesis
    by (simp add: udp_send_to_is_policy_checked_def round_trip_def handle_send_to_def send_to_approve_def approved_target_def
        notify_def event_denied_def)
qed

end
