(* ===== verification/Spec2Isabelle.thy ===== *)
theory Spec2Isabelle
  imports Serving End_To_End Winddown Rule_Lists Unit_Tests
begin

text \<open>
  wasmnet is a networking proxy for WebAssembly programs in a browser: the browser client opens one WebSocket or
  WebTransport connection to the server and asks it, in small messages, to open TCP, TLS and UDP sockets, to listen,
  to send, and to resolve names. The server decides by a policy which targets may be reached. This library models
  the server (\<^verbatim>\<open>src/*.rs\<close>) and the client (\<^verbatim>\<open>client/wasmnet-client.js\<close>) and proves what they promise.

  \<^bold>\<open>How the parts interact.\<close> \<^verbatim>\<open>main\<close> builds a server from the command line. The server runs one session per connection;
  the sessions share the policy, one rate limiter and one connection pool. A session decodes each message to a
  request, dispatches it to a handler, and runs a task per socket; tasks and handlers raise events, which one
  writer encodes and sends back. Every connection passes through name resolution and approval by the policy. The
  client keeps a table of sockets and one of lookups, and settles promises and runs callbacks as events arrive.

  \<^bold>\<open>Theories.\<close>
  \<^item> \<open>Prelude\<close>: integer types, \<^verbatim>\<open>Result\<close>, \<^verbatim>\<open>HashMap\<close> (locale \<open>hash_map\<close>), texts that parse back (locale \<open>text_codec\<close>),
    reachability and invariants of a step relation (locale \<open>inductive_invariant\<close>).
  \<^item> \<open>Rust_Str\<close>, \<open>Rust_Num\<close>, \<open>Utf8\<close>, \<open>Rust_Net\<close>, \<open>Rust_F64\<close>: what the sources use of the standard library. Strings are
    lists of UTF-8 bytes. The address parser is that of \<^verbatim>\<open>std::net\<close>, and is shown to undo the printer. Doubles are rationals
    with every operation rounded to nearest even (locale \<open>float_format\<close>).
  \<^item> \<open>Protocol\<close> (\<^verbatim>\<open>protocol.rs\<close>), \<open>Binary\<close> (\<^verbatim>\<open>binary.rs\<close>): requests, events and their frames. Decoding never panics.
  \<^item> \<open>Client_Codec\<close> (the codec of \<^verbatim>\<open>wasmnet-client.js\<close>): the two sides read what the other writes.
  \<^item> \<open>Policy\<close> (\<^verbatim>\<open>policy.rs\<close>): rules from their text, and each check as an exact characterisation of what it admits.
  \<^item> \<open>Rule_Lists\<close>: how \<^verbatim>\<open>parse_rules\<close> sorts a list, and which rules it drops.
  \<^item> \<open>Dns\<close> (\<^verbatim>\<open>dns.rs\<close>, \<^verbatim>\<open>resolve_and_check\<close>): approval over the interface \<open>egress_policy\<close>, interpreted on \<open>Policy\<close>.
  \<^item> \<open>Rate_Limit\<close> (\<^verbatim>\<open>rate_limit.rs\<close>): the token bucket; no panic, bursts, the rate a sender is held to.
  \<^item> \<open>Pool\<close> (\<^verbatim>\<open>pool.rs\<close>): idle connections; the contract is the locale \<open>stream_store\<close>.
  \<^item> \<open>Proxy\<close> (\<^verbatim>\<open>proxy.rs\<close>): the state and operations of a session. The record \<open>ctx\<close> is \<^verbatim>\<open>Ctx\<close>; \<open>task\<close> and \<open>main_state\<close> are the
    points where the code awaits; \<open>session_step\<close> interleaves loop, tasks, writer and the other users of shared parts. What it
    does to the network is logged as \<open>effect\<close>s: dials, binds (with the port asked for), datagrams, and each \<^verbatim>\<open>write_all\<close> as
    completed or broken off. A name lookup is not an effect.
  \<^item> \<open>Session\<close>: invariants of all interleavings, through the locales \<open>session_kept\<close> (what each kind of step must keep, which then
    holds in every continuation of a state) and \<open>session_invariant\<close>, which extends it by the start of a session:
    where traffic goes, what the counter counts, that the limiter never panics, that the pool stays empty.
  \<^item> \<open>Session_Runs\<close>: the order of events on the wire, and particular runs (a closed socket, a hang-up, connects that overrun
    the limit).
  \<^item> \<open>Streams\<close>: invariants that account for every message a client sends on a TCP connection (as written, being written or queued,
    or, after a failed write, as cut short or lost) and for every read from a peer.
  \<^item> \<open>Events\<close>: an invariant that types every event a session raises, so that the client reads each one back; and one for the
    numbers of accepted connections, which each listener gives one after another, with the run in which such a number is taken.
  \<^item> \<open>Winddown\<close>: a connection closed at both ends writes exactly what is left and ends after a bounded number of its steps, unless
    a write fails; one that only the peer has closed waits for the client.
  \<^item> \<open>Webtransport\<close> (\<^verbatim>\<open>webtransport.rs\<close> and the client's transport): framing of a byte stream, once per side, through the
    locale \<open>framing\<close>; a session over it refines a WebSocket session, and its events reach the client however the
    stream is cut.
  \<^item> \<open>Server\<close> (\<^verbatim>\<open>lib.rs\<close>, \<^verbatim>\<open>main.rs\<close>): builder and command line.
  \<^item> \<open>Serving\<close> (\<^verbatim>\<open>lib.rs\<close>, \<^verbatim>\<open>webtransport.rs\<close>, \<^verbatim>\<open>main.rs\<close>): the listeners of both transports and the server as interleaved
    sessions over a shared limiter and pool. \<open>work_step\<close> is what the spawned tasks do, \<open>server_step\<close> adds the listeners and
    the shutdown signal of a library user, \<open>main_step\<close> the listeners as \<^verbatim>\<open>main\<close> runs them. The locale \<open>tenant\<close> says what makes
    one of many sessions behave as one alone; both transports interpret it.
  \<^item> \<open>Client\<close> (\<^verbatim>\<open>wasmnet-client.js\<close>): the client's tables, methods and event handlers.
  \<^item> \<open>Base64\<close>, \<open>Json\<close> (\<^verbatim>\<open>wasmnet-client.js\<close>, \<^verbatim>\<open>protocol.rs\<close>): JSON mode, as values. Both modes carry the same request exactly when
    its numbers fit their fields and text is ASCII; an event has the same effect in both, but for one that would fulfil the
    promise of an accepted connection.
  \<^item> \<open>Transport\<close> (\<^verbatim>\<open>wasmnet-client.js\<close>): the constructor and the two transports while they open, run and close.
  \<^item> \<open>End_To_End\<close>: data from a peer through bridge, event, frame, stream, read loop and buffer to the application.
  \<^item> \<open>Unit_Tests\<close> (the test modules, \<^verbatim>\<open>tests/policy_enforcement.rs\<close>): the tests of the repository as predicates, and that the
    model passes them.
  \<^item> This theory: properties that span components, from the command line to the network and from a method of the
    client to the server and back.

  \<^bold>\<open>Parameters.\<close> Code outside the repository is an argument: networks of the \<^verbatim>\<open>ipnet\<close> crate and case folding beyond ASCII
  (\<open>net_lib\<close>), \<^verbatim>\<open>base64\<close> and \<^verbatim>\<open>serde_json\<close> (\<open>codec_lib\<close>), \<^verbatim>\<open>TextDecoder\<close> and \<^verbatim>\<open>JSON.parse\<close> (\<open>js_lib\<close>), the text of JSON
  (\<open>json_lib\<close>), files and TOML (\<open>file_lib\<close>), TLS server names (\<open>server_name\<close>), certificates and the QUIC endpoint (\<open>wt_lib\<close>), the
  system resolver, the instants read from the clock, and the outcomes of socket, handshake and TLS operations.
  What a theorem needs of them is a hypothesis (\<open>b64_roundtrip\<close>, \<open>b64_standard\<close>, \<open>serde_reads\<close>, \<open>serde_writes\<close>, \<open>ipnet_cidr4\<close>,
  \<open>carried\<close>, \<open>decodes_utf8\<close>, \<open>lists_come_back\<close>), shown satisfiable by the instances of the witnesses. \<^verbatim>\<open>TextDecoder\<close> removes a byte order
  mark at the start of a text, so a message that begins with one is not carried unchanged.

  \<^bold>\<open>Bounds.\<close> All functions are total; loops are structural or have a measure, so no fuel is used. Machine integers
  are words of their width: the connection counter, accepted identifiers and length prefixes wrap as in a release
  build. Clocks are arbitrary instants unless a theorem orders them.

  \<^bold>\<open>Not modelled.\<close> The text of JSON messages (\<^verbatim>\<open>serde\<close> and the browser's \<^verbatim>\<open>JSON\<close>; the objects are modelled), log output,
  argument parsing (\<^verbatim>\<open>clap\<close>), the WebSocket, QUIC and TLS protocols, and the length of a connection timeout (that a
  connect may time out is). A JSON event that lacks a field is outside the client's model. Callbacks of the
  application are taken not to throw and not to call back into the client. Memory use is not modelled, and
  channels are unbounded, as in the code. The lines of the sources without a counterpart are imports, documentation,
  attributes, log statements and the calls into those libraries. The WebTransport echo test drives a live QUIC endpoint and is
  not translated.
\<close>

section \<open>The default server\<close>

lemma default_setup:
  assumes "main_setup lib fs now args = Inr (srv, wt)" and "\<not> a_no_policy args" and "a_policy args = None"
  shows "srv_policy srv = Policy_new lib network_policy_default"
proof -
  from assms(1) obtain b where b: "main_builder fs args = Inr b" "build lib now b = Inr srv"
    by (auto simp: main_setup_def split: sum.splits option.splits)
  from build_parts [OF b(2)] main_builder_parts [OF b(1)] assms(2,3) show ?thesis
    by (simp add: cli_policy_def)
qed

lemma serving_effects_ok:
  assumes "reachable (serving_started config) (server_step env config) v"
  shows "\<forall>c \<in> ctx ` set (sessions v) \<union> wt_ctx ` set (wt_sessions v). list_all (effect_ok env (cfg_policy config)) (effects c)"
proof (intro ballI, elim UnE imageE)
  fix c s
  assume "c = ctx s" and "s \<in> set (sessions v)"
  with serving_inv.inv_reachable [OF assms]
  have "reachable (started config) (session_step env) (with_shared (shared_rl v) (shared_pool v) s)"
    by (simp add: serving_ok_def)
  from session_effects_ok [OF this] \<open>c = ctx s\<close> show "list_all (effect_ok env (cfg_policy config)) (effects c)"
    by (simp add: with_shared_def)
next
  fix c w
  assume "c = wt_ctx w" and "w \<in> set (wt_sessions v)"
  with serving_inv.inv_reachable [OF assms]
  have "reachable (wt_started config) (wt_step env) (wt_with_shared (shared_rl v) (shared_pool v) w)"
    by (simp add: serving_ok_def)
  from wt_sim.inv_reachable [OF this] obtain s where "reachable (started config) (session_step env) s"
      "ctx s = share (shared_rl v) (shared_pool v) c"
    using \<open>c = wt_ctx w\<close> by (auto simp: simulated_def visits_def wt_with_shared_def)
  with session_effects_ok [OF this(1)] show "list_all (effect_ok env (cfg_policy config)) (effects c)" by simp
qed

text \<open>C2. A server started without a policy file and without \<^verbatim>\<open>--no-policy\<close> never reaches into the private networks: from the
  command line on, over every interleaving of every number of sessions of both transports, whatever the clients
  send and whatever names resolve to, no session dials, connects a UDP socket to or sends a datagram to an IPv4
  address of the five private ranges.\<close>

theorem default_server_spares_private_networks:
  assumes "main_setup (net env) fs now args = Inr (srv, wt)" and "\<not> a_no_policy args" and "a_policy args = None"
    and "ipnet_cidr4 (net env)"
    and "reachable (serving_started (server_session_config srv)) (server_step env (server_session_config srv)) v"
    and "c \<in> ctx ` set (sessions v) \<union> wt_ctx ` set (wt_sessions v)"
  shows "list_all (\<lambda>e. case e of
      TcpDial t \<Rightarrow> \<not> is_private_v4 (sa_ip t)
    | UdpConnect t \<Rightarrow> \<not> is_private_v4 (sa_ip t)
    | UdpSend _ t _ \<Rightarrow> \<not> is_private_v4 (sa_ip t)
    | _ \<Rightarrow> True) (effects c)"
proof -
  let ?config = "server_session_config srv"
  have "list_all (effect_ok env (cfg_policy ?config)) (effects c)"
    using serving_effects_ok [OF assms(5)] assms(6) by (rule bspec)
  moreover have "cfg_policy ?config = Policy_new (net env) network_policy_default"
    using default_setup [OF assms(1-3)] by (simp add: server_session_config_def)
  ultimately show ?thesis
    by (elim list.pred_mono_strong) (auto simp: cleared_def default_policy_parts [OF assms(4)] split: effect.splits)
qed

text \<open>A server with one WebSocket session steps as that session does.\<close>

definition alone :: "'net env \<Rightarrow> 'net session_config \<Rightarrow> 'net session \<Rightarrow> bool" where
  "alone env config s \<longleftrightarrow>
     (\<exists>v. reachable (serving_started config) (server_step env config) v \<and> sessions v = [s] \<and>
       shared_rl v = rl (ctx s) \<and> shared_pool v = pool (ctx s))"

lemma alone_new: "alone env config (session_new config)"
proof -
  from accept_both [of config env "[]"] obtain v where "reachable (serving_started config) (server_step env config) v"
    "sessions v = [session_new config]" "shared_rl v = cfg_rate_limiter config" "shared_pool v = cfg_pool config" by auto
  then show ?thesis unfolding alone_def by (intro exI [of _ v]) (simp add: session_new_def Ctx_new_def)
qed

lemma alone_step:
  assumes "alone env config s" and "session_step env s s'"
  shows "alone env config s'"
proof -
  from assms(1) obtain v where v: "reachable (serving_started config) (server_step env config) v" "sessions v = [s]"
      "shared_rl v = rl (ctx s)" "shared_pool v = pool (ctx s)" by (auto simp: alone_def)
  let ?v = "v\<lparr>shared_rl := rl (ctx s'), shared_pool := pool (ctx s'), sessions := (sessions v)[0 := s']\<rparr>"
  have "server_step env config v ?v"
    using v assms(2) ws_tenant.seat_same [of s] by (intro server_step.work work_step.run) simp_all
  from reachable.move [OF v(1) this] v(2) show ?thesis unfolding alone_def by (intro exI [of _ ?v]) simp
qed

lemma alone_dials:
  assumes "cfg_pool config = None" and "active (Ctx_new config) < max_connections (cfg_policy config)"
    and "receive (codec env) msg = Request (Connect i addr port)"
    and "resolve_and_check (net env) (cfg_policy config) lookup addr port = Inr t"
  shows "\<exists>s. alone env config s \<and> effects (ctx s) = [TcpDial t]"
proof -
  let ?s0 = "session_new config"
  let ?s1 = "on_message env msg ?s0"
  have new: "policy (Ctx_new config) = cfg_policy config" "pool (Ctx_new config) = cfg_pool config"
    "effects (Ctx_new config) = []" by (simp_all add: Ctx_new_def)
  have s1: "main ?s0 = Ready" "ctx ?s1 = Ctx_new config" "tasks ?s1 = [] @ Connecting i addr port None # []"
    using assms(2,3) by (simp_all add: session_new_def on_message_def handle_connect_def at_connection_limit_def Let_def Ctx_new_def
        del: receive.simps)
  let ?s2 = "?s1\<lparr>ctx := ctx ?s1, tasks := [] @ [Dialing i t None] @ []\<rparr>"
  have "task_step env (ctx ?s1, Connecting i addr port None) (ctx ?s1, [Dialing i t None])"
    using task_step.approve [of env "ctx ?s1" i addr port None lookup] assms(4)
    by (simp add: connect_approve_def approved_target_def s1 new)
  from session_step.task [OF s1(3) this] have step2: "session_step env ?s1 ?s2" .
  have s2: "tasks ?s2 = [] @ Dialing i t None # []" by simp
  define c where "c = notify (event_error i []) (emit (TcpDial t) (ctx ?s2))"
  have "task_step env (ctx ?s2, Dialing i t None) (c, [])"
    using task_step.dial [of env "ctx ?s2" i t _ "Refused []"] assms(1)
    by (simp add: connect_dial_def try_pool_or_connect_def s1 new c_def emit_def)
  from session_step.task [OF s2 this] have "session_step env ?s2 (?s2\<lparr>ctx := c, tasks := [] @ [] @ []\<rparr>)" .
  with step2 have "alone env config (?s2\<lparr>ctx := c, tasks := [] @ [] @ []\<rparr>)"
    by (rule alone_step [OF alone_step [OF alone_step [OF alone_new session_step.message [OF s1(1)]]]])
  then show ?thesis
    by (intro exI [of _ "?s2\<lparr>ctx := c, tasks := [] @ [] @ []\<rparr>"])
      (simp add: c_def emit_def notify_def s1 new)
qed

definition demo_fs :: file_lib where
  "demo_fs = \<lparr>read_to_string = (\<lambda>_. Inl ''missing''), toml_from_str = (\<lambda>_. Inl ''bad'')\<rparr>"

lemma demo_setup: "\<exists>srv. main_setup demo_net demo_fs 0 args_default = Inr (srv, None) \<and> srv_pool srv = None"
proof -
  have "is_ok (main_setup demo_net demo_fs 0 args_default)" "a_webtransport_port args_default = None"
    "b_pool_idle_secs ServerBuilder_new = None" by code_simp+
  then show ?thesis
    by (auto simp: is_ok_iff main_setup_def main_builder_def args_default_def build_def Let_def builder_port_def
        builder_host_def split: sum.splits option.splits)
qed

theorem default_server_spares_private_networks_witness:
  "\<exists>srv v. main_setup demo_net demo_fs 0 args_default = Inr (srv, None) \<and>
    reachable (serving_started (server_session_config srv)) (server_step demo_env (server_session_config srv)) v \<and>
    effects (ctx (sessions v ! 0)) = [TcpDial (SockV4 0x08080808 53)] \<and> \<not> is_private_v4 (V4 0x08080808)"
proof -
  from demo_setup obtain srv where srv: "main_setup demo_net demo_fs 0 args_default = Inr (srv, None)" "srv_pool srv = None"
    by blast
  let ?config = "server_session_config srv"
  have args: "\<not> a_no_policy args_default" "a_policy args_default = None" by (simp_all add: args_default_def)
  have pol: "cfg_policy ?config = cfg_policy demo_config"
    using default_setup [OF srv(1) args] by (simp add: server_session_config_def demo_config_def)
  have "\<exists>s. alone demo_env ?config s \<and> effects (ctx s) = [TcpDial (SockV4 0x08080808 53)]"
  proof (rule alone_dials [OF _ _ demo_messages(1)])
    show "cfg_pool ?config = None" using srv(2) by (simp add: server_session_config_def)
    show "active (Ctx_new ?config) < max_connections (cfg_policy ?config)"
      using demo_policy by (simp add: pol word_gt_0 Ctx_new_def)
    show "resolve_and_check (net demo_env) (cfg_policy ?config) (\<lambda>_. Inl []) ''8.8.8.8'' 53 = Inr (SockV4 0x08080808 53)"
      using demo_approved by (simp add: pol)
  qed
  then obtain v where v: "reachable (serving_started ?config) (server_step demo_env ?config) v" "length (sessions v) = 1"
    "effects (ctx (sessions v ! 0)) = [TcpDial (SockV4 0x08080808 53)]" by (auto simp: alone_def)
  have "main_setup (net demo_env) demo_fs 0 args_default = Inr (srv, None)" "ipnet_cidr4 (net demo_env)"
    "ctx (sessions v ! 0) \<in> ctx ` set (sessions v) \<union> wt_ctx ` set (wt_sessions v)"
    using srv(1) demo_net_cidr4 v(2) by (simp_all add: demo_env_def)
  from default_server_spares_private_networks [OF this(1) args this(2) v(1) this(3)] srv(1) v show ?thesis by auto
qed

section \<open>From the application to the server and back\<close>

lemma receive_connect:
  "is_utf8 addr \<Longrightarrow> receive lib (BinaryMsg (encode_req (ReqConnect i addr port))) = Request (Connect (of_nat i) addr (of_nat port))"
  by (simp add: js_connect_def decode_js_host_port [OF js_request_codes(1)])

lemma receive_resolve:
  "is_utf8 name \<Longrightarrow> receive lib (BinaryMsg (encode_req (ReqResolve i name))) = Request (Resolve (of_nat i) name)"
  by (simp add: js_resolve_def sendBinary_frame js_request_codes decode_resolve del: js_code.simps)

lemma unat_small: "n < 2 ^ 53 \<Longrightarrow> unat (of_nat n :: u64) = n"
  by (simp add: unat_of_nat)

text \<open>C14. A refused connection is reported to the application that asked for it. The frame of \<^verbatim>\<open>connect\<close>, received by a session
  below its connection limit, starts one task; if the policy refuses the target, as spelled or as resolved, that
  task ends without dialling or sending and raises one event; and that event, encoded and handled by the browser
  client, rejects the promise of that very call with the server's message and forgets the socket.\<close>

theorem refused_connect_is_rejected:
  fixes c :: client and s :: "'net session"
  defines "i \<equiv> nextId c"
  assumes "is_utf8 addr" and "i < 2 ^ 53" and "active (ctx s) < max_connections (policy (ctx s))"
    and "resolve_and_check (net env) (policy (ctx s)) lookup addr (of_nat port) = Inl msg"
  shows "requests (c_connect addr port c) = requests c @ [ReqConnect i addr port] \<and>
    on_message env (BinaryMsg (encode_req (ReqConnect i addr port))) s =
      s\<lparr>binary_mode := True, main := Ready, tasks := tasks s @ [Connecting (of_nat i) addr (of_nat port) None]\<rparr> \<and>
    connect_approve env lookup (of_nat i) addr (of_nat port) None (ctx s) = (notify (Denied (of_nat i) msg) (ctx s), []) \<and>
    c_binary_event js (encode_event (codec env) (Denied (of_nat i) msg)) (c_connect addr port c) =
      drop_sock i (say (Rejected i (text_decode js (as_bytes msg))) (c_connect addr port c))"
proof (intro conjI)
  show "requests (c_connect addr port c) = requests c @ [ReqConnect i addr port]"
    by (simp add: c_connect_def open_sock_def request_sent_def set_sock_def i_def Let_def)
  show "on_message env (BinaryMsg (encode_req (ReqConnect i addr port))) s =
      s\<lparr>binary_mode := True, main := Ready, tasks := tasks s @ [Connecting (of_nat i) addr (of_nat port) None]\<rparr>"
    using assms(2,4) by (simp add: on_message_def receive_connect handle_connect_def at_connection_limit_def Let_def
        del: receive.simps encode_req.simps)
  show "connect_approve env lookup (of_nat i) addr (of_nat port) None (ctx s) = (notify (Denied (of_nat i) msg) (ctx s), [])"
    using assms(5) by (simp add: connect_approve_def approved_target_def event_denied_def)
  show "c_binary_event js (encode_event (codec env) (Denied (of_nat i) msg)) (c_connect addr port c) =
      drop_sock i (say (Rejected i (text_decode js (as_bytes msg))) (c_connect addr port c))"
    using assms(3) failure_of_connect [of True c] by (simp add: c_binary_event_def handle_failure unat_small i_def del: handle_call.simps encode_event.simps)
qed

theorem refused_connect_is_rejected_witness:
  "\<exists>msg. connect_approve demo_env (\<lambda>_. Inl []) 1 ''127.0.0.1'' 80 None (ctx (session_new demo_config)) =
      (notify (Denied 1 msg) (ctx (session_new demo_config)), []) \<and>
    calls (c_binary_event demo_js (encode_event demo_lib (Denied 1 msg)) (c_connect ''127.0.0.1'' 80 client_new)) =
      [Rejected 1 (text_decode demo_js (as_bytes msg))]"
proof -
  let ?s = "session_new demo_config"
  have s: "policy (ctx ?s) = cfg_policy demo_config" "active (ctx ?s) < max_connections (policy (ctx ?s))"
    using demo_policy by (simp_all add: session_new_def Ctx_new_def word_gt_0)
  have c: "is_utf8 ''127.0.0.1''" "nextId client_new = 1" "calls (c_connect ''127.0.0.1'' 80 client_new) = []"
    by code_simp+
  have "\<not> is_ok (resolve_and_check (net demo_env) (cfg_policy demo_config) (\<lambda>_. Inl []) ''127.0.0.1'' 80)"
    by code_simp
  then obtain msg where "resolve_and_check (net demo_env) (policy (ctx ?s)) (\<lambda>_. Inl []) ''127.0.0.1'' (of_nat 80) = Inl msg"
    using s(1) by (cases "resolve_and_check (net demo_env) (cfg_policy demo_config) (\<lambda>_. Inl []) ''127.0.0.1'' 80")
      (auto simp: is_ok_iff)
  from refused_connect_is_rejected [OF c(1) _ s(2) this, of client_new demo_js] c show ?thesis
    by (intro exI [of _ msg]) (simp add: demo_env_def drop_sock_def say_def)
qed

text \<open>C20. A failed lookup is never reported to the application. The frame of \<^verbatim>\<open>resolve\<close> starts one task on the server; if the
  name does not resolve, that task raises an error event; and the browser client, which keeps its lookups in a
  table of their own, looks for a socket of that number, finds none and does nothing: the promise is neither
  fulfilled nor rejected and stays pending.\<close>

theorem failed_lookup_never_settles:
  fixes c :: client and s :: "'net session"
  defines "i \<equiv> nextId c"
  assumes "is_utf8 name" and "i < 2 ^ 53" and "hm_get (c_sockets c) i = None"
    and "dns_resolve lookup name = Inl msg" and "main s = Ready"
  shows "requests (c_resolve name c) = requests c @ [ReqResolve i name] \<and>
    on_message env (BinaryMsg (encode_req (ReqResolve i name))) s =
      s\<lparr>binary_mode := True, tasks := tasks s @ [Resolving (of_nat i) name]\<rparr> \<and>
    resolve_done lookup (of_nat i) name (ctx s) = notify (Error (of_nat i) msg) (ctx s) \<and>
    c_binary_event js (encode_event (codec env) (Error (of_nat i) msg)) (c_resolve name c) = c_resolve name c \<and>
    hm_get (c_resolves (c_resolve name c)) i = Some ()"
proof (intro conjI)
  show "requests (c_resolve name c) = requests c @ [ReqResolve i name]"
    by (simp add: c_resolve_def request_sent_def i_def Let_def)
  show "on_message env (BinaryMsg (encode_req (ReqResolve i name))) s =
      s\<lparr>binary_mode := True, tasks := tasks s @ [Resolving (of_nat i) name]\<rparr>"
    using assms(2,6) by (simp add: on_message_def receive_resolve handle_resolve_def Let_def
        del: receive.simps encode_req.simps)
  show "resolve_done lookup (of_nat i) name (ctx s) = notify (Error (of_nat i) msg) (ctx s)"
    using assms(5) by (simp add: resolve_done_def event_error_def)
  show "c_binary_event js (encode_event (codec env) (Error (of_nat i) msg)) (c_resolve name c) = c_resolve name c"
    using assms(3,4) failure_of_lookup(1) [of c True] by (simp add: c_binary_event_def handle_failure unat_small i_def del: handle_call.simps encode_event.simps)
  show "hm_get (c_resolves (c_resolve name c)) i = Some ()"
    using assms(4) failure_of_lookup(2) unfolding i_def by blast
qed

theorem failed_lookup_never_settles_witness:
  "resolve_done (\<lambda>_. Inl ''not known'') 1 ''nowhere'' (ctx (session_new demo_config)) =
      notify (Error 1 ''DNS resolution failed: not known'') (ctx (session_new demo_config)) \<and>
    c_binary_event demo_js (encode_event demo_lib (Error 1 ''DNS resolution failed: not known'')) (c_resolve ''nowhere'' client_new) =
      c_resolve ''nowhere'' client_new"
proof -
  have c: "is_utf8 ''nowhere''" "nextId client_new = 1" "hm_get (c_sockets client_new) 1 = None" by code_simp+
  have "dns_resolve (\<lambda>_. Inl ''not known'') ''nowhere'' = Inl ''DNS resolution failed: not known''"
    by (simp add: dns_resolve_def)
  from failed_lookup_never_settles [OF c(1) _ _ this, of client_new "session_new demo_config" demo_env demo_js] c show ?thesis
    by (simp add: demo_env_def session_new_def)
qed

end
